(* ===== verification/Prelude.thy ===== *)
theory Prelude
  imports Main "HOL-Library.Word"
begin

text \<open>
  Shared vocabulary of the development: Go's machine integers, instants and durations, the part of
  package \<^verbatim>\<open>strings\<close> the program uses, and generic lemmas on lists. A Go \<^verbatim>\<open>string\<close> is a
  sequence of bytes, and so is a HOL \<^typ>\<open>string\<close> (a \<^typ>\<open>char\<close> is a byte), so
  \<^verbatim>\<open>len\<close> is \<^const>\<open>length\<close>.
\<close>

named_theorems go_simps \<open>evaluation of the Go library functions\<close>
named_theorems inv_intros \<open>one preservation lemma per operation\<close>

section \<open>Integers, instants, durations\<close>

type_synonym byte = "8 word"

text \<open>
  A \<^verbatim>\<open>time.Time\<close> is the number of nanoseconds since Go's zero time (1 January of year 1, UTC), so
  that \<^verbatim>\<open>IsZero\<close> is equality with 0. A \<^verbatim>\<open>time.Duration\<close> is a signed 64-bit
  number of nanoseconds, kept as an \<^typ>\<open>int\<close> with the wrap-around and the saturation of the library
  written out.
\<close>

type_synonym gotime = int
type_synonym duration = int

definition wrap64 :: "int \<Rightarrow> int" where
  "wrap64 x = (x + 2 ^ 63) mod 2 ^ 64 - 2 ^ 63"

definition max_int64 :: int where
  "max_int64 = 2 ^ 63 - 1"

definition min_int64 :: int where
  "min_int64 = - (2 ^ 63)"

definition nanosecond :: duration where "nanosecond = 1"
definition millisecond :: duration where "millisecond = 1000000"
definition second :: duration where "second = 1000000000"
definition minute :: duration where "minute = 60000000000"
definition hour :: duration where "hour = 3600000000000"

lemmas unit_defs [go_simps] =
  nanosecond_def millisecond_def second_def minute_def hour_def

definition IsZero :: "gotime \<Rightarrow> bool" where
  "IsZero t \<longleftrightarrow> t = 0"

text \<open>\<^verbatim>\<open>Time.Sub\<close> saturates at the extreme durations.\<close>

definition time_sub :: "gotime \<Rightarrow> gotime \<Rightarrow> duration" where
  "time_sub t u = max min_int64 (min max_int64 (t - u))"

text \<open>
  What a \<^verbatim>\<open>DATETIME(6)\<close> column keeps of an instant: microseconds, the rest cut off.
  \<^verbatim>\<open>UTC_TIMESTAMP(6)\<close> has the same resolution.
\<close>

definition datetime6 :: "gotime \<Rightarrow> gotime" where
  "datetime6 t = t - t mod 1000"

lemma wrap64_id: "min_int64 \<le> x \<Longrightarrow> x \<le> max_int64 \<Longrightarrow> wrap64 x = x"
  by (simp add: wrap64_def min_int64_def max_int64_def)

lemma wrap64_range: "min_int64 \<le> wrap64 x \<and> wrap64 x \<le> max_int64"
proof -
  have "0 \<le> (x + 2 ^ 63) mod 2 ^ 64" and "(x + 2 ^ 63) mod 2 ^ 64 < (2 :: int) ^ 64"
    by simp_all
  then show ?thesis by (simp add: wrap64_def min_int64_def max_int64_def)
qed

lemma datetime6_le: "datetime6 t \<le> t"
  by (simp add: datetime6_def)

lemma datetime6_gt: "t - 1000 < datetime6 t"
proof -
  have "t mod 1000 < 1000" by simp
  then show ?thesis by (simp add: datetime6_def)
qed

lemma datetime6_idem [simp]: "datetime6 (datetime6 t) = datetime6 t"
  by (simp add: datetime6_def mod_diff_left_eq)

lemma datetime6_mono: "t \<le> u \<Longrightarrow> datetime6 t \<le> datetime6 u"
proof -
  have eq: "datetime6 v = 1000 * (v div 1000)" for v
    unfolding datetime6_def by (rule minus_mod_eq_mult_div)
  assume "t \<le> u"
  then show ?thesis by (simp add: eq zdiv_mono1)
qed

section \<open>Package strings\<close>

definition HasPrefix :: "string \<Rightarrow> string \<Rightarrow> bool" where
  "HasPrefix s p \<longleftrightarrow> take (length p) s = p"

definition HasSuffix :: "string \<Rightarrow> string \<Rightarrow> bool" where
  "HasSuffix s p \<longleftrightarrow> length p \<le> length s \<and> drop (length s - length p) s = p"

definition TrimPrefix :: "string \<Rightarrow> string \<Rightarrow> string" where
  "TrimPrefix s p = (if HasPrefix s p then drop (length p) s else s)"

definition TrimSuffix :: "string \<Rightarrow> string \<Rightarrow> string" where
  "TrimSuffix s p = (if HasSuffix s p then take (length s - length p) s else s)"

fun Contains :: "string \<Rightarrow> string \<Rightarrow> bool" where
  "Contains [] sub \<longleftrightarrow> sub = []"
| "Contains (c # cs) sub \<longleftrightarrow> HasPrefix (c # cs) sub \<or> Contains cs sub"

text \<open>The character sets the program passes to \<^verbatim>\<open>ContainsAny\<close> are ASCII, so bytes decide it.\<close>

definition ContainsAny :: "string \<Rightarrow> string \<Rightarrow> bool" where
  "ContainsAny s chars \<longleftrightarrow> list_ex (\<lambda>c. c \<in> set chars) s"

text \<open>Every call has a non-empty \<^verbatim>\<open>old\<close>, the only case modelled.\<close>

function ReplaceAll :: "string \<Rightarrow> string \<Rightarrow> string \<Rightarrow> string" where
  "ReplaceAll [] old new = []"
| "ReplaceAll (c # cs) old new =
     (if old \<noteq> [] \<and> HasPrefix (c # cs) old
      then new @ ReplaceAll (drop (length old) (c # cs)) old new
      else c # ReplaceAll cs old new)"
  by pat_completeness auto
termination
  by (relation "measure (\<lambda>(s, old, new). length s)") (auto simp: Suc_diff_le neq_Nil_conv)

text \<open>\<^verbatim>\<open>strings.Split\<close> with a one-byte separator.\<close>

fun Split :: "string \<Rightarrow> char \<Rightarrow> string list" where
  "Split [] sep = [[]]"
| "Split (c # cs) sep =
     (if c = sep then [] # Split cs sep
      else case Split cs sep of [] \<Rightarrow> [[c]] | p # ps \<Rightarrow> (c # p) # ps)"

lemma HasPrefix_Nil [simp]: "HasPrefix s []"
  by (simp add: HasPrefix_def)

lemma HasPrefix_Nil2 [simp]: "HasPrefix [] p \<longleftrightarrow> p = []"
  by (auto simp: HasPrefix_def)

lemma HasPrefix_Cons [simp]: "HasPrefix (c # s) (d # p) \<longleftrightarrow> c = d \<and> HasPrefix s p"
  by (auto simp: HasPrefix_def)

lemma HasPrefix_append: "HasPrefix s p \<longleftrightarrow> (\<exists>t. s = p @ t)"
  by (metis HasPrefix_def append_eq_conv_conj append_take_drop_id)

lemma HasSuffix_append: "HasSuffix s p \<longleftrightarrow> (\<exists>t. s = t @ p)"
  unfolding HasSuffix_def by (metis append_eq_conv_conj append_take_drop_id le_add2 length_append
      add_diff_cancel_right')

lemma Contains_iff: "Contains s sub \<longleftrightarrow> (\<exists>a b. s = a @ sub @ b)"
proof (induction s)
  case Nil
  then show ?case by simp
next
  case (Cons c cs)
  show ?case
  proof
    assume "Contains (c # cs) sub"
    then show "\<exists>a b. c # cs = a @ sub @ b"
      using Cons by (metis Contains.simps(2) HasPrefix_append append_Cons append_Nil)
  next
    assume "\<exists>a b. c # cs = a @ sub @ b"
    then obtain a b where ab: "c # cs = a @ sub @ b" by blast
    show "Contains (c # cs) sub"
    proof (cases a)
      case Nil
      with ab show ?thesis by (metis Contains.simps(2) HasPrefix_append append_Nil)
    next
      case (Cons x a')
      with ab have "cs = a' @ sub @ b" by simp
      then show ?thesis using \<open>Contains cs sub \<longleftrightarrow> _\<close> by auto
    qed
  qed
qed

lemma Split_not_Nil [simp]: "Split s sep \<noteq> []"
  by (cases s) (auto split: list.splits)

lemma Split_no_sep: "p \<in> set (Split s sep) \<Longrightarrow> sep \<notin> set p"
  by (induction s sep arbitrary: p rule: Split.induct) (auto split: if_splits list.splits)

text \<open>Package \<^verbatim>\<open>slices\<close>.\<close>

abbreviation (input) slices_Contains :: "'a list \<Rightarrow> 'a \<Rightarrow> bool" where
  "slices_Contains xs x \<equiv> x \<in> set xs"

section \<open>Case mapping\<close>

text \<open>
  The library's case functions take a fast path on ASCII strings and consult the Unicode tables
  otherwise. The tables are the argument \<^verbatim>\<open>U\<close> of every function that uses them.
\<close>

record unicode =
  uni_lower :: "string \<Rightarrow> string"
  uni_upper :: "string \<Rightarrow> string"
  uni_fold :: "string \<Rightarrow> string \<Rightarrow> bool"
  uni_trim :: "string \<Rightarrow> string"

definition ascii :: "char \<Rightarrow> bool" where
  "ascii c \<longleftrightarrow> (of_char c :: nat) < 128"

definition in_range :: "char \<Rightarrow> char \<Rightarrow> char \<Rightarrow> bool" where
  "in_range lo hi c \<longleftrightarrow> (of_char lo :: nat) \<le> of_char c \<and> (of_char c :: nat) \<le> of_char hi"

definition lower_char :: "char \<Rightarrow> char" where
  "lower_char c = (if in_range (CHR ''A'') (CHR ''Z'') c then char_of ((of_char c :: nat) + 32) else c)"

definition upper_char :: "char \<Rightarrow> char" where
  "upper_char c = (if in_range (CHR ''a'') (CHR ''z'') c then char_of ((of_char c :: nat) - 32) else c)"

definition ToLower :: "unicode \<Rightarrow> string \<Rightarrow> string" where
  "ToLower U s = (if list_all ascii s then map lower_char s else uni_lower U s)"

definition ToUpper :: "unicode \<Rightarrow> string \<Rightarrow> string" where
  "ToUpper U s = (if list_all ascii s then map upper_char s else uni_upper U s)"

definition EqualFold :: "unicode \<Rightarrow> string \<Rightarrow> string \<Rightarrow> bool" where
  "EqualFold U s t \<longleftrightarrow>
     (if list_all ascii s \<and> list_all ascii t then map lower_char s = map lower_char t
      else uni_fold U s t)"

definition ascii_space :: "char \<Rightarrow> bool" where
  "ascii_space c \<longleftrightarrow> (of_char c :: nat) \<in> {9, 10, 11, 12, 13, 32}"

definition TrimSpace :: "unicode \<Rightarrow> string \<Rightarrow> string" where
  "TrimSpace U s =
     (if list_all ascii s then rev (dropWhile ascii_space (rev (dropWhile ascii_space s)))
      else uni_trim U s)"

text \<open>The control characters keys, headers and secrets may not contain.\<close>

definition ctl :: string where
  "ctl = [CHR 0x0D, CHR 0x0A, CHR 0x00]"

text \<open>The tables of a program that meets ASCII text only, for concrete evaluations.\<close>

definition ascii_only :: unicode where
  "ascii_only = \<lparr>uni_lower = (\<lambda>s. s), uni_upper = (\<lambda>s. s), uni_fold = (=), uni_trim = (\<lambda>s. s)\<rparr>"

section \<open>Generic lemmas\<close>

lemma map_replace_filter_1:
  assumes "distinct (map k xs)" and "x \<in> set xs"
  shows "filter (\<lambda>y. k y = k x) xs = [x]"
  using assms
proof (induction xs)
  case Nil
  then show ?case by simp
next
  case (Cons a xs)
  show ?case
  proof (cases "a = x")
    case True
    with Cons.prems(1) have "k x \<notin> k ` set xs" by simp
    then have "filter (\<lambda>y. k y = k x) xs = []"
      by (metis (mono_tags, lifting) filter_False imageI)
    with True show ?thesis by simp
  next
    case False
    with Cons.prems have "x \<in> set xs" and "k a \<noteq> k x" by auto
    with Cons show ?thesis by simp
  qed
qed

lemma distinct_map_eqD:
  "distinct (map k xs) \<Longrightarrow> x \<in> set xs \<Longrightarrow> y \<in> set xs \<Longrightarrow> k x = k y \<Longrightarrow> x = y"
  by (metis distinct_map inj_onD)

lemma map_map_cong_key:
  "(\<And>x. k (f x) = k x) \<Longrightarrow> map k (map f xs) = map k xs"
  by simp

lemma list_all2_map_eq:
  "list_all2 R xs ys \<Longrightarrow> (\<And>x y. R x y \<Longrightarrow> k y = k x) \<Longrightarrow> map k ys = map k xs"
  by (induction rule: list_all2_induct) auto

lemma map_eq_ball: "map k ys = map k xs \<Longrightarrow> (\<forall>y\<in>set ys. P (k y)) = (\<forall>x\<in>set xs. P (k x))"
  by (metis (no_types, lifting) image_iff list.set_map)

lemma map_eq_bex: "map k ys = map k xs \<Longrightarrow> (\<exists>y\<in>set ys. P (k y)) = (\<exists>x\<in>set xs. P (k x))"
  by (metis (no_types, lifting) image_iff list.set_map)

lemma find_append: "find P (xs @ ys) = (case find P xs of None \<Rightarrow> find P ys | Some x \<Rightarrow> Some x)"
  by (induction xs) auto

end
