(* ===== verification/Encoding.thy ===== *)
theory Encoding
  imports Prelude "HOL-Library.List_Lexorder"
begin

text \<open>
  The encodings of the standard library the program relies on: \<^verbatim>\<open>encoding/hex\<close> and the byte
  order used to compare \<^verbatim>\<open>BINARY(16)\<close> keys.
\<close>

section \<open>encoding/hex\<close>

definition hextable :: string where
  "hextable = ''0123456789abcdef''"

definition hex_digit :: "nat \<Rightarrow> char" where
  "hex_digit n = hextable ! n"

definition from_hex_char :: "char \<Rightarrow> nat option" where
  "from_hex_char c =
     (if in_range (CHR ''0'') (CHR ''9'') c then Some (of_char c - of_char (CHR ''0''))
      else if in_range (CHR ''a'') (CHR ''f'') c then Some (of_char c - of_char (CHR ''a'') + 10)
      else if in_range (CHR ''A'') (CHR ''F'') c then Some (of_char c - of_char (CHR ''A'') + 10)
      else None)"

fun hex_EncodeToString :: "byte list \<Rightarrow> string" where
  "hex_EncodeToString [] = []"
| "hex_EncodeToString (b # bs) =
     hex_digit (unat b div 16) # hex_digit (unat b mod 16) # hex_EncodeToString bs"

text \<open>\<^const>\<open>None\<close> is either error of \<^verbatim>\<open>hex.DecodeString\<close>: an odd length or a byte that is no digit.\<close>

fun hex_DecodeString :: "string \<Rightarrow> byte list option" where
  "hex_DecodeString [] = Some []"
| "hex_DecodeString [c] = None"
| "hex_DecodeString (c # d # cs) =
     (case (from_hex_char c, from_hex_char d) of
        (Some h, Some l) \<Rightarrow> map_option (\<lambda>bs. word_of_nat (16 * h + l) # bs) (hex_DecodeString cs)
      | _ \<Rightarrow> None)"

lemma all_nibbles:
  assumes "n < (16 :: nat)"
  shows "n \<in> {0, 1, 2, 3, 4, 5, 6, 7, 8, 9, 10, 11, 12, 13, 14, 15}"
proof -
  have "{..<16 :: nat} = {0, 1, 2, 3, 4, 5, 6, 7, 8, 9, 10, 11, 12, 13, 14, 15}"
    by (simp add: numeral_eq_Suc lessThan_Suc insert_commute)
  with assms show ?thesis by blast
qed

lemma byte_nibbles: "unat (b :: byte) div 16 < 16"
  using unsigned_less [of b, where ?'a = nat] by (simp add: less_mult_imp_div_less)

lemma from_hex_digit: "n < 16 \<Longrightarrow> from_hex_char (hex_digit n) = Some n"
  by (drule all_nibbles)
     (auto simp: from_hex_char_def hex_digit_def hextable_def in_range_def)

lemma hex_digit_ne_dash: "n < 16 \<Longrightarrow> hex_digit n \<noteq> CHR ''-''"
  by (drule all_nibbles) (auto simp: hex_digit_def hextable_def)

lemma length_hex_Encode [simp]: "length (hex_EncodeToString bs) = 2 * length bs"
  by (induction bs) auto

lemma hex_Encode_no_dash: "CHR ''-'' \<notin> set (hex_EncodeToString bs)"
proof (induction bs)
  case Nil
  then show ?case by simp
next
  case (Cons b bs)
  then show ?case
    using hex_digit_ne_dash [OF byte_nibbles [of b]] hex_digit_ne_dash [of "unat b mod 16"] by auto
qed

theorem hex_Decode_Encode: "hex_DecodeString (hex_EncodeToString bs) = Some bs"
proof (induction bs)
  case Nil
  then show ?case by simp
next
  case (Cons b bs)
  then show ?case by (simp add: from_hex_digit byte_nibbles)
qed

lemma hex_char_cases:
  "from_hex_char c = Some h \<Longrightarrow> h < 16 \<and> hex_digit h = lower_char c"
proof -
  assume h: "from_hex_char c = Some h"
  obtain n :: nat where n: "c = char_of n" "n < 256" and n': "of_char c = n"
    by (metis char_of_char nat_of_char_less_256)
  consider "n \<in> {48..57}" | "n \<in> {97..102}" | "n \<in> {65..70}"
    using h n' by (auto simp: from_hex_char_def in_range_def split: if_splits)
  then show ?thesis
  proof cases
    case 1
    then have "n \<in> {48, 49, 50, 51, 52, 53, 54, 55, 56, 57}"
      unfolding atLeastAtMost_iff insert_iff empty_iff by presburger
    with h n n' show ?thesis
      by (auto simp: from_hex_char_def in_range_def hex_digit_def hextable_def lower_char_def char_of_def bit_0)
  next
    case 2
    then have "n \<in> {97, 98, 99, 100, 101, 102}" by auto
    with h n n' show ?thesis
      by (auto simp: from_hex_char_def in_range_def hex_digit_def hextable_def lower_char_def char_of_def bit_0)
  next
    case 3
    then have "n \<in> {65, 66, 67, 68, 69, 70}" by auto
    with h n n' show ?thesis
      by (auto simp: from_hex_char_def in_range_def hex_digit_def hextable_def lower_char_def char_of_def bit_0)
  qed
qed

lemma hex_Encode_Decode:
  "hex_DecodeString s = Some bs \<Longrightarrow> hex_EncodeToString bs = map lower_char s"
proof (induction s arbitrary: bs rule: hex_DecodeString.induct)
  case (3 c d cs)
  then obtain h l bs' where hl: "from_hex_char c = Some h" "from_hex_char d = Some l"
    and bs': "hex_DecodeString cs = Some bs'" "bs = word_of_nat (16 * h + l) # bs'"
    by (auto split: option.splits)
  from hl have b: "h < 16" "l < 16" "hex_digit h = lower_char c" "hex_digit l = lower_char d"
    by (simp_all add: hex_char_cases)
  then have "unat (word_of_nat (16 * h + l) :: byte) = 16 * h + l"
    by (intro of_nat_inverse) simp_all
  with "3.IH" hl bs' b show ?case by simp
qed auto

section \<open>Byte order\<close>

text \<open>The order of \<^verbatim>\<open>BINARY\<close> columns: bytewise, the first difference decides.\<close>

fun bytes_less :: "byte list \<Rightarrow> byte list \<Rightarrow> bool" where
  "bytes_less [] ys \<longleftrightarrow> ys \<noteq> []"
| "bytes_less (x # xs) [] \<longleftrightarrow> False"
| "bytes_less (x # xs) (y # ys) \<longleftrightarrow> x < y \<or> x = y \<and> bytes_less xs ys"

lemma bytes_less_irrefl [simp]: "\<not> bytes_less xs xs"
  by (induction xs) auto

lemma bytes_less_trans: "bytes_less xs ys \<Longrightarrow> bytes_less ys zs \<Longrightarrow> bytes_less xs zs"
proof (induction xs ys arbitrary: zs rule: bytes_less.induct)
  case (1 ys)
  then show ?case by (cases zs) (auto simp: neq_Nil_conv)
next
  case (3 x xs y ys)
  then show ?case by (cases zs) (auto intro: order.strict_trans)
qed auto

lemma bytes_less_total: "xs \<noteq> ys \<Longrightarrow> bytes_less xs ys \<or> bytes_less ys xs"
  by (induction xs ys rule: bytes_less.induct) (auto simp: neq_Nil_conv)

lemma bytes_less_append:
  "length xs = length ys \<Longrightarrow> bytes_less xs ys \<Longrightarrow> bytes_less (xs @ us) (ys @ vs)"
  by (induction xs ys rule: bytes_less.induct) auto

lemma bytes_less_iff: "bytes_less xs ys \<longleftrightarrow> xs < ys"
proof (induction xs ys rule: bytes_less.induct)
  case (1 ys)
  show ?case by (cases ys) auto
qed auto

end
