(* ===== verification/Domain.thy ===== *)
theory Domain
  imports Encoding
begin

text \<open>
  Package \<^verbatim>\<open>internal/domain\<close> (\<^verbatim>\<open>model.go\<close>): the identifiers and the records every other
  component exchanges. A Go map is an association list in the order one \<^verbatim>\<open>range\<close> over it
  visits; a nil pointer or slice is \<^const>\<open>None\<close> or the empty list.
\<close>

unbundle bit_operations_syntax

section \<open>Errors\<close>

text \<open>
  The sentinel errors of \<^verbatim>\<open>model.go\<close>, the driver's \<^verbatim>\<open>sql.ErrNoRows\<close>,
  the \<^verbatim>\<open>application.Error\<close> of the service layer, and every other error by its text.
\<close>

datatype error =
    ErrNotFound
  | ErrConflict
  | ErrState
  | ErrNoRows
  | AppError string int string
  | OtherError string

section \<open>Identifiers\<close>

type_synonym ID = "byte list"

definition zero_ID :: ID where
  "zero_ID = replicate 16 0"

text \<open>\<^verbatim>\<open>for i := 5; i >= 0; i-- { id[i] = byte(ms); ms >>= 8 }\<close>\<close>

fun put_ms :: "nat \<Rightarrow> 64 word \<Rightarrow> ID \<Rightarrow> ID" where
  "put_ms 0 ms u = u"
| "put_ms (Suc i) ms u = put_ms i (drop_bit 8 ms) (u[i := ucast ms])"

text \<open>
  The random bytes and the clock are arguments; \<^const>\<open>None\<close> for the bytes is a failed
  \<^verbatim>\<open>rand.Read\<close>, which panics (\<^const>\<open>None\<close> as the result).
\<close>

definition NewID :: "byte list option \<Rightarrow> 64 word \<Rightarrow> ID option" where
  "NewID rnd ms =
     (case rnd of
        None \<Rightarrow> None
      | Some bs \<Rightarrow>
          let u = put_ms 6 ms bs;
              u = u[6 := (u ! 6 AND 0x0f) OR 0x70];
              u = u[8 := (u ! 8 AND 0x3f) OR 0x80]
          in Some u)"

definition invalid_UUID :: error where
  "invalid_UUID = OtherError ''invalid UUID''"

definition ParseID :: "string \<Rightarrow> error + ID" where
  "ParseID s =
     (if length s \<noteq> 36 \<or> s ! 8 \<noteq> CHR ''-'' \<or> s ! 13 \<noteq> CHR ''-'' \<or> s ! 18 \<noteq> CHR ''-'' \<or> s ! 23 \<noteq> CHR ''-''
      then Inl invalid_UUID
      else case hex_DecodeString (ReplaceAll s ''-'' []) of
             None \<Rightarrow> Inl invalid_UUID
           | Some b \<Rightarrow> if length b \<noteq> 16 then Inl invalid_UUID else Inr b)"

definition ID_String :: "ID \<Rightarrow> string" where
  "ID_String u =
     (let s = hex_EncodeToString u
      in take 8 s @ ''-'' @ drop 8 (take 12 s) @ ''-'' @ drop 12 (take 16 s) @ ''-'' @
         drop 16 (take 20 s) @ ''-'' @ drop 20 s)"

section \<open>Records\<close>

record Request =
  rMethod :: string
  rPath :: string
  rQuery :: "(string \<times> string) list"
  rHeaders :: "(string \<times> string) list"
  rBodyEncoding :: string
  rBody :: string

record Submission =
  sKey :: string
  sTarget :: string
  sMode :: string
  sRequest :: Request

record Notification =
  nID :: ID
  nClient :: string
  nTarget :: string
  nBatch :: "ID option"
  nKey :: string
  nHash :: "byte list"
  nRequest :: Request
  nMode :: string
  nStatus :: string
  nAttempts :: int
  nCycleAttempts :: int
  nGeneration :: nat
  nNext :: gotime
  nDeadline :: gotime
  nLease :: ID
  nLeaseUntil :: gotime
  nTargetRevision :: nat
  nRetryRevision :: nat
  nHookRevision :: nat
  nConfigRevision :: nat
  nCreated :: gotime
  nUpdated :: gotime
  nLastStatus :: int
  nLastError :: string

text \<open>\<^verbatim>\<open>Generation uint64\<close> is a \<^typ>\<open>nat\<close>; Go's increment wraps around.\<close>

definition uint64_inc :: "nat \<Rightarrow> nat" where
  "uint64_inc g = (g + 1) mod 2 ^ 64"

record Event =
  eSchema :: int
  eID :: ID
  eNotification :: ID
  eGeneration :: nat
  eType :: string
  eCreated :: gotime

record Outbox =
  oID :: nat
  oEvent :: Event
  oRoute :: string
  oToken :: ID

record Decision =
  dAction :: string
  dReason :: string
  dHTTPStatus :: int
  dHeaders :: "(string \<times> string) list"
  dPreview :: string
  dBodyHash :: "byte list"
  dReport :: string
  dRetryAfter :: string
  dUncertain :: bool
  dStarted :: gotime
  dLatency :: duration

section \<open>The textual form of an identifier\<close>

lemma ReplaceAll_delete: "ReplaceAll s [c] [] = filter (\<lambda>x. x \<noteq> c) s"
  by (induction s "[c]" "[] :: string" rule: ReplaceAll.induct) auto

lemma filter_no: "c \<notin> set xs \<Longrightarrow> filter (\<lambda>x. x \<noteq> c) xs = xs"
  by (simp add: filter_id_conv) metis

lemma filter_full:
  "length (filter P xs) = length xs \<Longrightarrow> filter P xs = xs"
  by (metis length_filter_less less_irrefl filter_id_conv)

text \<open>A string of 36 bytes with a dash at the four places is five groups joined by dashes.\<close>

lemma uuid_groups:
  assumes "length s = 36" "s ! 8 = c" "s ! 13 = c" "s ! 18 = c" "s ! 23 = c"
  obtains g1 g2 g3 g4 g5 where
    "s = g1 @ c # g2 @ c # g3 @ c # g4 @ c # g5"
    "length g1 = 8" "length g2 = 4" "length g3 = 4" "length g4 = 4" "length g5 = 12"
proof -
  have step: "xs = take n xs @ xs ! n # drop (Suc n) xs" if "n < length xs" for n and xs :: "'a list"
    using that by (simp add: id_take_nth_drop)
  let ?r1 = "drop 9 s" and ?r2 = "drop 14 s" and ?r3 = "drop 19 s"
  have "s = take 8 s @ c # ?r1" using step [of 8 s] assms by simp
  moreover have "?r1 = take 4 ?r1 @ c # ?r2" using step [of 4 ?r1] assms by simp
  moreover have "?r2 = take 4 ?r2 @ c # ?r3" using step [of 4 ?r2] assms by simp
  moreover have "?r3 = take 4 ?r3 @ c # drop 24 s" using step [of 4 ?r3] assms by simp
  ultimately have "s = take 8 s @ c # take 4 ?r1 @ c # take 4 ?r2 @ c # take 4 ?r3 @ c # drop 24 s"
    by metis
  then show thesis by (rule that) (use assms in simp_all)
qed

lemma ID_String_groups:
  assumes "length u = 16"
  shows "ID_String u =
    (let s = hex_EncodeToString u in
      take 8 s @ CHR ''-'' # take 4 (drop 8 s) @ CHR ''-'' # take 4 (drop 12 s) @ CHR ''-'' #
      take 4 (drop 16 s) @ CHR ''-'' # drop 20 s)"
  by (simp add: ID_String_def Let_def drop_take)

text \<open>
  The text of every 16-byte identifier is accepted by \<^const>\<open>ParseID\<close>, which returns that very
  identifier.
\<close>

theorem ParseID_ID_String:
  assumes "length u = 16"
  shows "ParseID (ID_String u) = Inr u"
proof -
  let ?s = "hex_EncodeToString u"
  let ?g = "[take 8 ?s, take 4 (drop 8 ?s), take 4 (drop 12 ?s), take 4 (drop 16 ?s), drop 20 ?s]"
  have len: "length ?s = 32" using assms by simp
  have nodash: "CHR ''-'' \<notin> set g" if "g \<in> set ?g" for g
    using that hex_Encode_no_dash [of u] by (auto dest!: in_set_takeD in_set_dropD)
  have cat: "concat ?g = ?s"
  proof -
    have "take 4 (drop 16 ?s) @ drop 20 ?s = drop 16 ?s"
      using append_take_drop_id [of 4 "drop 16 ?s"] by simp
    moreover have "take 4 (drop 12 ?s) @ drop 16 ?s = drop 12 ?s"
      using append_take_drop_id [of 4 "drop 12 ?s"] by simp
    moreover have "take 4 (drop 8 ?s) @ drop 12 ?s = drop 8 ?s"
      using append_take_drop_id [of 4 "drop 8 ?s"] by simp
    ultimately show ?thesis by simp
  qed
  have str: "ID_String u = take 8 ?s @ CHR ''-'' # take 4 (drop 8 ?s) @ CHR ''-'' #
      take 4 (drop 12 ?s) @ CHR ''-'' # take 4 (drop 16 ?s) @ CHR ''-'' # drop 20 ?s"
    using ID_String_groups [OF assms] by (simp add: Let_def)
  have "ReplaceAll (ID_String u) ''-'' [] = concat ?g"
    unfolding ReplaceAll_delete str using nodash by (simp add: filter_no)
  then have "hex_DecodeString (ReplaceAll (ID_String u) ''-'' []) = Some u"
    by (simp only: cat hex_Decode_Encode)
  moreover have "length (ID_String u) = 36"
    and "ID_String u ! 8 = CHR ''-''" and "ID_String u ! 13 = CHR ''-''"
    and "ID_String u ! 18 = CHR ''-''" and "ID_String u ! 23 = CHR ''-''"
    unfolding str using len by (simp_all add: nth_append)
  ultimately show ?thesis using assms by (simp add: ParseID_def)
qed

theorem ParseID_ID_String_witness:
  "length (replicate 16 (171 :: byte)) = 16 \<and>
   ParseID (ID_String (replicate 16 171)) = Inr (replicate 16 171)"
  using ParseID_ID_String [of "replicate 16 171"] by simp

text \<open>
  Whatever \<^const>\<open>ParseID\<close> accepts is the text of the identifier it returns, up to the case of
  the digits, and the identifier has 16 bytes: no two different spellings other than by case are
  read as the same identifier.
\<close>

theorem ParseID_canonical:
  assumes "ParseID s = Inr u"
  shows "length u = 16 \<and> ID_String u = map lower_char s"
proof -
  let ?d = "CHR ''-''"
  from assms have len: "length s = 36" and at: "s ! 8 = ?d" "s ! 13 = ?d" "s ! 18 = ?d" "s ! 23 = ?d"
    and dec: "hex_DecodeString (ReplaceAll s ''-'' []) = Some u" and u: "length u = 16"
    by (auto simp: ParseID_def split: if_splits option.splits)
  obtain g1 g2 g3 g4 g5 where s: "s = g1 @ ?d # g2 @ ?d # g3 @ ?d # g4 @ ?d # g5"
    and l: "length g1 = 8" "length g2 = 4" "length g3 = 4" "length g4 = 4" "length g5 = 12"
    using uuid_groups [OF len at] .
  let ?f = "filter (\<lambda>x. x \<noteq> ?d)"
  have rep: "ReplaceAll s ''-'' [] = ?f g1 @ ?f g2 @ ?f g3 @ ?f g4 @ ?f g5"
    by (simp add: ReplaceAll_delete s)
  have enc: "hex_EncodeToString u = map lower_char (ReplaceAll s ''-'' [])"
    using dec by (rule hex_Encode_Decode)
  then have "length (ReplaceAll s ''-'' []) = 32"
    by (metis u length_hex_Encode length_map num_double numeral_times_numeral)
  then have "length (?f g1) + length (?f g2) + length (?f g3) + length (?f g4) + length (?f g5) = 32"
    by (simp add: rep)
  then have "length (?f g1) = length g1" "length (?f g2) = length g2" "length (?f g3) = length g3"
    "length (?f g4) = length g4" "length (?f g5) = length g5"
    using l length_filter_le [of "\<lambda>x. x \<noteq> ?d" g1] length_filter_le [of "\<lambda>x. x \<noteq> ?d" g2]
      length_filter_le [of "\<lambda>x. x \<noteq> ?d" g3] length_filter_le [of "\<lambda>x. x \<noteq> ?d" g4]
      length_filter_le [of "\<lambda>x. x \<noteq> ?d" g5] by linarith+
  then have enc': "hex_EncodeToString u = map lower_char (g1 @ g2 @ g3 @ g4 @ g5)"
    using enc rep by (simp add: filter_full)
  have "lower_char ?d = ?d" by (simp add: lower_char_def in_range_def)
  then have "ID_String u = map lower_char s"
    using l by (simp add: ID_String_groups [OF u] enc' s)
  with u show ?thesis by simp
qed

theorem ParseID_canonical_witness:
  "ParseID ''0192F3a4-0000-7000-8000-0000000000ff'' =
     Inr [1, 146, 243, 164, 0, 0, 112, 0, 128, 0, 0, 0, 0, 0, 0, 255] \<and>
   ID_String [1, 146, 243, 164, 0, 0, 112, 0, 128, 0, 0, 0, 0, 0, 0, 255] =
     map lower_char ''0192F3a4-0000-7000-8000-0000000000ff''"
proof -
  have p: "ParseID ''0192F3a4-0000-7000-8000-0000000000ff'' =
     Inr [1, 146, 243, 164, 0, 0, 112, 0, 128, 0, 0, 0, 0, 0, 0, 255]"
    by code_simp
  show ?thesis using p ParseID_canonical [OF p] by simp
qed

section \<open>Identifiers are ordered by their time\<close>

text \<open>The big-endian bytes of a number.\<close>

fun big_endian :: "nat \<Rightarrow> nat \<Rightarrow> byte list" where
  "big_endian 0 m = []"
| "big_endian (Suc k) m = big_endian k (m div 256) @ [word_of_nat m]"

lemma length_big_endian [simp]: "length (big_endian k m) = k"
  by (induction k arbitrary: m) auto

lemma put_ms_big_endian:
  "k \<le> length bs \<Longrightarrow> put_ms k ms bs = big_endian k (unat ms) @ drop k bs"
proof (induction k arbitrary: ms bs)
  case 0
  then show ?case by simp
next
  case (Suc i)
  have "unat (drop_bit 8 ms) = unat ms div 256"
    by (simp add: drop_bit_eq_div unat_div)
  moreover have "drop i (bs[i := ucast ms]) = ucast ms # drop (Suc i) bs"
    using Suc.prems by (simp add: Cons_nth_drop_Suc [symmetric])
  moreover have "put_ms i (drop_bit 8 ms) (bs[i := ucast ms]) =
      big_endian i (unat (drop_bit 8 ms)) @ drop i (bs[i := ucast ms])"
    by (rule Suc.IH) (use Suc.prems in simp)
  ultimately show ?case by simp
qed

lemma bytes_less_snoc: "bytes_less (xs @ [a]) (xs @ [b]) \<longleftrightarrow> a < b"
  by (induction xs) auto

lemma big_endian_less:
  "m < m' \<Longrightarrow> m' < 256 ^ k \<Longrightarrow> bytes_less (big_endian k m) (big_endian k m')"
proof (induction k arbitrary: m m')
  case 0
  then show ?case by simp
next
  case (Suc k)
  have bound: "m' div 256 < 256 ^ k"
    using Suc.prems(2) by (simp add: less_mult_imp_div_less mult.commute)
  show ?case
  proof (cases "m div 256 = m' div 256")
    case True
    have "m mod 256 < m' mod 256"
      using Suc.prems(1) True by (metis div_mult_mod_eq nat_add_left_cancel_less)
    then have "(word_of_nat m :: byte) < word_of_nat m'"
      by (simp add: word_less_nat_alt unat_of_nat)
    with True show ?thesis by (simp add: bytes_less_snoc)
  next
    case False
    with Suc.prems(1) have "m div 256 < m' div 256"
      by (metis div_le_mono less_imp_le le_neq_implies_less)
    then show ?thesis using Suc.IH [OF _ bound] by (simp add: bytes_less_append)
  qed
qed

lemma NewID_split:
  assumes "NewID (Some bs) ms = Some u" and "length bs = 16"
  shows "length u = 16 \<and> u = big_endian 6 (unat ms) @ drop 6 u
    \<and> u ! 6 = (bs ! 6 AND 0x0f) OR 0x70 \<and> u ! 8 = (bs ! 8 AND 0x3f) OR 0x80"
proof -
  let ?p = "put_ms 6 ms bs"
  have p: "?p = big_endian 6 (unat ms) @ drop 6 bs"
    using assms(2) by (simp add: put_ms_big_endian)
  have at: "?p ! 6 = bs ! 6" "?p ! 8 = bs ! 8"
    using assms(2) by (simp_all add: p nth_append)
  have len: "length ?p = 16" using assms(2) by (simp add: p)
  have u: "u = ?p[6 := (bs ! 6 AND 0x0f) OR 0x70, 8 := (bs ! 8 AND 0x3f) OR 0x80]"
    using assms(1) at by (simp add: NewID_def Let_def)
  have "take 6 u = take 6 ?p" by (simp add: u)
  also have "\<dots> = big_endian 6 (unat ms)" by (simp add: p)
  finally have "u = big_endian 6 (unat ms) @ drop 6 u" by (metis append_take_drop_id)
  with len show ?thesis by (simp add: u)
qed

text \<open>
  Identifiers made at different milliseconds compare, as \<^verbatim>\<open>BINARY(16)\<close> keys, in
  the order of their creation, whatever their random bytes; listing by descending identifier therefore
  lists the newest first.
\<close>

theorem NewID_time_order:
  assumes "length bs1 = 16" and "length bs2 = 16"
    and "NewID (Some bs1) ms1 = Some u1" and "NewID (Some bs2) ms2 = Some u2"
    and "ms1 < ms2" and "ms2 < 2 ^ 48"
  shows "bytes_less u1 u2"
proof -
  have "unat ms1 < unat ms2" using assms(5) by (simp add: word_less_nat_alt)
  moreover have "unat ms2 < 256 ^ 6"
    using assms(6) by (simp add: word_less_nat_alt)
  ultimately have "bytes_less (big_endian 6 (unat ms1)) (big_endian 6 (unat ms2))"
    by (rule big_endian_less)
  then have "bytes_less (big_endian 6 (unat ms1) @ drop 6 u1) (big_endian 6 (unat ms2) @ drop 6 u2)"
    by (rule bytes_less_append [rotated]) simp
  then show ?thesis
    using NewID_split [OF assms(3,1)] NewID_split [OF assms(4,2)] by metis
qed

theorem NewID_time_order_witness:
  "bytes_less [1, 143, 0, 0, 0, 0, 127, 255, 191, 255, 255, 255, 255, 255, 255, 255]
              [1, 143, 0, 0, 0, 1, 112, 0, 128, 0, 0, 0, 0, 0, 0, 0]"
proof -
  have a: "NewID (Some (replicate 16 255)) 0x018f00000000 =
      Some [1, 143, 0, 0, 0, 0, 127, 255, 191, 255, 255, 255, 255, 255, 255, 255]"
    by code_simp
  have b: "NewID (Some (replicate 16 0)) 0x018f00000001 =
      Some [1, 143, 0, 0, 0, 1, 112, 0, 128, 0, 0, 0, 0, 0, 0, 0]"
    by code_simp
  show ?thesis by (rule NewID_time_order [OF _ _ a b]) simp_all
qed

end
