(* ===== verification/Json.thy ===== *)
theory Json
  imports Domain
begin

text \<open>
  JSON values as \<^verbatim>\<open>encoding/json\<close> gives them to the program (Go's \<^verbatim>\<open>any\<close>), and the
  record of the library's encoders and decoders for the program's own structs. A number keeps its
  text. The fields of an object are in the order one \<^verbatim>\<open>range\<close> visits them.
\<close>

datatype json =
    JNull
  | JBool bool
  | JNum string
  | JStr string
  | JArr "json list"
  | JObj "(string \<times> json) list"

text \<open>
  \<^verbatim>\<open>json.Marshal\<close> and \<^verbatim>\<open>json.Unmarshal\<close> at the types the program uses them at; a
  \<^const>\<open>None\<close> is the returned error.
\<close>

record codec =
  marshal_Request :: "Request \<Rightarrow> string option"
  unmarshal_Request :: "string \<Rightarrow> Request option"
  marshal_Event :: "Event \<Rightarrow> string option"
  unmarshal_Event :: "string \<Rightarrow> Event option"
  marshal_Submission :: "Submission \<Rightarrow> string option"
  marshal_headers :: "(string \<times> string) list \<Rightarrow> string option"

end
