(* ===== verification/Config.thy ===== *)
theory Config
  imports Json
begin

text \<open>
  Package \<^verbatim>\<open>internal/config\<close>, \<^verbatim>\<open>model.go\<close>: the management document, the
  snapshot built from it and the table of retry delays. Reading a missing key of a Go map gives
  the zero value of the element type; the zero values are written out below.
\<close>

section \<open>Entities\<close>

record Endpoint =
  epBaseURL :: string
  epHosts :: "string list"
  epMethods :: "string list"
  epPrefixes :: "string list"
  epCIDRs :: "string list"
  epAllowHTTP :: bool
  epConnectTimeout :: duration
  epRequestTimeout :: duration
  epMaxResponse :: int

record Auth =
  auType :: string
  auHeader :: string
  auSecretRef :: string

record Injection =
  ijLocation :: string
  ijKey :: string
  ijPointer :: string

record Idempotency =
  idMode :: string
  idUncertainRetry :: "bool option"
  idInject :: "Injection list"

record Target =
  tgRevision :: nat
  tgEnabled :: bool
  tgAdapter :: string
  tgEndpoint :: Endpoint
  tgAuth :: Auth
  tgIdempotency :: Idempotency
  tgRetryEnabled :: bool
  tgRetryPolicy :: string
  tgHook :: string
  tgQuota :: string
  tgDefaultMode :: string
  tgAllowProxy :: bool
  tgPreviewBytes :: int
  tgSensitiveJSON :: "string list"

record Retry =
  rtRevision :: nat
  rtDelays :: "duration list"
  rtMaxDuration :: duration
  rtRespectRetryAfter :: bool

record Quota =
  qIngressGlobal :: int
  qIngressClient :: int
  qEgressTarget :: int
  qEgressClientTarget :: int
  qGlobalConcurrency :: int
  qTargetConcurrency :: int
  qFailMode :: string

record Client =
  clEnabled :: bool
  clTargets :: "string list"
  clManualRetry :: bool
  clQuota :: string

record Hook =
  hkRevision :: nat
  hkExpression :: string

record Issuer =
  isAudience :: string
  isAlgorithm :: string
  isKeys :: "(string \<times> string) list"

text \<open>A missing map of the document is nil, here \<^const>\<open>None\<close>.\<close>

record Document =
  dcTargets :: "(string \<times> Target) list option"
  dcClients :: "(string \<times> Client) list option"
  dcRetries :: "(string \<times> Retry) list option"
  dcQuotas :: "(string \<times> Quota) list option"
  dcHooks :: "(string \<times> Hook) list option"
  dcIssuers :: "(string \<times> Issuer) list option"

text \<open>
  A compiled CEL program is the function it computes: from the variables of the environment to an
  evaluation error or a value, which converts to a native map or does not.
\<close>

record hook_input =
  hiStatus :: int
  hiHeaders :: "(string \<times> string) list"
  hiBody :: string
  hiJson :: json
  hiNotification :: "(string \<times> string) list"
  hiAttempt :: int

datatype cel_value = CelMap "(string \<times> json) list" | CelOther

type_synonym program = "hook_input \<Rightarrow> cel_value option"

text \<open>A parsed public key: its modulus length for RSA.\<close>

datatype pubkey = RSAKey nat string | ECKey string

record Snapshot =
  snRevision :: nat
  snLoadedAt :: gotime
  snTargets :: "(string \<times> Target) list"
  snClients :: "(string \<times> Client) list"
  snRetries :: "(string \<times> Retry) list"
  snQuotas :: "(string \<times> Quota) list"
  snHooks :: "(string \<times> Hook) list"
  snIssuers :: "(string \<times> Issuer) list"
  snPrograms :: "(string \<times> program) list"
  snKeys :: "(string \<times> (string \<times> pubkey) list) list"

section \<open>Zero values\<close>

definition zero_Retry :: Retry where
  "zero_Retry = \<lparr>rtRevision = 0, rtDelays = [], rtMaxDuration = 0, rtRespectRetryAfter = False\<rparr>"

definition zero_Quota :: Quota where
  "zero_Quota = \<lparr>qIngressGlobal = 0, qIngressClient = 0, qEgressTarget = 0, qEgressClientTarget = 0,
     qGlobalConcurrency = 0, qTargetConcurrency = 0, qFailMode = []\<rparr>"

definition zero_Client :: Client where
  "zero_Client = \<lparr>clEnabled = False, clTargets = [], clManualRetry = False, clQuota = []\<rparr>"

definition zero_Hook :: Hook where
  "zero_Hook = \<lparr>hkRevision = 0, hkExpression = []\<rparr>"

definition zero_Target :: Target where
  "zero_Target = \<lparr>tgRevision = 0, tgEnabled = False, tgAdapter = [],
     tgEndpoint = \<lparr>epBaseURL = [], epHosts = [], epMethods = [], epPrefixes = [], epCIDRs = [],
        epAllowHTTP = False, epConnectTimeout = 0, epRequestTimeout = 0, epMaxResponse = 0\<rparr>,
     tgAuth = \<lparr>auType = [], auHeader = [], auSecretRef = []\<rparr>,
     tgIdempotency = \<lparr>idMode = [], idUncertainRetry = None, idInject = []\<rparr>,
     tgRetryEnabled = False, tgRetryPolicy = [], tgHook = [], tgQuota = [], tgDefaultMode = [],
     tgAllowProxy = False, tgPreviewBytes = 0, tgSensitiveJSON = []\<rparr>"

definition go_get :: "'v \<Rightarrow> ('k \<times> 'v) list \<Rightarrow> 'k \<Rightarrow> 'v" where
  "go_get z m k = (case map_of m k of None \<Rightarrow> z | Some v \<Rightarrow> v)"

section \<open>Retry delays\<close>

definition Buckets :: "duration list" where
  "Buckets = [5 * second, 30 * second, 2 * minute, 10 * minute, 30 * minute, 2 * hour, 6 * hour]"

definition bucket_names :: "string list" where
  "bucket_names = [''5s'', ''30s'', ''2m'', ''10m'', ''30m'', ''2h'', ''6h'']"

definition BucketRoute :: "duration \<Rightarrow> string" where
  "BucketRoute d =
     (case map_of (zip Buckets bucket_names) d of None \<Rightarrow> [] | Some name \<Rightarrow> ''retry.'' @ name)"

lemma Buckets_ns:
  "Buckets = [5000000000, 30000000000, 120000000000, 600000000000, 1800000000000, 7200000000000,
     21600000000000]"
  by (simp add: Buckets_def go_simps)

lemma Buckets_pos: "b \<in> set Buckets \<Longrightarrow> 0 < b"
  by (auto simp: Buckets_ns)

lemma Buckets_sorted: "sorted Buckets" and Buckets_distinct: "distinct Buckets"
  by (simp_all add: Buckets_ns)

lemma BucketRoute_None: "d \<notin> set Buckets \<Longrightarrow> BucketRoute d = []"
  by (auto simp: BucketRoute_def bucket_names_def Buckets_ns)

lemma BucketRoute_retry: "d \<in> set Buckets \<Longrightarrow> HasPrefix (BucketRoute d) ''retry.''"
  by (auto simp: BucketRoute_def bucket_names_def Buckets_ns)

lemma BucketRoute_inj:
  "b \<in> set Buckets \<Longrightarrow> c \<in> set Buckets \<Longrightarrow> BucketRoute b = BucketRoute c \<Longrightarrow> b = c"
  by (auto simp: BucketRoute_def bucket_names_def Buckets_ns)

end
