(* ===== verification/Validate.thy ===== *)
theory Validate
  imports Config Domain
begin

text \<open>
  Package \<^verbatim>\<open>internal/config\<close>, \<^verbatim>\<open>validate.go\<close>: the checks on paths, headers and
  endpoints, and \<^verbatim>\<open>Build\<close>, which turns a document into a snapshot or refuses it.
  URL and address parsing, the JSON decoder, the CEL compiler and the key parsers are the fields of
  \<^verbatim>\<open>toolkit\<close>. A Go map is an association list in the order the loop happens to visit it.
\<close>

section \<open>Paths and headers\<close>

definition fails :: "string \<Rightarrow> error" where
  "fails message = OtherError message"

text \<open>The text of an error, as \<^verbatim>\<open>%w\<close> embeds it in another.\<close>

fun error_text :: "error \<Rightarrow> string" where
  "error_text ErrNotFound = ''not found''"
| "error_text ErrConflict = ''idempotency conflict''"
| "error_text ErrState = ''invalid state or stale lease''"
| "error_text ErrNoRows = ''sql: no rows in result set''"
| "error_text (AppError code _ _) = code"
| "error_text (OtherError message) = message"

text \<open>A chain of \<^verbatim>\<open>if cond { return errors.New(...) }\<close>: the first condition that holds decides.\<close>

fun guards :: "(bool \<times> string) list \<Rightarrow> error option" where
  "guards [] = None"
| "guards ((c, message) # gs) = (if c then Some (fails message) else guards gs)"

definition alnum :: "char \<Rightarrow> bool" where
  "alnum c \<longleftrightarrow> in_range (CHR ''a'') (CHR ''z'') c \<or> in_range (CHR ''A'') (CHR ''Z'') c
     \<or> in_range (CHR ''0'') (CHR ''9'') c"

definition namePattern :: "string \<Rightarrow> bool" where
  "namePattern s \<longleftrightarrow> (case s of
       [] \<Rightarrow> False
     | c # cs \<Rightarrow> alnum c \<and> length cs \<le> 63 \<and> list_all (\<lambda>c. alnum c \<or> c \<in> set ''_.-'') cs)"

definition path_forbidden :: string where
  "path_forbidden = [CHR 0x5C, CHR ''?'', CHR ''#'', CHR ''%'', CHR 0x0D, CHR 0x0A, CHR 0x00]"

definition ValidatePath :: "string \<Rightarrow> error option" where
  "ValidatePath p = guards
     [(\<not> HasPrefix p ''/'' \<or> HasPrefix p ''//'' \<or> length p > 2048 \<or> ContainsAny p path_forbidden,
         ''invalid relative path (use decoded path)''),
      (list_ex (\<lambda>part. part = ''.'' \<or> part = ''..'') (Split p (CHR ''/'')), ''path traversal forbidden'')]"

definition PathAllowed :: "string list \<Rightarrow> string \<Rightarrow> bool" where
  "PathAllowed prefixes p \<longleftrightarrow> list_ex (\<lambda>prefix. HasPrefix p prefix) prefixes"

text \<open>The punctuation of a header name; every rune of the string has to be one of these or alphanumeric.\<close>

definition header_marks :: string where
  "header_marks = ''!#$%&'' @ [CHR 0x27] @ ''*+-.^_'' @ [CHR 0x60] @ ''|~''"

definition ValidHeader :: "string \<Rightarrow> bool" where
  "ValidHeader s \<longleftrightarrow> s \<noteq> [] \<and> length s \<le> 128 \<and> list_all (\<lambda>c. alnum c \<or> c \<in> set header_marks) s"

definition ForbiddenTransportHeader :: "unicode \<Rightarrow> string \<Rightarrow> bool" where
  "ForbiddenTransportHeader U s \<longleftrightarrow> ToLower U s \<in> set [''host'', ''connection'', ''content-length'',
     ''transfer-encoding'', ''trailer'', ''te'', ''upgrade'', ''proxy-authorization'', ''proxy-connection'']"

definition SensitiveHeader :: "unicode \<Rightarrow> string \<Rightarrow> bool" where
  "SensitiveHeader U s0 \<longleftrightarrow>
     (let s = ReplaceAll (ToLower U s0) ''_'' ''-'' in
      Contains s ''authorization'' \<or> Contains s ''cookie'' \<or> Contains s ''api-key'' \<or> Contains s ''apikey''
      \<or> Contains s ''token'' \<or> Contains s ''secret'' \<or> Contains s ''password'' \<or> Contains s ''passwd'')"

section \<open>Endpoints\<close>

record url =
  uScheme :: string
  uHost :: string
  uHostname :: string
  uUser :: bool
  uRawQuery :: string
  uFragment :: string
  uPath :: string

text \<open>A network prefix: family, address and length. Two addresses of a prefix share their first bits.\<close>

record prefix =
  pfIs4 :: bool
  pfAddr :: nat
  pfBits :: nat

record toolkit =
  tkUnicode :: unicode
  tkParseURL :: "string \<Rightarrow> url option"
  tkParsePrefix :: "string \<Rightarrow> prefix option"
  tkDecodeDocument :: "string \<Rightarrow> (Document \<times> string) option"
  tkCompile :: "string \<Rightarrow> (nat \<times> string \<times> program option) option"
  tkParseRSA :: "string \<Rightarrow> pubkey option"
  tkParseEC :: "string \<Rightarrow> pubkey option"

definition endpoint_origin :: "toolkit \<Rightarrow> Endpoint \<Rightarrow> url \<Rightarrow> (bool \<times> string) list" where
  "endpoint_origin K e u =
     [(uHost u = [] \<or> uUser u \<or> uRawQuery u \<noteq> [] \<or> uFragment u \<noteq> [] \<or> (uPath u \<noteq> [] \<and> uPath u \<noteq> ''/''),
         ''base_url must be an origin''),
      (uScheme u \<noteq> ''https'' \<and> \<not> (epAllowHTTP e \<and> uScheme u = ''http''), ''HTTPS required''),
      (ToLower (tkUnicode K) (uHostname u) \<notin> set (epHosts e), ''host not allowed''),
      (epMethods e = [] \<or> epPrefixes e = [], ''method and path allowlists required''),
      (list_ex (\<lambda>m. m \<notin> set [''GET'', ''HEAD'', ''POST'', ''PUT'', ''PATCH'', ''DELETE'', ''OPTIONS'']) (epMethods e),
         ''invalid method'')]"

definition endpoint_limits :: "toolkit \<Rightarrow> Endpoint \<Rightarrow> (bool \<times> string) list" where
  "endpoint_limits K e =
     [(list_ex (\<lambda>c. tkParsePrefix K c = None) (epCIDRs e), ''netip.ParsePrefix''),
      (epConnectTimeout e \<le> 0 \<or> epConnectTimeout e > 10 * second \<or> epRequestTimeout e \<le> 0
         \<or> epRequestTimeout e > 30 * second \<or> epConnectTimeout e > epRequestTimeout e,
         ''timeouts must fit 60s lease''),
      (epMaxResponse e \<le> 0 \<or> epMaxResponse e > 16777216, ''invalid response limit'')]"

definition ValidateEndpoint :: "toolkit \<Rightarrow> Endpoint \<Rightarrow> error option" where
  "ValidateEndpoint K e =
     (case tkParseURL K (epBaseURL e) of
        None \<Rightarrow> Some (fails ''base_url must be an origin'')
      | Some u \<Rightarrow>
          (case guards (endpoint_origin K e u) of
             Some x \<Rightarrow> Some x
           | None \<Rightarrow>
               (case find (\<lambda>p. ValidatePath p \<noteq> None) (epPrefixes e) of
                  Some p \<Rightarrow> ValidatePath p
                | None \<Rightarrow> guards (endpoint_limits K e))))"

section \<open>Decoding\<close>

definition json_space :: "char \<Rightarrow> bool" where
  "json_space c \<longleftrightarrow> (of_char c :: nat) \<in> {9, 10, 13, 32}"

text \<open>\<open>decode\<close> reads one value, refusing unknown fields, and leaves the rest; only blanks may follow.\<close>

definition Decode :: "(string \<Rightarrow> ('a \<times> string) option) \<Rightarrow> string \<Rightarrow> error + 'a" where
  "Decode decode b =
     (case decode b of
        None \<Rightarrow> Inl (fails ''json'')
      | Some (v, rest) \<Rightarrow>
          if list_all json_space rest then Inr v else Inl (fails ''expected one JSON document''))"

section \<open>Build\<close>

text \<open>A loop over a map that returns the first error of its body.\<close>

definition each :: "('a \<Rightarrow> error option) \<Rightarrow> 'a list \<Rightarrow> error option" where
  "each body xs = (case find (\<lambda>x. body x \<noteq> None) xs of None \<Rightarrow> None | Some x \<Rightarrow> body x)"

text \<open>A loop over a map that fills another map under the same keys.\<close>

fun fill :: "(string \<times> 'a \<Rightarrow> error + 'b) \<Rightarrow> (string \<times> 'a) list \<Rightarrow> error + (string \<times> 'b) list" where
  "fill body [] = Inr []"
| "fill body ((k, v) # m) =
     (case body (k, v) of
        Inl x \<Rightarrow> Inl x
      | Inr w \<Rightarrow> (case fill body m of Inl x \<Rightarrow> Inl x | Inr m' \<Rightarrow> Inr ((k, w) # m')))"

definition build_hook :: "toolkit \<Rightarrow> string \<times> Hook \<Rightarrow> error + program" where
  "build_hook K = (\<lambda>(u, h).
     if \<not> namePattern u \<or> hkRevision h = 0 then Inl (fails (''invalid hook '' @ u))
     else case tkCompile K (hkExpression h) of
            None \<Rightarrow> Inl (fails (''hook '' @ u @ '': cel''))
          | Some (positions, typ, program) \<Rightarrow>
              if positions > 512 then Inl (fails (''hook '' @ u @ '' AST too large''))
              else if typ \<noteq> ''map'' \<and> typ \<noteq> ''dyn'' then Inl (fails (''hook '' @ u @ '' must return a map''))
              else (case program of None \<Rightarrow> Inl (fails ''cel'') | Some p \<Rightarrow> Inr p))"

definition check_retry :: "string \<times> Retry \<Rightarrow> error option" where
  "check_retry = (\<lambda>(u, r). guards
     [(\<not> namePattern u \<or> rtRevision r = 0 \<or> rtMaxDuration r \<le> 0 \<or> rtMaxDuration r > 720 * hour
         \<or> length (rtDelays r) > 100, ''invalid retry policy '' @ u),
      (list_ex (\<lambda>d. d \<notin> set Buckets) (rtDelays r), ''retry '' @ u @ '': unsupported delay'')])"

fun check_quotas :: "Quota option \<Rightarrow> (string \<times> Quota) list \<Rightarrow> error option" where
  "check_quotas global [] = None"
| "check_quotas global ((u, q) # qs) =
     (if \<not> namePattern u \<or> (qFailMode q \<noteq> ''open'' \<and> qFailMode q \<noteq> ''closed'') \<or> qIngressGlobal q < 0
        \<or> qIngressClient q < 0 \<or> qEgressTarget q < 0 \<or> qEgressClientTarget q < 0
        \<or> qGlobalConcurrency q < 0 \<or> qTargetConcurrency q < 0
      then Some (fails (''invalid quota '' @ u))
      else case global of
             None \<Rightarrow> check_quotas (Some q) qs
           | Some g \<Rightarrow>
               if qIngressGlobal g \<noteq> qIngressGlobal q \<or> qGlobalConcurrency g \<noteq> qGlobalConcurrency q
               then Some (fails ''global quota limits must agree across policies'')
               else check_quotas global qs)"

fun pointer_ok :: "string \<Rightarrow> bool" where
  "pointer_ok [] \<longleftrightarrow> True"
| "pointer_ok (c # cs) \<longleftrightarrow>
     (if c = CHR ''~'' then (case cs of [] \<Rightarrow> False | d # ds \<Rightarrow> (d = CHR ''0'' \<or> d = CHR ''1'') \<and> pointer_ok ds)
      else pointer_ok cs)"

definition check_injection :: "unicode \<Rightarrow> Target \<Rightarrow> Injection \<Rightarrow> error option" where
  "check_injection U t ij =
     (if ijLocation ij = ''header'' then guards
        [(\<not> ValidHeader (ijKey ij) \<or> ForbiddenTransportHeader U (ijKey ij)
            \<or> EqualFold U (ijKey ij) (auHeader (tgAuth t)) \<or> SensitiveHeader U (ijKey ij), ''invalid injection header'')]
      else if ijLocation ij = ''query'' then guards
        [(ijKey ij = [] \<or> length (ijKey ij) > 128, ''invalid injection query'')]
      else if ijLocation ij = ''body_json'' then guards
        [(\<not> HasPrefix (ijPointer ij) ''/'' \<or> length (ijPointer ij) > 512, ''invalid JSON pointer''),
         (\<not> pointer_ok (ijPointer ij), ''invalid JSON pointer escape'')]
      else Some (fails ''unsupported idempotency injection''))"

definition check_target :: "toolkit \<Rightarrow> Document \<Rightarrow> string \<times> Target \<Rightarrow> error option" where
  "check_target K doc = (\<lambda>(u, t).
     if \<not> namePattern u \<or> tgRevision t = 0 \<or> tgAdapter t \<noteq> ''generic_http'' then
       Some (fails (''invalid target or unregistered adapter '' @ u))
     else case ValidateEndpoint K (tgEndpoint t) of
       Some x \<Rightarrow> Some (fails (''target '' @ u @ '': '' @ error_text x))
     | None \<Rightarrow>
         (case guards
            [(map_of (the (dcRetries doc)) (tgRetryPolicy t) = None, ''target '' @ u @ '' retry missing''),
             (map_of (the (dcQuotas doc)) (tgQuota t) = None, ''target '' @ u @ '' quota missing''),
             (tgHook t \<noteq> [] \<and> map_of (the (dcHooks doc)) (tgHook t) = None, ''target '' @ u @ '' hook missing''),
             ((tgDefaultMode t \<noteq> ''async'' \<and> tgDefaultMode t \<noteq> ''proxy'') \<or> (tgDefaultMode t = ''proxy'' \<and> \<not> tgAllowProxy t)
                \<or> tgPreviewBytes t < 0 \<or> tgPreviewBytes t > 8192, ''target '' @ u @ '' invalid delivery/preview''),
             (auType (tgAuth t) \<noteq> ''none'' \<and> auType (tgAuth t) \<noteq> ''static_header'', ''unsupported auth type''),
             (auType (tgAuth t) = ''static_header'' \<and> (\<not> ValidHeader (auHeader (tgAuth t))
                \<or> \<not> namePattern (auSecretRef (tgAuth t)) \<or> ForbiddenTransportHeader (tkUnicode K) (auHeader (tgAuth t))),
                ''invalid secret header''),
             (idMode (tgIdempotency t) \<notin> set [''supported'', ''unsupported'', ''unknown''], ''invalid idempotency mode''),
             (idMode (tgIdempotency t) = ''supported'' \<and> idInject (tgIdempotency t) = [],
                ''supported idempotency requires injection''),
             (idMode (tgIdempotency t) \<noteq> ''supported'' \<and> idInject (tgIdempotency t) \<noteq> [],
                ''idempotency injection requires supported mode''),
             (tgRetryEnabled t \<and> idMode (tgIdempotency t) \<noteq> ''supported'' \<and> idUncertainRetry (tgIdempotency t) = None,
                ''non-idempotent retry requires explicit allow_uncertain_retry'')] of
            Some x \<Rightarrow> Some x
          | None \<Rightarrow> each (check_injection (tkUnicode K) t) (idInject (tgIdempotency t))))"

definition check_client :: "Document \<Rightarrow> string \<times> Client \<Rightarrow> error option" where
  "check_client doc = (\<lambda>(u, c). guards
     [(\<not> namePattern u, ''invalid client id''),
      (map_of (the (dcQuotas doc)) (clQuota c) = None, ''client quota missing''),
      (list_ex (\<lambda>t. map_of (the (dcTargets doc)) t = None) (clTargets c), ''client target missing'')])"

definition build_key :: "toolkit \<Rightarrow> Issuer \<Rightarrow> string \<Rightarrow> string \<times> string \<Rightarrow> error + pubkey" where
  "build_key K c iss = (\<lambda>(kid, pem).
     if isAlgorithm c \<noteq> ''RS256'' \<and> isAlgorithm c \<noteq> ''ES256'' then Inl (fails ''only RS256/ES256 accepted'')
     else case (if isAlgorithm c = ''RS256'' then tkParseRSA K pem else tkParseEC K pem) of
            None \<Rightarrow> Inl (fails (''issuer '' @ iss @ '' key '' @ kid))
          | Some key \<Rightarrow>
              (case key of
                 RSAKey bits _ \<Rightarrow> if bits < 2048 then Inl (fails ''RSA key must be at least 2048 bits'') else Inr key
               | ECKey _ \<Rightarrow> Inr key))"

definition build_issuer :: "toolkit \<Rightarrow> string \<times> Issuer \<Rightarrow> error + (string \<times> pubkey) list" where
  "build_issuer K = (\<lambda>(iss, c).
     if iss = [] \<or> isAudience c = [] \<or> isKeys c = [] then Inl (fails ''invalid issuer'')
     else fill (build_key K c iss) (isKeys c))"

text \<open>
  \<open>env_ok\<close>: whether \<^verbatim>\<open>cel.NewEnv\<close> succeeded. \<open>now\<close> is the clock.
\<close>

definition Build :: "toolkit \<Rightarrow> bool \<Rightarrow> gotime \<Rightarrow> nat \<Rightarrow> string \<Rightarrow> error + Snapshot" where
  "Build K env_ok now revision b =
     (case Decode (tkDecodeDocument K) b of
        Inl x \<Rightarrow> Inl x
      | Inr doc \<Rightarrow>
          if dcTargets doc = None \<or> dcClients doc = None \<or> dcRetries doc = None \<or> dcQuotas doc = None
             \<or> dcHooks doc = None \<or> dcIssuers doc = None then Inl (fails ''all management entity maps are required'')
          else if length (the (dcTargets doc)) > 10000 \<or> length (the (dcClients doc)) > 10000
             \<or> length (the (dcHooks doc)) > 1000 \<or> length b > 16777216 then Inl (fails ''configuration size limit exceeded'')
          else if \<not> env_ok then Inl (fails ''cel'')
          else case fill (build_hook K) (the (dcHooks doc)) of
            Inl x \<Rightarrow> Inl x
          | Inr programs \<Rightarrow>
              (case each check_retry (the (dcRetries doc)) of Some x \<Rightarrow> Inl x | None \<Rightarrow>
              (case check_quotas None (the (dcQuotas doc)) of Some x \<Rightarrow> Inl x | None \<Rightarrow>
              (case each (check_target K doc) (the (dcTargets doc)) of Some x \<Rightarrow> Inl x | None \<Rightarrow>
              (case each (check_client doc) (the (dcClients doc)) of Some x \<Rightarrow> Inl x | None \<Rightarrow>
              (case fill (build_issuer K) (the (dcIssuers doc)) of
                 Inl x \<Rightarrow> Inl x
               | Inr keys \<Rightarrow>
                   Inr \<lparr>snRevision = revision, snLoadedAt = now, snTargets = the (dcTargets doc),
                        snClients = the (dcClients doc), snRetries = the (dcRetries doc),
                        snQuotas = the (dcQuotas doc), snHooks = the (dcHooks doc),
                        snIssuers = the (dcIssuers doc), snPrograms = programs, snKeys = keys\<rparr>))))))"

section \<open>What an accepted path is\<close>

lemma guards_None: "guards gs = None \<longleftrightarrow> list_all (\<lambda>(c, _). \<not> c) gs"
  by (induction gs rule: guards.induct) auto

declare guards.simps [simp del]

lemma each_None: "each body xs = None \<longleftrightarrow> (\<forall>x\<in>set xs. body x = None)"
  by (auto simp: each_def find_None_iff find_Some_iff split: option.splits)

lemma fill_Inr:
  "fill body m = Inr m' \<Longrightarrow> map_of m k = Some v \<Longrightarrow> \<exists>w. map_of m' k = Some w \<and> body (k, v) = Inr w"
  by (induction body m arbitrary: m' rule: fill.induct) (auto split: sum.splits if_splits)

lemma fill_keys: "fill body m = Inr m' \<Longrightarrow> map fst m' = map fst m"
  by (induction body m arbitrary: m' rule: fill.induct) (auto split: sum.splits)

text \<open>
  The meaning of a path to a server that resolves dot segments: each \<^verbatim>\<open>..\<close> drops the segment
  before it, each \<^verbatim>\<open>.\<close> drops itself.
\<close>

fun resolve :: "string list \<Rightarrow> string list \<Rightarrow> string list" where
  "resolve stack [] = rev stack"
| "resolve stack (part # parts) =
     (if part = ''.'' then resolve stack parts
      else if part = ''..'' then resolve (case stack of [] \<Rightarrow> [] | _ # st \<Rightarrow> st) parts
      else resolve (part # stack) parts)"

lemma resolve_plain:
  "list_all (\<lambda>part. part \<noteq> ''.'' \<and> part \<noteq> ''..'') parts \<Longrightarrow> resolve stack parts = rev stack @ parts"
  by (induction stack parts rule: resolve.induct) auto

text \<open>
  An accepted path means what it says. It begins with one slash, is at most 2048 bytes long, has
  no character that could start a query, a fragment or an escape, and resolving dot segments leaves
  it unchanged, so a path under an allowed prefix stays under it.
\<close>

theorem ValidatePath_no_traversal:
  assumes "ValidatePath p = None"
  shows "resolve [] (Split p (CHR ''/'')) = Split p (CHR ''/'') \<and> HasPrefix p ''/'' \<and> \<not> HasPrefix p ''//''
    \<and> length p \<le> 2048 \<and> CHR ''%'' \<notin> set p \<and> CHR ''?'' \<notin> set p \<and> CHR ''#'' \<notin> set p \<and> CHR 0x5C \<notin> set p"
proof -
  have "list_all (\<lambda>part. part \<noteq> ''.'' \<and> part \<noteq> ''..'') (Split p (CHR ''/''))"
    using assms by (simp add: ValidatePath_def guards_None list_ex_iff list_all_iff)
  then have "resolve [] (Split p (CHR ''/'')) = Split p (CHR ''/'')" using resolve_plain by fastforce
  with assms show ?thesis
    by (auto simp: ValidatePath_def guards_None ContainsAny_def list_ex_iff path_forbidden_def)
qed

theorem ValidatePath_no_traversal_witness:
  "ValidatePath ''/v1/users'' = None \<and> resolve [] (Split ''/v1/users'' (CHR ''/'')) = Split ''/v1/users'' (CHR ''/'')
   \<and> ValidatePath ''/v1/../admin'' \<noteq> None"
proof -
  have "ValidatePath ''/v1/users'' = None" "ValidatePath ''/v1/../admin'' \<noteq> None" by code_simp+
  with ValidatePath_no_traversal [of "''/v1/users''"] show ?thesis by simp
qed

section \<open>What a snapshot guarantees\<close>

definition endpoint_ok :: "toolkit \<Rightarrow> Endpoint \<Rightarrow> bool" where
  "endpoint_ok K e \<longleftrightarrow> (\<exists>u. tkParseURL K (epBaseURL e) = Some u \<and> uHost u \<noteq> [] \<and> \<not> uUser u
       \<and> (uScheme u = ''https'' \<or> uScheme u = ''http'' \<and> epAllowHTTP e)
       \<and> ToLower (tkUnicode K) (uHostname u) \<in> set (epHosts e))
     \<and> epMethods e \<noteq> [] \<and> epPrefixes e \<noteq> [] \<and> (\<forall>p\<in>set (epPrefixes e). ValidatePath p = None)
     \<and> (\<forall>c\<in>set (epCIDRs e). tkParsePrefix K c \<noteq> None)
     \<and> 0 < epConnectTimeout e \<and> epConnectTimeout e \<le> epRequestTimeout e \<and> epRequestTimeout e \<le> 30 * second
     \<and> 0 < epMaxResponse e \<and> epMaxResponse e \<le> 16777216"

definition target_ok :: "toolkit \<Rightarrow> Snapshot \<Rightarrow> Target \<Rightarrow> bool" where
  "target_ok K s t \<longleftrightarrow> endpoint_ok K (tgEndpoint t)
     \<and> (\<exists>r. map_of (snRetries s) (tgRetryPolicy t) = Some r)
     \<and> (\<exists>q. map_of (snQuotas s) (tgQuota t) = Some q)
     \<and> (tgHook t = [] \<or> (\<exists>p. map_of (snPrograms s) (tgHook t) = Some p))
     \<and> 0 \<le> tgPreviewBytes t \<and> tgPreviewBytes t \<le> 8192
     \<and> (idMode (tgIdempotency t) = ''supported'' \<longleftrightarrow> idInject (tgIdempotency t) \<noteq> [])
     \<and> (tgRetryEnabled t \<longrightarrow> idMode (tgIdempotency t) = ''supported'' \<or> idUncertainRetry (tgIdempotency t) \<noteq> None)"

definition snapshot_ok :: "toolkit \<Rightarrow> Snapshot \<Rightarrow> bool" where
  "snapshot_ok K s \<longleftrightarrow>
     (\<forall>(u, t)\<in>set (snTargets s). namePattern u \<and> target_ok K s t)
     \<and> (\<forall>(u, r)\<in>set (snRetries s). 0 < rtMaxDuration r \<and> rtMaxDuration r \<le> 720 * hour \<and> set (rtDelays r) \<subseteq> set Buckets)
     \<and> (\<forall>(u, c)\<in>set (snClients s). (\<exists>q. map_of (snQuotas s) (clQuota c) = Some q)
          \<and> (\<forall>t\<in>set (clTargets c). \<exists>tg. map_of (snTargets s) t = Some tg))
     \<and> (\<forall>(u, q)\<in>set (snQuotas s). \<forall>(u', q')\<in>set (snQuotas s).
          qIngressGlobal q = qIngressGlobal q' \<and> qGlobalConcurrency q = qGlobalConcurrency q')
     \<and> map fst (snPrograms s) = map fst (snHooks s) \<and> map fst (snKeys s) = map fst (snIssuers s)"

lemma find_error_None:
  "(case find (\<lambda>p. f p \<noteq> None) ps of Some p \<Rightarrow> f p | None \<Rightarrow> r) = None \<longleftrightarrow> (\<forall>p\<in>set ps. f p = None) \<and> r = None"
  by (auto simp: find_None_iff find_Some_iff split: option.splits)

lemma ValidateEndpoint_ok:
  assumes "ValidateEndpoint K e = None"
  shows "endpoint_ok K e"
proof -
  from assms obtain u where u: "tkParseURL K (epBaseURL e) = Some u"
    and g: "guards (endpoint_origin K e u) = None" "\<forall>p\<in>set (epPrefixes e). ValidatePath p = None"
      "guards (endpoint_limits K e) = None"
    unfolding ValidateEndpoint_def find_error_None [symmetric]
    by (cases "tkParseURL K (epBaseURL e)"; cases "guards (endpoint_origin K e (the (tkParseURL K (epBaseURL e))))")
      (simp_all del: not_None_eq add: find_error_None)
  from g(1) have "uHost u \<noteq> [] \<and> \<not> uUser u \<and> (uScheme u = ''https'' \<or> uScheme u = ''http'' \<and> epAllowHTTP e)
      \<and> ToLower (tkUnicode K) (uHostname u) \<in> set (epHosts e)" "epMethods e \<noteq> []" "epPrefixes e \<noteq> []"
    unfolding endpoint_origin_def guards_None by auto
  moreover from g(3) have "\<forall>c\<in>set (epCIDRs e). tkParsePrefix K c \<noteq> None" "0 < epConnectTimeout e"
    "epConnectTimeout e \<le> epRequestTimeout e" "epRequestTimeout e \<le> 30 * second" "0 < epMaxResponse e"
    "epMaxResponse e \<le> 16777216"
    unfolding endpoint_limits_def guards_None list_ex_iff by auto
  ultimately show ?thesis using u g(2) by (simp add: endpoint_ok_def)
qed

lemma check_quotas_agree:
  "check_quotas g qs = None \<Longrightarrow> \<exists>i c. (\<forall>(u, q)\<in>set qs. qIngressGlobal q = i \<and> qGlobalConcurrency q = c)
     \<and> (\<forall>q. g = Some q \<longrightarrow> qIngressGlobal q = i \<and> qGlobalConcurrency q = c)"
proof (induction g qs rule: check_quotas.induct)
  case (1 global)
  then show ?case by (cases global) auto
next
  case (2 global u q qs)
  then show ?case by (cases global) (auto split: if_splits)
qed

lemma check_target_ok:
  assumes "check_target K doc (u, t) = None" and "fill (build_hook K) (the (dcHooks doc)) = Inr (snPrograms s)"
    and "snRetries s = the (dcRetries doc)" "snQuotas s = the (dcQuotas doc)"
  shows "namePattern u \<and> target_ok K s t"
proof -
  have "\<exists>p. map_of (snPrograms s) (tgHook t) = Some p" if "tgHook t \<noteq> []"
    using assms(1) that fill_Inr [OF assms(2), of "tgHook t"]
    by (auto simp: check_target_def guards_None split: if_splits option.splits)
  with assms show ?thesis
    by (auto simp: check_target_def guards_None target_ok_def ValidateEndpoint_ok split: if_splits option.splits)
qed

lemma Build_ok:
  assumes "Build K env_ok now revision b = Inr s"
  shows "snapshot_ok K s \<and> snRevision s = revision"
proof -
  from assms obtain doc where
    hooks: "fill (build_hook K) (the (dcHooks doc)) = Inr (snPrograms s)"
    and retries: "each check_retry (the (dcRetries doc)) = None"
    and quotas: "check_quotas None (the (dcQuotas doc)) = None"
    and targets: "each (check_target K doc) (the (dcTargets doc)) = None"
    and clients: "each (check_client doc) (the (dcClients doc)) = None"
    and keys: "fill (build_issuer K) (the (dcIssuers doc)) = Inr (snKeys s)"
    and s: "snTargets s = the (dcTargets doc)" "snClients s = the (dcClients doc)" "snRetries s = the (dcRetries doc)"
      "snQuotas s = the (dcQuotas doc)" "snHooks s = the (dcHooks doc)" "snIssuers s = the (dcIssuers doc)"
      "snRevision s = revision"
    by (auto simp: Build_def split: sum.splits if_splits option.splits) (metis option.sel)
  have "\<forall>(u, t)\<in>set (snTargets s). namePattern u \<and> target_ok K s t"
    using targets check_target_ok [OF _ hooks s(3,4)] by (auto simp: each_None s(1))
  moreover have "\<forall>(u, r)\<in>set (snRetries s). 0 < rtMaxDuration r \<and> rtMaxDuration r \<le> 720 * hour \<and> set (rtDelays r) \<subseteq> set Buckets"
    using retries by (fastforce simp: each_None s(3) check_retry_def guards_None list_ex_iff)
  moreover have "\<forall>(u, c)\<in>set (snClients s). (\<exists>q. map_of (snQuotas s) (clQuota c) = Some q)
      \<and> (\<forall>t\<in>set (clTargets c). \<exists>tg. map_of (snTargets s) t = Some tg)"
    using clients by (fastforce simp: each_None s(1,2,4) check_client_def guards_None list_ex_iff)
  moreover have "\<forall>(u, q)\<in>set (snQuotas s). \<forall>(u', q')\<in>set (snQuotas s).
      qIngressGlobal q = qIngressGlobal q' \<and> qGlobalConcurrency q = qGlobalConcurrency q'"
  proof -
    from check_quotas_agree [OF quotas] obtain i c where
      "\<forall>x\<in>set (snQuotas s). qIngressGlobal (snd x) = i \<and> qGlobalConcurrency (snd x) = c"
      by (auto simp: s(4) case_prod_unfold)
    then show ?thesis unfolding case_prod_unfold by simp
  qed
  ultimately show ?thesis
    using fill_keys [OF hooks] fill_keys [OF keys] by (simp add: snapshot_ok_def s)
qed

text \<open>
  Every snapshot that \<^const>\<open>Build\<close> returns is closed under reference and within limits: targets
  name existing retry policies, quotas and compiled hooks, clients name existing quotas and targets,
  every retry delay has a queue, every request fits the lease, retries of targets without
  idempotency were asked for explicitly, and the global limits agree across all policies.
\<close>

theorem Build_sound:
  assumes "Build K env_ok now revision b = Inr s"
  shows "snapshot_ok K s \<and> snRevision s = revision"
  using assms by (rule Build_ok)

definition ex_url :: url where
  "ex_url = \<lparr>uScheme = ''https'', uHost = ''a'', uHostname = ''a'', uUser = False, uRawQuery = [],
     uFragment = [], uPath = []\<rparr>"

definition ex_tool_target :: Target where
  "ex_tool_target = zero_Target\<lparr>tgRevision := 1, tgEnabled := True, tgAdapter := ''generic_http'',
     tgEndpoint := \<lparr>epBaseURL = ''https://a'', epHosts = [''a''], epMethods = [''POST''], epPrefixes = [''/v1/''],
        epCIDRs = [], epAllowHTTP = False, epConnectTimeout = second, epRequestTimeout = 5 * second,
        epMaxResponse = 1000\<rparr>,
     tgAuth := \<lparr>auType = ''none'', auHeader = [], auSecretRef = []\<rparr>,
     tgIdempotency := \<lparr>idMode = ''supported'', idUncertainRetry = None,
        idInject = [\<lparr>ijLocation = ''header'', ijKey = ''X-Id'', ijPointer = []\<rparr>]\<rparr>,
     tgRetryEnabled := True, tgRetryPolicy := ''r'', tgQuota := ''q'', tgDefaultMode := ''async''\<rparr>"

definition ex_tool_doc :: Document where
  "ex_tool_doc = \<lparr>dcTargets = Some [(''t'', ex_tool_target)],
     dcClients = Some [(''c'', \<lparr>clEnabled = True, clTargets = [''t''], clManualRetry = True, clQuota = ''q''\<rparr>)],
     dcRetries = Some [(''r'', \<lparr>rtRevision = 1, rtDelays = [5 * second, 30 * second], rtMaxDuration = hour,
        rtRespectRetryAfter = True\<rparr>)],
     dcQuotas = Some [(''q'', zero_Quota\<lparr>qFailMode := ''closed''\<rparr>)], dcHooks = Some [], dcIssuers = Some []\<rparr>"

definition ex_tool :: toolkit where
  "ex_tool = \<lparr>tkUnicode = ascii_only, tkParseURL = (\<lambda>_. Some ex_url), tkParsePrefix = (\<lambda>_. None),
     tkDecodeDocument = (\<lambda>_. Some (ex_tool_doc, [])), tkCompile = (\<lambda>_. None), tkParseRSA = (\<lambda>_. None),
     tkParseEC = (\<lambda>_. None)\<rparr>"

lemma ex_Build: "\<exists>s. Build ex_tool True 0 7 ''{}'' = Inr s \<and> snTargets s = [(''t'', ex_tool_target)]"
proof -
  have "each (check_target ex_tool ex_tool_doc) [(''t'', ex_tool_target)] = None" by code_simp
  moreover have "each check_retry (the (dcRetries ex_tool_doc)) = None" by code_simp
  moreover have "each (check_client ex_tool_doc) (the (dcClients ex_tool_doc)) = None" by code_simp
  moreover have "check_quotas None (the (dcQuotas ex_tool_doc)) = None" by code_simp
  ultimately show ?thesis by (simp add: Build_def Decode_def ex_tool_def ex_tool_doc_def)
qed

theorem Build_sound_witness:
  "\<exists>s. Build ex_tool True 0 7 ''{}'' = Inr s \<and> snTargets s \<noteq> [] \<and> snapshot_ok ex_tool s"
proof -
  from ex_Build obtain s where "Build ex_tool True 0 7 ''{}'' = Inr s" "snTargets s \<noteq> []" by auto
  with Build_sound [of ex_tool True 0 7 "''{}''" s] show ?thesis by blast
qed

end
