(* ===== verification/Manager.thy ===== *)
theory Manager
  imports Validate
begin

text \<open>
  The configuration manager of \<^verbatim>\<open>internal/config/manager.go\<close> and the process configuration of
  \<^verbatim>\<open>internal/config/process.go\<close>. The control database, the files and the environment are arguments;
  \<open>digest\<close> is \<^verbatim>\<open>sha256\<close> of the JSON form of the secrets, \<^const>\<open>None\<close> when that form does not exist.
  Goroutines share the manager, so \<^verbatim>\<open>History\<close> is also given as its two critical sections.
\<close>

section \<open>The process configuration\<close>

record SecretSource =
  ssFile :: string
  ssEnv :: string

record Process =
  pListen :: string
  pHealthListen :: string
  pRoles :: "string list"
  pWorkers :: int
  pPrefetch :: int
  pDBMaxOpen :: int
  pTargetConcurrency :: int
  pSecrets :: "(string \<times> SecretSource) list"
  pBusinessDSN :: string
  pControlDSN :: string
  pAMQPURL :: string
  pRedisURL :: string

definition default_Process :: Process where
  "default_Process = \<lparr>pListen = '':8080'', pHealthListen = ''127.0.0.1:8081'',
     pRoles = [''api'', ''worker'', ''outbox'', ''recovery''], pWorkers = 32, pPrefetch = 32, pDBMaxOpen = 64,
     pTargetConcurrency = 8, pSecrets = [], pBusinessDSN = [], pControlDSN = [], pAMQPURL = [], pRedisURL = []\<rparr>"

text \<open>Files and environment as one call sees them; an unset variable reads as the empty string.\<close>

record host =
  hReadFile :: "string \<Rightarrow> string option"
  hGetenv :: "string \<Rightarrow> string"

fun roles_ok :: "string list \<Rightarrow> string list \<Rightarrow> bool" where
  "roles_ok seen [] \<longleftrightarrow> True"
| "roles_ok seen (r # rs) \<longleftrightarrow>
     \<not> (r \<in> set seen \<or> (r \<noteq> ''api'' \<and> r \<noteq> ''worker'' \<and> r \<noteq> ''outbox'' \<and> r \<noteq> ''recovery''))
     \<and> roles_ok (r # seen) rs"

definition LoadProcess ::
  "(Process \<Rightarrow> string \<Rightarrow> (Process \<times> string) option) \<Rightarrow> host \<Rightarrow> string \<Rightarrow> error + Process" where
  "LoadProcess decode h path =
     (case hReadFile h path of
        None \<Rightarrow> Inl (fails ''cannot read'')
      | Some b \<Rightarrow>
          (case Decode (decode default_Process) b of
             Inl x \<Rightarrow> Inl x
           | Inr c0 \<Rightarrow>
               let v = hGetenv h ''NOTIFIER_ROLES'';
                   c = c0\<lparr>pRoles := (if v \<noteq> [] then Split v (CHR '','') else pRoles c0),
                          pBusinessDSN := hGetenv h ''NOTIFIER_BUSINESS_DSN'',
                          pControlDSN := hGetenv h ''NOTIFIER_CONTROL_DSN'',
                          pAMQPURL := hGetenv h ''NOTIFIER_AMQP_URL'', pRedisURL := hGetenv h ''NOTIFIER_REDIS_URL''\<rparr>
               in if pWorkers c < 1 \<or> pWorkers c > 1024 \<or> pPrefetch c < 1 \<or> pPrefetch c > 4096 \<or> pDBMaxOpen c < 2
                     \<or> pTargetConcurrency c < 1 \<or> length (pRoles c) = 0 then Inl (fails ''invalid process limits'')
                  else if \<not> roles_ok [] (pRoles c) then Inl (fails ''invalid roles'')
                  else if pBusinessDSN c = [] \<or> pControlDSN c = [] \<or> pRedisURL c = []
                  then Inl (fails ''database/Redis environment variables required'')
                  else if (''worker'' \<in> set (pRoles c) \<or> ''outbox'' \<in> set (pRoles c)) \<and> pAMQPURL c = []
                  then Inl (fails ''AMQP URL required'')
                  else Inr c))"

section \<open>The manager\<close>

record Manager =
  mCurrent :: "Snapshot option"
  mSecrets :: "(string \<times> string) list option"
  mSecretHash :: "byte list"
  mHistory :: "(nat \<times> Snapshot) list"
  mReloads :: nat
  mFailures :: nat

definition NewManager :: Manager where
  "NewManager = \<lparr>mCurrent = None, mSecrets = None, mSecretHash = replicate 32 0, mHistory = [], mReloads = 0,
     mFailures = 0\<rparr>"

definition Secret :: "Manager \<Rightarrow> string \<Rightarrow> error + string" where
  "Secret m ref =
     (case mSecrets m of
        None \<Rightarrow> Inl (fails ''secrets unavailable'')
      | Some p \<Rightarrow> (case map_of p ref of None \<Rightarrow> Inl (fails ''secret unavailable'') | Some v \<Rightarrow> Inr v))"

text \<open>The control database: the global revision, and the documents, which are inserted once and never changed.\<close>

record control_db =
  cdRevision :: "nat option"
  cdDocument :: "nat \<Rightarrow> string option"

definition control_error :: error where
  "control_error = OtherError ''control database''"

text \<open>
  What one call of \<^verbatim>\<open>History\<close> meets: whether its query fails, whether \<^verbatim>\<open>cel.NewEnv\<close> succeeds, the
  clock, and which entry of the full cache the \<^verbatim>\<open>range\<close> over it visits first.
\<close>

record history_env =
  hvFails :: bool
  hvEnv :: bool
  hvNow :: gotime
  hvPick :: nat

definition history_lookup :: "nat \<Rightarrow> Manager \<Rightarrow> Snapshot option" where
  "history_lookup rv m =
     (case mCurrent m of
        Some active \<Rightarrow> if snRevision active = rv then Some active else map_of (mHistory m) rv
      | None \<Rightarrow> map_of (mHistory m) rv)"

definition history_store :: "nat \<Rightarrow> nat \<Rightarrow> Snapshot \<Rightarrow> Manager \<Rightarrow> Manager" where
  "history_store pick rv s m =
     (let h = (if length (mHistory m) \<ge> 64
               then filter (\<lambda>(k, _). k \<noteq> fst (mHistory m ! (pick mod length (mHistory m)))) (mHistory m)
               else mHistory m)
      in m\<lparr>mHistory := (rv, s) # filter (\<lambda>(k, _). k \<noteq> rv) h\<rparr>)"

definition History ::
  "toolkit \<Rightarrow> control_db \<Rightarrow> history_env \<Rightarrow> nat \<Rightarrow> Manager \<Rightarrow> (error + Snapshot) \<times> Manager" where
  "History K c v rv m =
     (case history_lookup rv m of
        Some s \<Rightarrow> (Inr s, m)
      | None \<Rightarrow>
          if hvFails v then (Inl control_error, m)
          else case cdDocument c rv of
                 None \<Rightarrow> (Inl ErrNoRows, m)
               | Some b \<Rightarrow>
                   (case Build K (hvEnv v) (hvNow v) rv b of
                      Inl x \<Rightarrow> (Inl x, m)
                    | Inr s \<Rightarrow> (Inr s, history_store (hvPick v) rv s m)))"

definition needs_secret :: "Target \<Rightarrow> bool" where
  "needs_secret t \<longleftrightarrow> tgEnabled t \<and> auType (tgAuth t) = ''static_header''"

definition Reload :: "toolkit \<Rightarrow> control_db \<Rightarrow> bool \<Rightarrow> history_env \<Rightarrow> Manager \<Rightarrow> (error + unit) \<times> Manager" where
  "Reload K c failed v m =
     (if failed then (Inl control_error, m)
      else case cdRevision c of
        None \<Rightarrow> (Inl ErrNoRows, m)
      | Some rv \<Rightarrow>
          if (case mCurrent m of None \<Rightarrow> False | Some old \<Rightarrow> snRevision old = rv) then (Inr (), m)
          else if (case mCurrent m of None \<Rightarrow> False | Some old \<Rightarrow> rv < snRevision old)
          then (Inl (fails ''configuration revision regressed''), m)
          else case History K c v rv m of
            (Inl x, m1) \<Rightarrow> (Inl x, m1)
          | (Inr s, m1) \<Rightarrow>
              (case each (\<lambda>(_, t). if needs_secret t
                            then (case Secret m1 (auSecretRef (tgAuth t)) of Inl x \<Rightarrow> Some x | Inr _ \<Rightarrow> None)
                            else None) (snTargets s) of
                 Some x \<Rightarrow> (Inl x, m1)
               | None \<Rightarrow> (Inr (), m1\<lparr>mCurrent := Some s, mReloads := uint64_inc (mReloads m1)\<rparr>)))"

section \<open>Secrets\<close>

definition secret_value :: "unicode \<Rightarrow> host \<Rightarrow> string \<times> SecretSource \<Rightarrow> error + string" where
  "secret_value U h = (\<lambda>(_, s).
     if (ssFile s = []) = (ssEnv s = []) then Inl (fails ''secret must use exactly one file or env'')
     else case (if ssFile s \<noteq> [] then map_option (TrimSpace U) (hReadFile h (ssFile s)) else Some (hGetenv h (ssEnv s))) of
            None \<Rightarrow> Inl (fails ''cannot read secret file'')
          | Some v \<Rightarrow>
              if v = [] \<or> length v > 16384 \<or> ContainsAny v ctl then Inl (fails ''empty or invalid secret'') else Inr v)"

definition LoadSecrets ::
  "unicode \<Rightarrow> ((string \<times> string) list \<Rightarrow> byte list option) \<Rightarrow> host \<Rightarrow> (string \<times> SecretSource) list \<Rightarrow> Manager
     \<Rightarrow> (error + byte list) \<times> Manager" where
  "LoadSecrets U digest h sources m =
     (case fill (secret_value U h) sources of
        Inl x \<Rightarrow> (Inl x, m)
      | Inr values \<Rightarrow>
          if (case mCurrent m of None \<Rightarrow> False | Some current \<Rightarrow>
                list_ex (\<lambda>(_, t). needs_secret t \<and> go_get [] values (auSecretRef (tgAuth t)) = []) (snTargets current))
          then (Inl (fails ''active secret reference missing''), m)
          else case digest values of
                 None \<Rightarrow> (Inl (fails ''json''), m)
               | Some hash \<Rightarrow>
                   (Inr hash, if hash \<noteq> mSecretHash m then m\<lparr>mSecrets := Some values, mSecretHash := hash\<rparr> else m))"

section \<open>The watcher\<close>

text \<open>What \<^verbatim>\<open>reloadFiles\<close> and the database tick of the watcher do to the manager.\<close>

definition reloadFiles ::
  "unicode \<Rightarrow> ((string \<times> string) list \<Rightarrow> byte list option) \<Rightarrow> (Process \<Rightarrow> string \<Rightarrow> (Process \<times> string) option) \<Rightarrow> host \<Rightarrow>
     string \<Rightarrow> Manager \<Rightarrow> Manager" where
  "reloadFiles U digest decode h path m =
     (case LoadProcess decode h path of
        Inl _ \<Rightarrow> m\<lparr>mFailures := uint64_inc (mFailures m)\<rparr>
      | Inr p \<Rightarrow>
          (case LoadSecrets U digest h (pSecrets p) m of
             (Inl _, m') \<Rightarrow> m'\<lparr>mFailures := uint64_inc (mFailures m')\<rparr>
           | (Inr _, m') \<Rightarrow> m'\<lparr>mReloads := uint64_inc (mReloads m')\<rparr>))"

definition dbTick :: "toolkit \<Rightarrow> control_db \<Rightarrow> bool \<Rightarrow> history_env \<Rightarrow> Manager \<Rightarrow> Manager" where
  "dbTick K c failed v m =
     (case Reload K c failed v m of
        (Inl _, m') \<Rightarrow> m'\<lparr>mFailures := uint64_inc (mFailures m')\<rparr>
      | (Inr _, m') \<Rightarrow> m')"

section \<open>Runs\<close>

text \<open>
  The steps of the goroutines: a call of \<^verbatim>\<open>History\<close>, the second critical section of one that looked
  the revision up earlier, and the calls of startup and of the watcher, which follow one another.
\<close>

inductive manager_step ::
  "toolkit \<Rightarrow> (nat \<Rightarrow> string option) \<Rightarrow> ((string \<times> string) list \<Rightarrow> byte list option) \<Rightarrow> Manager \<Rightarrow> Manager \<Rightarrow> bool"
  for K docs digest where
  history: "cdDocument c \<subseteq>\<^sub>m docs \<Longrightarrow> manager_step K docs digest m (snd (History K c v rv m))"
| store: "docs rv = Some b \<Longrightarrow> Build K e now rv b = Inr s \<Longrightarrow>
    manager_step K docs digest m (history_store pick rv s m)"
| reload: "cdDocument c \<subseteq>\<^sub>m docs \<Longrightarrow> manager_step K docs digest m (snd (Reload K c failed v m))"
| tick: "cdDocument c \<subseteq>\<^sub>m docs \<Longrightarrow> manager_step K docs digest m (dbTick K c failed v m)"
| secrets: "manager_step K docs digest m (snd (LoadSecrets U digest h sources m))"
| files: "manager_step K docs digest m (reloadFiles U digest decode h path m)"
| noted: "manager_step K docs digest m (m\<lparr>mFailures := uint64_inc (mFailures m)\<rparr>)"

definition built :: "toolkit \<Rightarrow> (nat \<Rightarrow> string option) \<Rightarrow> nat \<Rightarrow> Snapshot \<Rightarrow> bool" where
  "built K docs rv s \<longleftrightarrow> (\<exists>b e now. docs rv = Some b \<and> Build K e now rv b = Inr s)"

definition secret_ok :: "string \<Rightarrow> bool" where
  "secret_ok v \<longleftrightarrow> v \<noteq> [] \<and> length v \<le> 16384 \<and> \<not> ContainsAny v ctl"

definition manager_ok :: "toolkit \<Rightarrow> (nat \<Rightarrow> string option) \<Rightarrow> Manager \<Rightarrow> bool" where
  "manager_ok K docs m \<longleftrightarrow>
     distinct (map fst (mHistory m)) \<and> length (mHistory m) \<le> 64
     \<and> (\<forall>(rv, s)\<in>set (mHistory m). built K docs rv s)
     \<and> (\<forall>vs. mSecrets m = Some vs \<longrightarrow> (\<forall>(_, v)\<in>set vs. secret_ok v))
     \<and> (\<forall>s. mCurrent m = Some s \<longrightarrow> built K docs (snRevision s) s
          \<and> (\<forall>(_, t)\<in>set (snTargets s). needs_secret t \<longrightarrow> (\<exists>v. Secret m (auSecretRef (tgAuth t)) = Inr v)))"

text \<open>What every step keeps of the configuration in force.\<close>

definition serves_on :: "Manager \<Rightarrow> Manager \<Rightarrow> bool" where
  "serves_on m m' \<longleftrightarrow> (\<forall>s. mCurrent m = Some s \<longrightarrow>
     (\<exists>s'. mCurrent m' = Some s' \<and> (s' = s \<or> snRevision s < snRevision s')))"

lemma built_ok: "built K docs rv s \<Longrightarrow> snapshot_ok K s \<and> snRevision s = rv"
  using Build_ok by (fastforce simp: built_def)

lemmas built_revision = built_ok [THEN conjunct2]

lemma Secret_history [simp]: "Secret (m\<lparr>mHistory := h\<rparr>) = Secret m" "Secret (m\<lparr>mCurrent := c\<rparr>) = Secret m"
  "Secret (m\<lparr>mReloads := k\<rparr>) = Secret m" "Secret (m\<lparr>mFailures := k\<rparr>) = Secret m"
  by (simp_all add: Secret_def fun_eq_iff)

lemma manager_ok_counters [simp]:
  "manager_ok K docs (m\<lparr>mReloads := k\<rparr>) = manager_ok K docs m" "manager_ok K docs (m\<lparr>mFailures := k\<rparr>) = manager_ok K docs m"
  by (simp_all add: manager_ok_def)

lemma filter_key_shorter:
  assumes "i < length xs"
  shows "length (filter (\<lambda>(k, _). k \<noteq> fst (xs ! i)) xs) < length xs"
proof -
  have "xs ! i \<in> set xs" using assms by simp
  then show ?thesis by (intro length_filter_less [of "xs ! i"]) (auto split: prod.splits)
qed

lemma distinct_filter_key: "distinct (map fst xs) \<Longrightarrow> distinct (map fst (filter P xs))"
  by (rule distinct_map_filter)

lemma history_store_fields [simp]:
  "mCurrent (history_store pick rv s m) = mCurrent m" "mSecrets (history_store pick rv s m) = mSecrets m"
  by (simp_all add: history_store_def Let_def)

lemma history_store_ok:
  assumes "manager_ok K docs m" and "built K docs rv s"
  shows "manager_ok K docs (history_store pick rv s m)"
proof -
  define h where "h = (if length (mHistory m) \<ge> 64
     then filter (\<lambda>(k, _). k \<noteq> fst (mHistory m ! (pick mod length (mHistory m)))) (mHistory m) else mHistory m)"
  have "length h < 64"
  proof (cases "length (mHistory m) \<ge> 64")
    case True
    then have "pick mod length (mHistory m) < length (mHistory m)" by (intro mod_less_divisor) linarith
    from filter_key_shorter [OF this] True assms(1) show ?thesis by (simp add: h_def manager_ok_def)
  qed (simp add: h_def)
  then have len: "length (filter (\<lambda>(k, _). k \<noteq> rv) h) < 64"
    using length_filter_le le_less_trans by blast
  have "distinct (map fst h)" "set h \<subseteq> set (mHistory m)"
    using assms(1) by (auto simp: h_def manager_ok_def distinct_filter_key)
  with len assms show ?thesis
    by (auto simp: manager_ok_def history_store_def Let_def distinct_filter_key simp flip: h_def)
qed

lemma history_lookup_built:
  "manager_ok K docs m \<Longrightarrow> history_lookup rv m = Some s \<Longrightarrow> built K docs rv s"
  by (fastforce simp: history_lookup_def manager_ok_def dest: map_of_SomeD split: option.splits if_splits)

lemma History_ok:
  assumes "manager_ok K docs m" and "cdDocument c \<subseteq>\<^sub>m docs" and "History K c v rv m = (res, m')"
  shows "manager_ok K docs m' \<and> mCurrent m' = mCurrent m \<and> mSecrets m' = mSecrets m
    \<and> (\<forall>s. res = Inr s \<longrightarrow> built K docs rv s)"
proof (cases "history_lookup rv m")
  case (Some s)
  then show ?thesis using assms history_lookup_built by (auto simp: History_def)
next
  case None
  have "built K docs rv s" if "cdDocument c rv = Some b" "Build K (hvEnv v) (hvNow v) rv b = Inr s" for b s
    using that assms(2) by (fastforce simp: built_def map_le_def dom_def)
  with None assms(1,3) history_store_ok show ?thesis
    by (auto simp: History_def split: if_splits option.splits sum.splits)
qed

lemma Reload_ok:
  assumes "manager_ok K docs m" and "cdDocument c \<subseteq>\<^sub>m docs" and "Reload K c failed v m = (res, m')"
  shows "manager_ok K docs m' \<and> serves_on m m' \<and> (\<forall>x. res = Inl x \<longrightarrow> mCurrent m' = mCurrent m)"
proof (cases "\<not> failed \<and> (\<exists>rv. cdRevision c = Some rv \<and> (\<forall>old. mCurrent m = Some old \<longrightarrow> snRevision old < rv))")
  case False
  then have "m' = m" using assms(3)
    by (auto simp: Reload_def split: if_splits option.splits)
  with assms(1) show ?thesis by (auto simp: serves_on_def)
next
  case True
  then obtain rv where rv: "\<not> failed" "cdRevision c = Some rv"
    "\<And>old. mCurrent m = Some old \<Longrightarrow> snRevision old < rv" by blast
  obtain hres m1 where h: "History K c v rv m = (hres, m1)" by fastforce
  note hok = History_ok [OF assms(1,2) h]
  have red: "Reload K c failed v m = (case hres of Inl x \<Rightarrow> (Inl x, m1) | Inr s \<Rightarrow>
      (case each (\<lambda>(_, t). if needs_secret t
             then (case Secret m1 (auSecretRef (tgAuth t)) of Inl x \<Rightarrow> Some x | Inr _ \<Rightarrow> None) else None) (snTargets s) of
         Some x \<Rightarrow> (Inl x, m1)
       | None \<Rightarrow> (Inr (), m1\<lparr>mCurrent := Some s, mReloads := uint64_inc (mReloads m1)\<rparr>)))"
    using rv h by (fastforce simp: Reload_def split: option.splits sum.splits)
  show ?thesis
  proof (cases "m' = m1")
    case True
    with hok show ?thesis by (auto simp: serves_on_def)
  next
    case False
    with assms(3) obtain s where s: "hres = Inr s" "m' = m1\<lparr>mCurrent := Some s, mReloads := uint64_inc (mReloads m1)\<rparr>"
      "each (\<lambda>(_, t). if needs_secret t
         then (case Secret m1 (auSecretRef (tgAuth t)) of Inl x \<Rightarrow> Some x | Inr _ \<Rightarrow> None) else None) (snTargets s) = None"
      "res = Inr ()"
      by (auto simp: red split: sum.splits option.splits)
    have "\<forall>(_, t)\<in>set (snTargets s). needs_secret t \<longrightarrow> (\<exists>v. Secret m1 (auSecretRef (tgAuth t)) = Inr v)"
      using s(3) by (fastforce simp: each_None split: sum.splits)
    moreover have "built K docs (snRevision s) s" "snRevision s = rv" using hok s(1) built_revision by blast+
    ultimately show ?thesis using hok s rv(3) by (auto simp: manager_ok_def serves_on_def)
  qed
qed

lemma secret_value_ok: "secret_value U h x = Inr v \<Longrightarrow> secret_ok v"
  by (auto simp: secret_value_def secret_ok_def split: prod.splits if_splits option.splits)

lemma fill_values: "fill body m = Inr m' \<Longrightarrow> (k, w) \<in> set m' \<Longrightarrow> \<exists>v. body (k, v) = Inr w"
  by (induction body m arbitrary: m' rule: fill.induct) (auto split: sum.splits)

lemma LoadSecrets_ok:
  assumes "manager_ok K docs m" and "LoadSecrets U digest h sources m = (res, m')"
  shows "manager_ok K docs m' \<and> mCurrent m' = mCurrent m \<and> (\<forall>x. res = Inl x \<longrightarrow> m' = m)"
proof (cases "m' = m")
  case True
  with assms(1) show ?thesis by simp
next
  case False
  with assms(2) obtain vs hash where vs: "fill (secret_value U h) sources = Inr vs" "digest vs = Some hash"
    "m' = m\<lparr>mSecrets := Some vs, mSecretHash := hash\<rparr>" "res = Inr hash"
    and cov: "\<And>s. mCurrent m = Some s \<Longrightarrow>
      \<forall>(_, t)\<in>set (snTargets s). needs_secret t \<longrightarrow> go_get [] vs (auSecretRef (tgAuth t)) \<noteq> []"
    by (fastforce simp: LoadSecrets_def list_ex_iff split: sum.splits if_splits option.splits)
  have ok: "\<forall>(_, v)\<in>set vs. secret_ok v" using fill_values [OF vs(1)] secret_value_ok by blast
  have "\<exists>v. Secret m' ref = Inr v" if "go_get [] vs ref \<noteq> []" for ref
    using that by (auto simp: Secret_def vs(3) go_get_def split: option.splits)
  with cov ok assms(1) vs(3,4) show ?thesis by (fastforce simp: manager_ok_def)
qed

lemma manager_step_ok:
  assumes "manager_step K docs digest m m'" and "manager_ok K docs m"
  shows "manager_ok K docs m' \<and> serves_on m m'"
  using assms
proof (cases rule: manager_step.cases)
  case (history c v rv)
  with assms(2) History_ok [of K docs m c v rv] show ?thesis
    by (cases "History K c v rv m") (auto simp: serves_on_def)
next
  case (store rv b e now s pick)
  then have "built K docs rv s" by (auto simp: built_def)
  with store assms(2) show ?thesis by (auto simp: history_store_ok serves_on_def)
next
  case (reload c failed v)
  with assms(2) Reload_ok [of K docs m c failed v] show ?thesis by (cases "Reload K c failed v m") auto
next
  case (tick c failed v)
  with assms(2) Reload_ok [of K docs m c failed v] show ?thesis
    by (cases "Reload K c failed v m") (auto simp: dbTick_def serves_on_def split: sum.splits)
next
  case (secrets U h sources)
  with assms(2) LoadSecrets_ok [of K docs m U digest h sources] show ?thesis
    by (cases "LoadSecrets U digest h sources m") (auto simp: serves_on_def)
next
  case (files U decode h path)
  show ?thesis
  proof (cases "LoadProcess decode h path")
    case (Inl x)
    then show ?thesis using files(1) assms(2) by (auto simp: reloadFiles_def serves_on_def)
  next
    case (Inr p)
    obtain res m1 where l: "LoadSecrets U digest h (pSecrets p) m = (res, m1)" by fastforce
    with LoadSecrets_ok [OF assms(2) l] files Inr show ?thesis
      by (auto simp: reloadFiles_def serves_on_def split: sum.splits)
  qed
next
  case noted
  with assms(2) show ?thesis by (simp add: manager_ok_def serves_on_def Secret_def)
qed

lemma serves_on_trans: "serves_on a b \<Longrightarrow> serves_on b c \<Longrightarrow> serves_on a c"
  unfolding serves_on_def by (metis less_trans)

text \<open>
  C28: the configuration in force is always a valid one and never goes back. Whatever the goroutines do
  in whatever order, whichever queries and files fail: the cache of old revisions holds at most 64,
  each built from the stored document of its revision; the snapshot in force satisfies every
  reference and limit \<^const>\<open>snapshot_ok\<close> lists; every enabled target that authenticates has its
  secret, non-empty and printable; and once a snapshot is in force it is only replaced by one of a
  higher revision.
\<close>

theorem manager_serves:
  assumes "(manager_step K docs digest)\<^sup>*\<^sup>* NewManager m" and "(manager_step K docs digest)\<^sup>*\<^sup>* m m'"
  shows "length (mHistory m) \<le> 64 \<and> (\<forall>(rv, s)\<in>set (mHistory m). built K docs rv s) \<and> serves_on m m'
    \<and> (\<forall>s. mCurrent m = Some s \<longrightarrow> snapshot_ok K s
         \<and> (\<forall>(_, t)\<in>set (snTargets s). needs_secret t \<longrightarrow>
              (\<exists>v. Secret m (auSecretRef (tgAuth t)) = Inr v \<and> secret_ok v)))"
proof -
  have new: "manager_ok K docs NewManager" by (simp add: manager_ok_def NewManager_def)
  have "manager_ok K docs b \<and> serves_on a b" if "(manager_step K docs digest)\<^sup>*\<^sup>* a b" "manager_ok K docs a" for a b
    using that
  proof (induction rule: rtranclp_induct)
    case base
    then show ?case by (simp add: serves_on_def)
  next
    case (step b c)
    with manager_step_ok [OF step(2)] serves_on_trans show ?case by blast
  qed
  with new assms have ok: "manager_ok K docs m" "serves_on m m'" by blast+
  have "snapshot_ok K s" if "mCurrent m = Some s" for s
    using ok(1) that built_ok by (auto simp: manager_ok_def)
  moreover have "secret_ok v" if "Secret m ref = Inr v" for ref v
    using ok(1) that by (fastforce simp: manager_ok_def Secret_def dest: map_of_SomeD split: option.splits)
  moreover have "length (mHistory m) \<le> 64" "\<forall>(rv, s)\<in>set (mHistory m). built K docs rv s"
    "\<And>s. mCurrent m = Some s \<Longrightarrow> \<forall>(_, t)\<in>set (snTargets s). needs_secret t \<longrightarrow>
       (\<exists>v. Secret m (auSecretRef (tgAuth t)) = Inr v)"
    using ok(1) by (simp_all add: manager_ok_def)
  ultimately show ?thesis using ok(2) by blast
qed

definition ex_docs :: "nat \<Rightarrow> string option" where
  "ex_docs rv = (if rv = 7 then Some ''{}'' else None)"

definition ex_manager :: Manager where
  "ex_manager = snd (Reload ex_tool \<lparr>cdRevision = Some 7, cdDocument = ex_docs\<rparr> False
     \<lparr>hvFails = False, hvEnv = True, hvNow = 0, hvPick = 0\<rparr> NewManager)"

lemma ex_manager_current: "\<exists>s. mCurrent ex_manager = Some s \<and> Build ex_tool True 0 7 ''{}'' = Inr s"
proof -
  from ex_Build obtain s where s: "Build ex_tool True 0 7 ''{}'' = Inr s" "snTargets s = [(''t'', ex_tool_target)]" by blast
  have "\<not> needs_secret ex_tool_target" by (simp add: needs_secret_def ex_tool_target_def)
  with s have "mCurrent ex_manager = Some s"
    by (simp add: ex_manager_def Reload_def NewManager_def History_def history_lookup_def ex_docs_def each_def)
  with s show ?thesis by blast
qed

theorem manager_serves_witness:
  "\<exists>s. mCurrent ex_manager = Some s \<and> snapshot_ok ex_tool s \<and> serves_on ex_manager (dbTick ex_tool
     \<lparr>cdRevision = Some 3, cdDocument = ex_docs\<rparr> False \<lparr>hvFails = False, hvEnv = True, hvNow = 0, hvPick = 0\<rparr> ex_manager)"
proof -
  let ?v = "\<lparr>hvFails = False, hvEnv = True, hvNow = 0, hvPick = 0\<rparr>"
  have up: "(manager_step ex_tool ex_docs (\<lambda>_. None))\<^sup>*\<^sup>* NewManager ex_manager"
    unfolding ex_manager_def by (intro r_into_rtranclp manager_step.reload) simp
  have tick: "(manager_step ex_tool ex_docs (\<lambda>_. None))\<^sup>*\<^sup>* ex_manager
      (dbTick ex_tool \<lparr>cdRevision = Some 3, cdDocument = ex_docs\<rparr> False ?v ex_manager)"
    by (intro r_into_rtranclp manager_step.tick) simp
  from manager_serves [OF up tick] ex_manager_current show ?thesis by blast
qed

end
