(* ===== verification/HttpText.thy ===== *)
theory HttpText
  imports Prelude
begin

text \<open>
  The parts of \<^verbatim>\<open>encoding/base64\<close>, \<^verbatim>\<open>unicode/utf8\<close> and \<^verbatim>\<open>net/http\<close> that requests go through. A body is
  a string of bytes, one character each.
\<close>

section \<open>Base64\<close>

definition b64_alphabet :: string where
  "b64_alphabet = ''ABCDEFGHIJKLMNOPQRSTUVWXYZabcdefghijklmnopqrstuvwxyz0123456789+/''"

definition b64_char :: "nat \<Rightarrow> char" where
  "b64_char n = b64_alphabet ! n"

definition b64_value :: "char \<Rightarrow> nat option" where
  "b64_value c = map_of (zip b64_alphabet [0..<64]) c"

abbreviation octet :: "char \<Rightarrow> nat" where
  "octet c \<equiv> of_char c"

fun b64_encode :: "string \<Rightarrow> string" where
  "b64_encode [] = []"
| "b64_encode [a] =
     [b64_char (octet a div 4), b64_char (octet a mod 4 * 16), CHR ''='', CHR ''='']"
| "b64_encode [a, b] =
     [b64_char (octet a div 4), b64_char (octet a mod 4 * 16 + octet b div 16),
      b64_char (octet b mod 16 * 4), CHR ''='']"
| "b64_encode (a # b # c # rest) =
     b64_char (octet a div 4) # b64_char (octet a mod 4 * 16 + octet b div 16)
     # b64_char (octet b mod 16 * 4 + octet c div 64) # b64_char (octet c mod 64) # b64_encode rest"

text \<open>
  One quantum of four characters after the line breaks are dropped. Padding ends the input; the
  unused bits of a padded quantum are not checked.
\<close>

fun b64_quanta :: "string \<Rightarrow> string option" where
  "b64_quanta [] = Some []"
| "b64_quanta (w # x # y # z # rest) =
     (case (b64_value w, b64_value x) of
        (Some w', Some x') \<Rightarrow>
          (case (b64_value y, b64_value z) of
             (Some y', Some z') \<Rightarrow>
               map_option (\<lambda>s. char_of (w' * 4 + x' div 16) # char_of (x' mod 16 * 16 + y' div 4)
                               # char_of (y' mod 4 * 64 + z') # s) (b64_quanta rest)
           | (Some y', None) \<Rightarrow>
               if z = CHR ''='' \<and> rest = []
               then Some [char_of (w' * 4 + x' div 16), char_of (x' mod 16 * 16 + y' div 4)] else None
           | (None, _) \<Rightarrow>
               if y = CHR ''='' \<and> z = CHR ''='' \<and> rest = [] then Some [char_of (w' * 4 + x' div 16)] else None)
      | _ \<Rightarrow> None)"
| "b64_quanta _ = None"

definition b64_decode :: "string \<Rightarrow> string option" where
  "b64_decode s = b64_quanta (filter (\<lambda>c. c \<noteq> CHR 0x0D \<and> c \<noteq> CHR 0x0A) s)"

lemma b64_table: "list_all (\<lambda>n. b64_value (b64_char n) = Some n
    \<and> b64_char n \<noteq> CHR 0x0D \<and> b64_char n \<noteq> CHR 0x0A \<and> b64_char n \<noteq> CHR ''='') [0..<64]"
  by code_simp

lemma b64_value_char: "n < 64 \<Longrightarrow> b64_value (b64_char n) = Some n"
  using b64_table by (simp add: list_all_iff)

lemma b64_char_ne: "n < 64 \<Longrightarrow> b64_char n \<noteq> CHR 0x0D \<and> b64_char n \<noteq> CHR 0x0A"
  using b64_table by (simp add: list_all_iff)

lemma b64_pad: "b64_value (CHR ''='') = None"
  by code_simp

lemma octet_less: "octet c < 256"
  by (rule nat_of_char_less_256)

lemma char_of_octet: "n = octet c \<Longrightarrow> char_of n = c"
  by simp

lemma six: "octet a div 4 < 64" "octet a mod 4 * 16 + octet b div 16 < 64"
    "octet b mod 16 * 4 + octet c div 64 < 64" "octet c mod 64 < 64" "octet a mod 4 * 16 < 64" "octet b mod 16 * 4 < 64"
  using octet_less [of a] octet_less [of b] octet_less [of c] by linarith+

lemma halves: "octet b div 16 div 16 = 0" "octet b div 16 mod 16 = octet b div 16"
    "octet c div 64 div 4 = 0" "octet c div 64 mod 4 = octet c div 64"
proof -
  have "octet b div 16 < 16" "octet c div 64 < 4" by (simp_all add: less_mult_imp_div_less)
  then show "octet b div 16 div 16 = 0" "octet b div 16 mod 16 = octet b div 16"
    "octet c div 64 div 4 = 0" "octet c div 64 mod 4 = octet c div 64" by simp_all
qed

lemma b64_encode_plain: "filter (\<lambda>c. c \<noteq> CHR 0x0D \<and> c \<noteq> CHR 0x0A) (b64_encode s) = b64_encode s"
  by (induction s rule: b64_encode.induct) (simp_all add: b64_char_ne six)

theorem b64_roundtrip: "b64_decode (b64_encode s) = Some s"
  unfolding b64_decode_def b64_encode_plain
  by (induction s rule: b64_encode.induct)
    (simp_all add: b64_value_char six b64_pad halves)

section \<open>UTF-8\<close>

definition within :: "nat \<Rightarrow> nat \<Rightarrow> char \<Rightarrow> bool" where
  "within lo hi c \<longleftrightarrow> lo \<le> octet c \<and> octet c \<le> hi"

abbreviation tail_byte :: "char \<Rightarrow> bool" where
  "tail_byte c \<equiv> within 0x80 0xBF c"

text \<open>The bytes allowed after a leading byte: how many, and the range of the first of them.\<close>

definition utf8_lead :: "char \<Rightarrow> (nat \<times> nat \<times> nat) option" where
  "utf8_lead c =
     (if within 0xC2 0xDF c then Some (1, 0x80, 0xBF)
      else if within 0xE0 0xE0 c then Some (2, 0xA0, 0xBF)
      else if within 0xED 0xED c then Some (2, 0x80, 0x9F)
      else if within 0xE1 0xEF c then Some (2, 0x80, 0xBF)
      else if within 0xF0 0xF0 c then Some (3, 0x90, 0xBF)
      else if within 0xF1 0xF3 c then Some (3, 0x80, 0xBF)
      else if within 0xF4 0xF4 c then Some (3, 0x80, 0x8F)
      else None)"

function utf8_Valid :: "string \<Rightarrow> bool" where
  "utf8_Valid [] \<longleftrightarrow> True"
| "utf8_Valid (c # cs) \<longleftrightarrow>
     (if octet c < 0x80 then utf8_Valid cs
      else case utf8_lead c of
             None \<Rightarrow> False
           | Some (k, lo, hi) \<Rightarrow>
               (case cs of
                  [] \<Rightarrow> False
                | d # ds \<Rightarrow> within lo hi d \<and> k - 1 \<le> length ds \<and> list_all tail_byte (take (k - 1) ds)
                           \<and> utf8_Valid (drop (k - 1) ds)))"
  by pat_completeness auto
termination
  by (relation "measure length") (auto split: list.splits)

lemma utf8_ascii: "list_all ascii s \<Longrightarrow> utf8_Valid s"
  by (induction s) (auto simp: ascii_def)

section \<open>Header names\<close>

text \<open>
  \<^verbatim>\<open>http.CanonicalHeaderKey\<close> on names of token characters, which is all the program passes: the
  first letter and every letter after a hyphen upper case, the others lower case.
\<close>

fun canonical :: "bool \<Rightarrow> string \<Rightarrow> string" where
  "canonical up [] = []"
| "canonical up (c # cs) =
     (if up then upper_char c else lower_char c) # canonical (c = CHR ''-'') cs"

definition CanonicalHeaderKey :: "string \<Rightarrow> string" where
  "CanonicalHeaderKey s = canonical True s"

lemma char_eq_octet: "c = d \<longleftrightarrow> octet c = octet d"
  by (simp add: of_char_eq_iff)

lemma octet_lower: "octet (lower_char c) = (if 65 \<le> octet c \<and> octet c \<le> 90 then octet c + 32 else octet c)"
  by (simp add: lower_char_def in_range_def)

lemma octet_upper: "octet (upper_char c) = (if 97 \<le> octet c \<and> octet c \<le> 122 then octet c - 32 else octet c)"
  by (auto simp: upper_char_def in_range_def intro!: mod_less)

lemma case_char: "upper_char (upper_char c) = upper_char c" "lower_char (lower_char c) = lower_char c"
    "(upper_char c = CHR ''-'') = (c = CHR ''-'')" "(lower_char c = CHR ''-'') = (c = CHR ''-'')"
    "lower_char (upper_char c) = lower_char c"
  unfolding char_eq_octet octet_lower octet_upper by auto

lemma canonical_idem: "canonical up (canonical up s) = canonical up s"
  by (induction up s rule: canonical.induct) (auto simp: case_char)

lemma CanonicalHeaderKey_idem: "CanonicalHeaderKey (CanonicalHeaderKey s) = CanonicalHeaderKey s"
  by (simp add: CanonicalHeaderKey_def canonical_idem)

lemma canonical_lower: "map lower_char (canonical up s) = map lower_char s"
  by (induction up s rule: canonical.induct) (auto simp: case_char)

lemma CanonicalHeaderKey_lower: "map lower_char (CanonicalHeaderKey s) = map lower_char s"
  by (simp add: CanonicalHeaderKey_def canonical_lower)

end
