(* ===== verification/Limiter.thy ===== *)
theory Limiter
  imports Config "HOL-Library.Multiset"
begin

text \<open>
  The process-local part of \<^verbatim>\<open>internal/quota/quota.go\<close>: the counters behind
  \<^verbatim>\<open>Limiter.local\<close>. The map holds pointers to counters and a release function keeps the pointer
  it was made with, so the model has a heap of counters and addresses; an abstract bag of permits in
  use is what it promises.
\<close>

section \<open>The counters\<close>

record Limiter =
  lMaxGlobal :: int
  lMaxTarget :: int
  lActive :: int
  lTargets :: "string \<Rightarrow> nat option"
  lHeap :: "nat \<Rightarrow> int"
  lNext :: nat
  lRejected :: nat
  lDegraded :: bool

definition New :: "int \<Rightarrow> int \<Rightarrow> Limiter" where
  "New global target =
     \<lparr>lMaxGlobal = global, lMaxTarget = target, lActive = 0, lTargets = (\<lambda>_. None), lHeap = (\<lambda>_. 0),
      lNext = 0, lRejected = 0, lDegraded = False\<rparr>"

text \<open>What the closure of a release captures: the counter and the name it was stored under.\<close>

type_synonym permit = "nat \<times> string"

text \<open>The counter of a target, made if there is none.\<close>

definition counter :: "string \<Rightarrow> Limiter \<Rightarrow> nat \<times> Limiter" where
  "counter target l =
     (case lTargets l target of
        Some t \<Rightarrow> (t, l)
      | None \<Rightarrow> (lNext l, l\<lparr>lTargets := (lTargets l)(target \<mapsto> lNext l), lHeap := (lHeap l)(lNext l := 0),
                          lNext := lNext l + 1\<rparr>))"

definition Limiter_local :: "string \<Rightarrow> Limiter \<Rightarrow> permit option \<times> Limiter" where
  "Limiter_local target l =
     (let (t, l1) = counter target l in
      if lActive l1 \<ge> lMaxGlobal l1 \<or> lHeap l1 t \<ge> lMaxTarget l1 then
        (None, if lHeap l1 t = 0 then l1\<lparr>lTargets := (lTargets l1)(target := None)\<rparr> else l1)
      else
        (Some (t, target), l1\<lparr>lActive := lActive l1 + 1, lHeap := (lHeap l1)(t := lHeap l1 t + 1)\<rparr>))"

definition localRelease :: "permit \<Rightarrow> Limiter \<Rightarrow> Limiter" where
  "localRelease p l =
     (let l1 = l\<lparr>lActive := lActive l - 1, lHeap := (lHeap l)(fst p := lHeap l (fst p) - 1)\<rparr> in
      if lHeap l1 (fst p) = 0 then l1\<lparr>lTargets := (lTargets l1)(snd p := None)\<rparr> else l1)"

section \<open>The permits in use\<close>

text \<open>
  \<open>lim_ok l ps\<close>: the counters stand for the bag \<open>ps\<close> of permits given out and not yet released. A
  counter in the map is positive, is the only one of its target and holds the number of its permits.
\<close>

definition lim_ok :: "Limiter \<Rightarrow> permit multiset \<Rightarrow> bool" where
  "lim_ok l ps \<longleftrightarrow> lActive l = int (size ps) \<and> lActive l \<le> max 0 (lMaxGlobal l)
     \<and> (\<forall>p\<in>#ps. lTargets l (snd p) = Some (fst p))
     \<and> (\<forall>target t. lTargets l target = Some t \<longrightarrow> t < lNext l \<and> lHeap l t \<le> max 0 (lMaxTarget l)
          \<and> 0 < count ps (t, target) \<and> lHeap l t = int (count ps (t, target)))
     \<and> (\<forall>a b t. lTargets l a = Some t \<longrightarrow> lTargets l b = Some t \<longrightarrow> a = b)"

lemma lim_okI:
  assumes "lActive l = int (size ps)" "lActive l \<le> max 0 (lMaxGlobal l)"
    "\<And>p. p \<in># ps \<Longrightarrow> lTargets l (snd p) = Some (fst p)"
    "\<And>target t. lTargets l target = Some t \<Longrightarrow> t < lNext l \<and> lHeap l t \<le> max 0 (lMaxTarget l)
          \<and> 0 < count ps (t, target) \<and> lHeap l t = int (count ps (t, target))"
    "\<And>a b t. lTargets l a = Some t \<Longrightarrow> lTargets l b = Some t \<Longrightarrow> a = b"
  shows "lim_ok l ps"
  using assms unfolding lim_ok_def by blast

lemma lim_okD:
  assumes "lim_ok l ps"
  shows "lActive l = int (size ps)" "lActive l \<le> max 0 (lMaxGlobal l)"
    "\<And>p. p \<in># ps \<Longrightarrow> lTargets l (snd p) = Some (fst p)"
    "\<And>target t. lTargets l target = Some t \<Longrightarrow> t < lNext l \<and> lHeap l t \<le> max 0 (lMaxTarget l)
          \<and> 0 < count ps (t, target) \<and> lHeap l t = int (count ps (t, target))"
    "\<And>a b t. lTargets l a = Some t \<Longrightarrow> lTargets l b = Some t \<Longrightarrow> a = b"
  using assms unfolding lim_ok_def by blast+

lemma lim_ok_New: "lim_ok (New g t) {#}"
  by (rule lim_okI) (simp_all add: New_def)

text \<open>Taking the counter of a target with an entry, without one, and giving it back.\<close>

lemma lim_ok_take:
  assumes ok: "lim_ok l ps" and t: "lTargets l target = Some t"
    and free: "lActive l < lMaxGlobal l" "lHeap l t < lMaxTarget l"
  shows "lim_ok (l\<lparr>lActive := lActive l + 1, lHeap := (lHeap l)(t := lHeap l t + 1)\<rparr>) (add_mset (t, target) ps)"
proof -
  note D = lim_okD [OF ok]
  show ?thesis
  proof (rule lim_okI, goal_cases)
    case (4 target' t')
    then show ?case using D(4) [of target' t'] D(4) [OF t] D(5) [of target' t' target] t free by auto
  qed (use D t free in auto)
qed

lemma lim_ok_fresh:
  assumes ok: "lim_ok l ps" and t: "lTargets l target = None"
    and free: "lActive l < lMaxGlobal l" "0 < lMaxTarget l"
    and l': "lActive l' = lActive l + 1" "lTargets l' = (lTargets l)(target \<mapsto> lNext l)"
      "lHeap l' = (lHeap l)(lNext l := 1)" "lNext l' = lNext l + 1" "lMaxGlobal l' = lMaxGlobal l"
      "lMaxTarget l' = lMaxTarget l"
  shows "lim_ok l' (add_mset (lNext l, target) ps)"
proof -
  note D = lim_okD [OF ok]
  have none: "count ps (x, target) = 0" for x
    using D(3) [of "(x, target)"] t by (metis not_in_iff option.distinct(1) snd_conv)
  show ?thesis
  proof (rule lim_okI, goal_cases)
    case (3 p)
    then show ?case using D(3) [of p] t l' by auto
  next
    case (4 target' t')
    then show ?case using D(4) [of target' t'] none free l' by (auto split: if_splits)
  next
    case (5 a b t')
    then show ?case using D(4) [of a t'] D(4) [of b t'] D(5) [of a t' b] l' by (auto split: if_splits)
  qed (use D free l' in auto)
qed

lemma lim_ok_refuse:
  assumes ok: "lim_ok l ps" and t: "lTargets l target = None"
    and l': "lActive l' = lActive l" "lTargets l' = (lTargets l)(target := None)"
      "lHeap l' = (lHeap l)(lNext l := 0)" "lNext l' = lNext l + 1" "lMaxGlobal l' = lMaxGlobal l"
      "lMaxTarget l' = lMaxTarget l"
  shows "lim_ok l' ps"
proof -
  note D = lim_okD [OF ok]
  have same: "lTargets l' = lTargets l" using t l'(2) by auto
  show ?thesis
  proof (rule lim_okI, goal_cases)
    case (4 target' t')
    then show ?case using D(4) [of target' t'] l' unfolding same by auto
  next
    case (5 a b t')
    then show ?case using D(5) unfolding same by blast
  qed (use D l' in \<open>auto simp: same\<close>)
qed

lemma Limiter_local_ok:
  assumes ok: "lim_ok l ps" and loc: "Limiter_local target l = (res, l')"
  shows "case res of None \<Rightarrow> lim_ok l' ps | Some p \<Rightarrow> snd p = target \<and> lim_ok l' (add_mset p ps)"
proof (cases "lTargets l target")
  case None
  show ?thesis
  proof (cases "lActive l \<ge> lMaxGlobal l \<or> lMaxTarget l \<le> 0")
    case True
    then have "res = None" and l': "l' = l\<lparr>lTargets := (lTargets l)(target := None),
        lHeap := (lHeap l)(lNext l := 0), lNext := lNext l + 1\<rparr>"
      using loc None by (auto simp: Limiter_local_def counter_def Let_def)
    moreover have "lim_ok l' ps" by (rule lim_ok_refuse [OF ok None]) (simp_all add: l')
    ultimately show ?thesis by simp
  next
    case False
    then have r: "res = Some (lNext l, target)" and l': "l' = l\<lparr>lTargets := (lTargets l)(target \<mapsto> lNext l),
        lHeap := (lHeap l)(lNext l := 1), lNext := lNext l + 1, lActive := lActive l + 1\<rparr>"
      using loc None by (auto simp: Limiter_local_def counter_def Let_def)
    have "lim_ok l' (add_mset (lNext l, target) ps)"
      by (rule lim_ok_fresh [OF ok None]) (use False in \<open>simp_all add: l'\<close>)
    with r show ?thesis by simp
  qed
next
  case (Some t)
  have "lHeap l t \<noteq> 0" using lim_okD(4) [OF ok Some] by auto
  then show ?thesis
    using loc lim_ok_take [OF ok Some] ok Some
    by (auto simp: Limiter_local_def counter_def Let_def not_le split: if_splits)
qed

lemma localRelease_ok:
  assumes ok: "lim_ok l (add_mset p ps)"
  shows "lim_ok (localRelease p l) ps"
proof -
  obtain t target where p: "p = (t, target)" by (cases p)
  note D = lim_okD [OF ok]
  have e: "lTargets l target = Some t" using D(3) [of p] by (simp add: p)
  have h: "lHeap l t = int (count ps (t, target)) + 1" using D(4) [OF e] by (simp add: p)
  have in_map: "lTargets l (snd q) = Some (fst q)" if "q \<in># ps" for q using D(3) that by simp
  show ?thesis
  proof (rule lim_okI, goal_cases)
    case (3 q)
    have "snd q \<noteq> target" if "count ps (t, target) = 0"
      using in_map [OF 3] 3 that e by (cases q) (auto simp: not_in_iff [symmetric])
    then show ?case using in_map [OF 3] h by (auto simp: localRelease_def p Let_def)
  next
    case (4 target' t')
    then show ?case using D(4) [of target' t'] D(5) [OF e, of target'] h
      by (auto simp: localRelease_def p Let_def split: if_splits)
  next
    case (5 a b t')
    then show ?case using D(5) [of a t' b] by (auto simp: localRelease_def p Let_def split: if_splits)
  qed (use D in \<open>auto simp: localRelease_def p Let_def\<close>)
qed

section \<open>Any use of the limiter\<close>

text \<open>Goroutines take permits and give back permits they hold, each once, in any order.\<close>

inductive limiter_run :: "int \<Rightarrow> int \<Rightarrow> Limiter \<Rightarrow> permit multiset \<Rightarrow> bool" for global target where
  run_new: "limiter_run global target (New global target) {#}"
| run_take: "limiter_run global target l ps \<Longrightarrow> Limiter_local name l = (Some p, l') \<Longrightarrow>
    limiter_run global target l' (add_mset p ps)"
| run_refused: "limiter_run global target l ps \<Longrightarrow> Limiter_local name l = (None, l') \<Longrightarrow>
    limiter_run global target l' ps"
| run_release: "limiter_run global target l (add_mset p ps) \<Longrightarrow>
    limiter_run global target (localRelease p l) ps"

lemma Limiter_local_max:
  "Limiter_local name l = (res, l') \<Longrightarrow> lMaxGlobal l' = lMaxGlobal l \<and> lMaxTarget l' = lMaxTarget l"
  by (auto simp: Limiter_local_def counter_def Let_def split: option.splits if_splits)

lemma localRelease_max: "lMaxGlobal (localRelease p l) = lMaxGlobal l \<and> lMaxTarget (localRelease p l) = lMaxTarget l"
  by (simp add: localRelease_def Let_def)

lemma limiter_run_ok:
  "limiter_run g t l ps \<Longrightarrow> lim_ok l ps \<and> lMaxGlobal l = g \<and> lMaxTarget l = t"
proof (induction rule: limiter_run.induct)
  case run_new
  then show ?case by (simp add: lim_ok_New) (simp add: New_def)
next
  case (run_take l ps name p l')
  then show ?case using Limiter_local_ok [of l ps name "Some p" l'] Limiter_local_max by auto
next
  case (run_refused l ps name l')
  then show ?case using Limiter_local_ok [of l ps name None l'] Limiter_local_max by auto
next
  case (run_release l p ps)
  then show ?case using localRelease_ok localRelease_max by auto
qed

text \<open>All permits of one target are for one counter, so their number is that counter.\<close>

lemma target_permits:
  assumes "lim_ok l ps"
  shows "int (size (filter_mset (\<lambda>p. snd p = name) ps)) =
    (case lTargets l name of None \<Rightarrow> 0 | Some t \<Rightarrow> lHeap l t)"
proof (cases "lTargets l name")
  case None
  then have "filter_mset (\<lambda>p. snd p = name) ps = {#}"
    using lim_okD(3) [OF assms] by (auto simp: filter_mset_eq_conv)
  then show ?thesis by (simp add: None)
next
  case (Some t)
  have "filter_mset (\<lambda>p. snd p = name) ps = filter_mset (\<lambda>p. p = (t, name)) ps"
    using lim_okD(3) [OF assms] Some by (intro filter_mset_cong) auto
  then show ?thesis using lim_okD(4) [OF assms Some] Some by (simp add: filter_eq_replicate_mset)
qed

text \<open>
  The local limiter never gives out more permits than configured, in total and per target,
  whatever goroutines acquire and release in whatever order, and its counters are always the number
  of permits in use, also across the deletion and re-creation of a target's counter.
\<close>

theorem limiter_bounds:
  assumes "limiter_run g t l ps"
  shows "lActive l = int (size ps) \<and> int (size ps) \<le> max 0 g
    \<and> int (size (filter_mset (\<lambda>p. snd p = name) ps)) = (case lTargets l name of None \<Rightarrow> 0 | Some c \<Rightarrow> lHeap l c)
    \<and> int (size (filter_mset (\<lambda>p. snd p = name) ps)) \<le> max 0 t"
proof -
  from limiter_run_ok [OF assms] have ok: "lim_ok l ps" and m: "lMaxGlobal l = g" "lMaxTarget l = t" by auto
  show ?thesis
    using target_permits [OF ok, of name] lim_okD(1,2) [OF ok] lim_okD(4) [OF ok, of name] m
    by (auto split: option.splits)
qed

definition ex_limiter :: Limiter where
  "ex_limiter = snd (Limiter_local ''t'' (New 5 1))"

theorem limiter_bounds_witness:
  "Limiter_local ''t'' (New 5 1) = (Some (0, ''t''), ex_limiter) \<and> lActive ex_limiter = 1
   \<and> fst (Limiter_local ''t'' ex_limiter) = None"
proof -
  have l: "Limiter_local ''t'' (New 5 1) = (Some (0, ''t''), ex_limiter)"
    by (simp add: ex_limiter_def Limiter_local_def counter_def New_def)
  have "limiter_run 5 1 ex_limiter {#(0, ''t'')#}" using run_take [OF run_new l] by simp
  from limiter_bounds [OF this] l show ?thesis
    by (simp add: ex_limiter_def Limiter_local_def counter_def New_def)
qed

text \<open>
  A refused request leaves the counters as they were, and releasing what was just acquired
  restores them.
\<close>

theorem limiter_no_leak:
  assumes "limiter_run g t l ps" and "Limiter_local name l = (res, l')"
  shows "case res of
      None \<Rightarrow> lActive l' = lActive l
        \<and> (\<forall>x. map_option (lHeap l') (lTargets l' x) = map_option (lHeap l) (lTargets l x))
    | Some p \<Rightarrow> lActive (localRelease p l') = lActive l
        \<and> (\<forall>x. map_option (lHeap (localRelease p l')) (lTargets (localRelease p l') x) =
              map_option (lHeap l) (lTargets l x))"
proof -
  have eq: "map_option (lHeap k) (lTargets k x) = map_option (lHeap l) (lTargets l x)"
    if "lim_ok k ps" for k x
  proof -
    have "lim_ok l ps" using limiter_run_ok [OF assms(1)] by simp
    then have "(case lTargets k x of None \<Rightarrow> 0 | Some c \<Rightarrow> lHeap k c) = (case lTargets l x of None \<Rightarrow> 0 | Some c \<Rightarrow> lHeap l c)"
      using target_permits [OF that, of x] target_permits [of l ps x] by simp
    then show ?thesis
      using lim_okD(4) [OF that, of x] lim_okD(4) [OF \<open>lim_ok l ps\<close>, of x] by (auto simp: not_in_iff [symmetric] split: option.splits)
  qed
  have ok: "lim_ok l ps" using limiter_run_ok [OF assms(1)] by simp
  show ?thesis
    using Limiter_local_ok [OF ok assms(2)] lim_okD(1) [OF ok]
    by (cases res) (auto dest: lim_okD(1) localRelease_ok eq)
qed

theorem limiter_no_leak_witness:
  "lActive (localRelease (0, ''t'') ex_limiter) = 0 \<and> lTargets (localRelease (0, ''t'') ex_limiter) ''t'' = None"
proof -
  have l: "Limiter_local ''t'' (New 5 1) = (Some (0, ''t''), ex_limiter)"
    by (simp add: ex_limiter_def Limiter_local_def counter_def New_def)
  from limiter_no_leak [OF run_new l] show ?thesis by (auto simp: New_def)
qed

end
