(* ===== verification/Quota.thy ===== *)
theory Quota
  imports Limiter Domain
begin

text \<open>
  The Redis part of \<^verbatim>\<open>internal/quota/quota.go\<close>: the three Lua scripts over the keys they use,
  and \<^verbatim>\<open>Ingress\<close> and \<^verbatim>\<open>Acquire\<close> of the \<^verbatim>\<open>Limiter\<close>.
  A key holds a hash with the fields \<^verbatim>\<open>window\<close> and \<^verbatim>\<open>count\<close>, or a sorted set of tokens with their
  expiry as score, and expires itself; a script runs at one instant, given in microseconds.
\<close>

section \<open>Redis keys\<close>

record rate_key =
  kWindow :: int
  kCount :: int
  kExpire :: int

record slot_key =
  kTokens :: "(string \<times> int) list"
  kUntil :: int

record redis =
  rates :: "string \<Rightarrow> rate_key option"
  slots :: "string \<Rightarrow> slot_key option"

text \<open>A key whose time to live has passed reads as absent.\<close>

definition rate_at :: "redis \<Rightarrow> int \<Rightarrow> string \<Rightarrow> rate_key option" where
  "rate_at r us k = (case rates r k of
       None \<Rightarrow> None | Some v \<Rightarrow> if us div 1000 > kExpire v then None else Some v)"

definition slot_at :: "redis \<Rightarrow> int \<Rightarrow> string \<Rightarrow> (string \<times> int) list" where
  "slot_at r us k = (case slots r k of
       None \<Rightarrow> [] | Some v \<Rightarrow> if us div 1000 > kUntil v then [] else kTokens v)"

section \<open>The scripts\<close>

text \<open>\<^verbatim>\<open>HMGET\<close> and the comparison that refuses: the window is the second of the clock.\<close>

definition rate_full :: "redis \<Rightarrow> int \<Rightarrow> string \<times> int \<Rightarrow> bool" where
  "rate_full r us = (\<lambda>(k, limit). limit > 0 \<and>
     (case rate_at r us k of None \<Rightarrow> False | Some v \<Rightarrow> kWindow v = us div 1000000 \<and> kCount v \<ge> limit))"

text \<open>The second loop: restart the count in a new window, increment, expire after two seconds.\<close>

definition rate_bump :: "int \<Rightarrow> redis \<Rightarrow> string \<times> int \<Rightarrow> redis" where
  "rate_bump us r = (\<lambda>(k, limit).
     if limit > 0 then
       (let c = (case rate_at r us k of
                   None \<Rightarrow> 0 | Some v \<Rightarrow> if kWindow v = us div 1000000 then kCount v else 0)
        in r\<lparr>rates := (rates r)(k \<mapsto> \<lparr>kWindow = us div 1000000, kCount = c + 1,
                                     kExpire = us div 1000 + 2000\<rparr>)\<rparr>)
     else r)"

definition rateScript :: "(string \<times> int) list \<Rightarrow> int \<Rightarrow> redis \<Rightarrow> int \<times> redis" where
  "rateScript keys us r =
     (if list_ex (rate_full r us) keys then (0, r) else (1, foldl (rate_bump us) r keys))"

text \<open>\<^verbatim>\<open>ZREMRANGEBYSCORE\<close> up to the clock; a set left empty is deleted.\<close>

definition slot_prune :: "int \<Rightarrow> string \<Rightarrow> redis \<Rightarrow> redis" where
  "slot_prune us k r =
     (case slots r k of None \<Rightarrow> r | Some v \<Rightarrow>
        (let ts = filter (\<lambda>(_, score). score > us div 1000) (slot_at r us k)
         in r\<lparr>slots := (slots r)(k := if ts = [] then None else Some (v\<lparr>kTokens := ts\<rparr>))\<rparr>))"

fun slot_check :: "int \<Rightarrow> (string \<times> int) list \<Rightarrow> redis \<Rightarrow> bool \<times> redis" where
  "slot_check us [] r = (True, r)"
| "slot_check us ((k, limit) # ks) r =
     (let r1 = slot_prune us k r in
      if limit > 0 \<and> int (length (slot_at r1 us k)) \<ge> limit then (False, r1) else slot_check us ks r1)"

definition slot_add :: "int \<Rightarrow> string \<Rightarrow> redis \<Rightarrow> string \<times> int \<Rightarrow> redis" where
  "slot_add us token r = (\<lambda>(k, limit).
     if limit > 0 then
       r\<lparr>slots := (slots r)(k \<mapsto> \<lparr>kTokens = filter (\<lambda>(m, _). m \<noteq> token) (slot_at r us k) @ [(token, us div 1000 + 60000)],
                                   kUntil = us div 1000 + 65000\<rparr>)\<rparr>
     else r)"

definition egressScript ::
  "(string \<times> int) list \<Rightarrow> (string \<times> int) list \<Rightarrow> string \<Rightarrow> int \<Rightarrow> redis \<Rightarrow> int \<times> redis" where
  "egressScript rate_keys slot_keys token us r =
     (if list_ex (rate_full r us) rate_keys then (0, r)
      else case slot_check us slot_keys r of
             (False, r1) \<Rightarrow> (0, r1)
           | (True, r1) \<Rightarrow> (1, foldl (slot_add us token) (foldl (rate_bump us) r1 rate_keys) slot_keys))"

definition releaseScript :: "string list \<Rightarrow> string \<Rightarrow> redis \<Rightarrow> redis" where
  "releaseScript keys token r =
     foldl (\<lambda>r k. case slots r k of None \<Rightarrow> r | Some v \<Rightarrow>
        (let ts = filter (\<lambda>(m, _). m \<noteq> token) (kTokens v)
         in r\<lparr>slots := (slots r)(k := if ts = [] then None else Some (v\<lparr>kTokens := ts\<rparr>))\<rparr>)) r keys"

section \<open>Ingress and Acquire\<close>

text \<open>
  A script call through the client: \<open>None\<close> answers; \<open>Some applied\<close> is an error of the connection or
  its 500 ms limit, after which the script may have run.
\<close>

definition run_script :: "bool option \<Rightarrow> (redis \<Rightarrow> int \<times> redis) \<Rightarrow> redis \<Rightarrow> int option \<times> redis" where
  "run_script fault script r =
     (case fault of
        None \<Rightarrow> (Some (fst (script r)), snd (script r))
      | Some applied \<Rightarrow> (None, if applied then snd (script r) else r))"

definition redis_error :: error where
  "redis_error = OtherError ''redis''"

type_synonym quota_state = "Limiter \<times> redis"

definition ingress_keys :: "string \<Rightarrow> Quota \<Rightarrow> (string \<times> int) list" where
  "ingress_keys client q =
     [(''notify:{quota}:ingress:global'', qIngressGlobal q),
      (''notify:{quota}:ingress:client:'' @ client, qIngressClient q)]"

definition Ingress ::
  "bool option \<Rightarrow> int \<Rightarrow> string \<Rightarrow> Quota \<Rightarrow> quota_state \<Rightarrow> (error + bool) \<times> quota_state" where
  "Ingress fault us client q = (\<lambda>(l, r).
     case run_script fault (rateScript (ingress_keys client q) us) r of
       (None, r') \<Rightarrow>
         (if qFailMode q = ''open'' then Inr True else Inl redis_error, (l\<lparr>lDegraded := True\<rparr>, r'))
     | (Some n, r') \<Rightarrow>
         (Inr (n = 1),
          (l\<lparr>lDegraded := False, lRejected := (if n = 0 then uint64_inc (lRejected l) else lRejected l)\<rparr>, r')))"

text \<open>The release a caller gets: the local one alone, or the one that also frees the Redis slots.\<close>

datatype release = LocalRelease permit | FullRelease permit "string list" string

definition egress_rate_keys :: "Notification \<Rightarrow> Quota \<Rightarrow> (string \<times> int) list" where
  "egress_rate_keys n q =
     [(''notify:{quota}:egress:target:'' @ nTarget n, qEgressTarget q),
      (''notify:{quota}:egress:client_target:'' @ nClient n @ '':'' @ nTarget n, qEgressClientTarget q)]"

definition egress_slot_keys :: "Notification \<Rightarrow> Quota \<Rightarrow> (string \<times> int) list" where
  "egress_slot_keys n q =
     [(''notify:{quota}:concurrency:global'', qGlobalConcurrency q),
      (''notify:{quota}:concurrency:target:'' @ nTarget n, qTargetConcurrency q)]"

definition Acquire ::
  "bool option \<Rightarrow> int \<Rightarrow> ID \<Rightarrow> Notification \<Rightarrow> Quota \<Rightarrow> quota_state \<Rightarrow> (error + release option) \<times> quota_state" where
  "Acquire fault us fresh n q = (\<lambda>(l, r).
     case Limiter_local (nTarget n) l of
       (None, l1) \<Rightarrow> (Inr None, (l1\<lparr>lRejected := uint64_inc (lRejected l1)\<rparr>, r))
     | (Some p, l1) \<Rightarrow>
         (let token = ID_String fresh in
          case run_script fault (egressScript (egress_rate_keys n q) (egress_slot_keys n q) token us) r of
            (None, r') \<Rightarrow>
              if qFailMode q = ''open'' then (Inr (Some (LocalRelease p)), (l1\<lparr>lDegraded := True\<rparr>, r'))
              else (Inl redis_error, (localRelease p (l1\<lparr>lDegraded := True\<rparr>), r'))
          | (Some allowed, r') \<Rightarrow>
              let l2 = l1\<lparr>lDegraded := False\<rparr> in
              if allowed \<noteq> 1 then
                (let l3 = localRelease p l2 in (Inr None, (l3\<lparr>lRejected := uint64_inc (lRejected l3)\<rparr>, r')))
              else (Inr (Some (FullRelease p (map fst (egress_slot_keys n q)) token)), (l2, r'))))"

text \<open>Calling a release; the flag is its \<^verbatim>\<open>sync.Once\<close>, which the local release does not have.\<close>

definition Release :: "bool option \<Rightarrow> release \<Rightarrow> bool \<Rightarrow> quota_state \<Rightarrow> bool \<times> quota_state" where
  "Release fault rel called = (\<lambda>(l, r).
     case rel of
       LocalRelease p \<Rightarrow> (called, (localRelease p l, r))
     | FullRelease p keys token \<Rightarrow>
         if called then (True, (l, r))
         else (True, (localRelease p l,
                snd (run_script fault (\<lambda>r. (1, releaseScript keys token r)) r))))"

section \<open>Rate limits\<close>

definition used :: "redis \<Rightarrow> int \<Rightarrow> string \<Rightarrow> int" where
  "used r us k = (case rate_at r us k of
     None \<Rightarrow> 0 | Some v \<Rightarrow> if kWindow v = us div 1000000 then kCount v else 0)"

lemma rate_bump_used:
  "used (rate_bump us r (k, limit)) us k' = (if k' = k \<and> limit > 0 then used r us k' + 1 else used r us k')"
  by (simp add: used_def rate_bump_def rate_at_def Let_def split: option.splits)

lemma rate_full_used: "limit > 0 \<Longrightarrow> rate_full r us (k, limit) = (used r us k \<ge> limit)"
  by (auto simp: rate_full_def used_def split: option.splits)

text \<open>A sequence of calls of the script, each with its keys and its instant: how many were admitted.\<close>

fun rate_runs :: "((string \<times> int) list \<times> int) list \<Rightarrow> redis \<Rightarrow> nat" where
  "rate_runs [] r = 0"
| "rate_runs ((keys, us) # calls) r =
     (case rateScript keys us r of (n, r') \<Rightarrow> (if n = 1 then 1 else 0) + rate_runs calls r')"

text \<open>\<open>c\<close> admissions of the second \<open>w\<close> are on record; within the second the key cannot expire.\<close>

definition recorded :: "redis \<Rightarrow> int \<Rightarrow> string \<Rightarrow> int \<Rightarrow> bool" where
  "recorded r w k c \<longleftrightarrow> c = 0 \<or> (case rates r k of None \<Rightarrow> False | Some v \<Rightarrow>
     kWindow v = w \<and> kCount v \<ge> c \<and> kExpire v \<ge> w * 1000 + 2000)"

lemma second_of_ms:
  fixes us :: int
  shows "us div 1000000 * 1000 \<le> us div 1000" "us div 1000 < us div 1000000 * 1000 + 1000"
proof -
  have "us div 1000000 = us div 1000 div 1000" using zdiv_zmult2_eq [of 1000 us 1000] by simp
  moreover have "us div 1000 = us div 1000 div 1000 * 1000 + us div 1000 mod 1000" by simp
  moreover have "0 \<le> us div 1000 mod 1000" "us div 1000 mod 1000 < 1000" by simp_all
  ultimately show "us div 1000000 * 1000 \<le> us div 1000" "us div 1000 < us div 1000000 * 1000 + 1000"
    by linarith+
qed

lemma recorded_used:
  assumes "recorded r (us div 1000000) k c" and "0 \<le> used r us k"
  shows "c \<le> used r us k"
proof -
  from second_of_ms(2) [of us] assms show ?thesis
    by (auto simp: recorded_def used_def rate_at_def split: option.splits)
qed

definition counts_ok :: "redis \<Rightarrow> bool" where
  "counts_ok r \<longleftrightarrow> (\<forall>k v. rates r k = Some v \<longrightarrow> 0 \<le> kCount v)"

lemma counts_used: "counts_ok r \<Longrightarrow> 0 \<le> used r us k"
  by (auto simp: counts_ok_def used_def rate_at_def split: option.splits)

lemma bump_counts: "counts_ok r \<Longrightarrow> counts_ok (rate_bump us r a)"
  using counts_used [of r us "fst a"]
  by (cases a) (auto simp: counts_ok_def rate_bump_def Let_def used_def split: if_splits)

lemma foldl_bump_counts: "counts_ok r \<Longrightarrow> counts_ok (foldl (rate_bump us) r keys)"
  by (induction keys arbitrary: r) (auto intro: bump_counts)

lemma bump_other: "fst a \<noteq> k \<Longrightarrow> rates (rate_bump us r a) k = rates r k"
  by (cases a) (simp add: rate_bump_def Let_def)

lemma foldl_bump_rates:
  assumes "distinct (map fst keys)" and "(k, limit) \<in> set keys" and "limit > 0"
  shows "rates (foldl (rate_bump us) r keys) k =
    Some \<lparr>kWindow = us div 1000000, kCount = used r us k + 1, kExpire = us div 1000 + 2000\<rparr>"
  using assms
proof (induction keys arbitrary: r)
  case (Cons a keys)
  have other: "k \<notin> fst ` set ks \<Longrightarrow> rates (foldl (rate_bump us) s ks) k = rates s k" for s ks
    by (induction ks arbitrary: s) (auto simp: bump_other)
  show ?case
  proof (cases "a = (k, limit)")
    case True
    then have "k \<notin> fst ` set keys" using Cons.prems(1) by simp
    moreover have "rates (rate_bump us r (k, limit)) k =
        Some \<lparr>kWindow = us div 1000000, kCount = used r us k + 1, kExpire = us div 1000 + 2000\<rparr>"
      using Cons.prems(3) by (simp add: rate_bump_def used_def Let_def)
    ultimately show ?thesis using other [of keys] True by simp
  next
    case False
    then have mem: "(k, limit) \<in> set keys" using Cons.prems(2) by auto
    then have ne: "fst a \<noteq> k" using Cons.prems(1) by (auto simp: rev_image_eqI)
    then have "used (rate_bump us r a) us k = used r us k" by (cases a) (simp add: rate_bump_used)
    then show ?thesis using Cons.IH [of "rate_bump us r a"] Cons.prems mem by simp
  qed
qed simp

text \<open>
  C37: a rate limit holds. Of any calls made within one second of the Redis clock that share a
  dimension with a positive limit, at most that many are admitted, whatever the keys held before and
  whatever the other dimensions of the calls are.
\<close>

theorem rate_limit_holds:
  assumes "\<forall>(keys, us)\<in>set calls. us div 1000000 = w \<and> distinct (map fst keys) \<and> (k, limit) \<in> set keys"
    and "limit > 0" and "counts_ok r"
  shows "int (rate_runs calls r) \<le> limit"
proof -
  have "recorded r w k c \<Longrightarrow> 0 \<le> c \<Longrightarrow> c \<le> limit \<Longrightarrow> counts_ok r \<Longrightarrow> c + int (rate_runs calls r) \<le> limit" for c
    using assms(1)
  proof (induction calls arbitrary: r c)
    case (Cons a calls)
    obtain keys us where a: "a = (keys, us)" by (cases a)
    have w: "us div 1000000 = w" and dist: "distinct (map fst keys)" and mem: "(k, limit) \<in> set keys"
      using Cons.prems(5) by (auto simp: a)
    show ?case
    proof (cases "list_ex (rate_full r us) keys")
      case True
      then show ?thesis using Cons by (simp add: a rateScript_def)
    next
      case False
      let ?r = "foldl (rate_bump us) r keys"
      have "used r us k < limit"
        using False mem rate_full_used [OF assms(2), of r us k] by (auto simp: list_ex_iff)
      moreover have "c \<le> used r us k"
        using recorded_used [of r us k c] Cons.prems(1) counts_used [OF Cons.prems(4)] w by simp
      moreover have "recorded ?r w k (c + 1)"
      proof -
        from second_of_ms(1) [of us] foldl_bump_rates [OF dist mem assms(2), of us r] \<open>c \<le> used r us k\<close> w
        show ?thesis by (simp add: recorded_def)
      qed
      ultimately have "(c + 1) + int (rate_runs calls ?r) \<le> limit"
        using Cons.IH [of ?r "c + 1"] Cons.prems(2,5) foldl_bump_counts [OF Cons.prems(4)] by simp
      then show ?thesis using False by (simp add: a rateScript_def)
    qed
  qed simp
  from this [of 0] assms(2,3) show ?thesis by (simp add: recorded_def)
qed

definition ex_redis :: redis where
  "ex_redis = \<lparr>rates = (\<lambda>_. None), slots = (\<lambda>_. None)\<rparr>"

theorem rate_limit_holds_witness:
  "rate_runs [([(''g'', 2)], 1000000), ([(''g'', 2)], 1400000), ([(''g'', 2)], 1999999)] ex_redis = 2
   \<and> int (rate_runs [([(''g'', 2)], 1000000), ([(''g'', 2)], 1400000), ([(''g'', 2)], 1999999)] ex_redis) \<le> 2"
proof -
  have "rate_runs [([(''g'', 2)], 1000000), ([(''g'', 2)], 1400000), ([(''g'', 2)], 1999999)] ex_redis = 2"
    by (simp add: rateScript_def rate_full_def rate_bump_def rate_at_def ex_redis_def)
  moreover have "int (rate_runs [([(''g'', 2)], 1000000), ([(''g'', 2)], 1400000), ([(''g'', 2)], 1999999)] ex_redis) \<le> 2"
    by (rule rate_limit_holds [where w = 1 and k = "''g''"]) (simp_all add: counts_ok_def ex_redis_def)
  ultimately show ?thesis by simp
qed

lemma used_bump_untouched: "(\<forall>limit. (k, limit) \<in> set keys \<longrightarrow> \<not> limit > 0) \<Longrightarrow>
    rates (foldl (rate_bump us) r keys) k = rates r k"
proof (induction keys arbitrary: r)
  case (Cons a keys)
  then have "rates (rate_bump us r a) k = rates r k"
    by (cases a) (auto simp: rate_bump_def Let_def)
  with Cons show ?case by simp
qed simp

text \<open>
  Admission is all or nothing. A refused call changes no counter of any dimension; an admitted
  one adds one to every dimension with a positive limit and touches no other.
\<close>

theorem rate_all_or_nothing:
  assumes "distinct (map fst keys)" and "rateScript keys us r = (n, r')"
  shows "n = 0 \<and> r' = r
    \<or> n = 1 \<and> (\<forall>k. used r' us k = used r us k + (if \<exists>limit > 0. (k, limit) \<in> set keys then 1 else 0))"
proof (cases "list_ex (rate_full r us) keys")
  case False
  then have n: "n = 1" "r' = foldl (rate_bump us) r keys" using assms(2) by (simp_all add: rateScript_def)
  have "used r' us k = used r us k + (if \<exists>limit > 0. (k, limit) \<in> set keys then 1 else 0)" for k
  proof (cases "\<exists>limit > 0. (k, limit) \<in> set keys")
    case True
    then obtain limit where "limit > 0" "(k, limit) \<in> set keys" by blast
    then have "rates r' k = Some \<lparr>kWindow = us div 1000000, kCount = used r us k + 1, kExpire = us div 1000 + 2000\<rparr>"
      unfolding n(2) by (intro foldl_bump_rates [OF assms(1)])
    with True show ?thesis by (simp add: used_def rate_at_def)
  next
    case False
    then have "rates r' k = rates r k" unfolding n(2) by (intro used_bump_untouched) auto
    with False show ?thesis by (simp add: used_def rate_at_def)
  qed
  with n show ?thesis by simp
qed (use assms(2) in \<open>simp add: rateScript_def\<close>)

theorem rate_all_or_nothing_witness:
  "\<exists>r'. rateScript (ingress_keys ''c'' (zero_Quota\<lparr>qIngressClient := 3\<rparr>)) 1000000 ex_redis = (1, r')
     \<and> used r' 1000000 ''notify:{quota}:ingress:client:c'' = 1
     \<and> used r' 1000000 ''notify:{quota}:ingress:global'' = 0"
proof -
  let ?keys = "ingress_keys ''c'' (zero_Quota\<lparr>qIngressClient := 3\<rparr>)"
  define r' where "r' = snd (rateScript ?keys 1000000 ex_redis)"
  have run: "rateScript ?keys 1000000 ex_redis = (1, r')"
    by (simp add: r'_def rateScript_def rate_full_def rate_at_def ex_redis_def ingress_keys_def)
  have "distinct (map fst ?keys)" by (simp add: ingress_keys_def)
  from rate_all_or_nothing [OF this run] run show ?thesis
    by (intro exI [of _ r'])
      (auto simp: ingress_keys_def zero_Quota_def used_def rate_at_def ex_redis_def split: if_splits)
qed

section \<open>Concurrency slots\<close>

lemma prune_slots:
  "slot_at (slot_prune us k r) us k' =
    (if k' = k then filter (\<lambda>(_, score). score > us div 1000) (slot_at r us k) else slot_at r us k')"
  by (auto simp: slot_prune_def slot_at_def Let_def split: option.splits)

lemma slot_check_other:
  "slot_check us ks r = (b, r1) \<Longrightarrow> k \<notin> fst ` set ks \<Longrightarrow> slot_at r1 us k = slot_at r us k"
  by (induction us ks r rule: slot_check.induct) (auto simp: Let_def prune_slots split: if_splits)

lemma slot_check_free:
  "slot_check us ks r = (True, r1) \<Longrightarrow> distinct (map fst ks) \<Longrightarrow> (k, limit) \<in> set ks \<Longrightarrow> limit > 0 \<Longrightarrow>
    int (length (slot_at r1 us k)) < limit"
proof (induction us ks r rule: slot_check.induct)
  case (2 us k0 limit0 ks r)
  show ?case
  proof (cases "(k, limit) = (k0, limit0)")
    case True
    then have "slot_at r1 us k = slot_at (slot_prune us k0 r) us k"
      using 2 by (intro slot_check_other [of us ks]) (auto simp: Let_def split: if_splits)
    with True 2 show ?thesis by (auto simp: Let_def split: if_splits)
  next
    case False
    with 2 show ?thesis by (auto simp: Let_def split: if_splits)
  qed
qed simp

lemma bump_slots: "slots (rate_bump us r a) = slots r"
  by (cases a) (simp add: rate_bump_def Let_def)

lemma foldl_bump_slots: "slots (foldl (rate_bump us) r keys) = slots r"
  by (induction keys arbitrary: r) (auto simp: bump_slots)

lemma slot_add_at:
  "slot_at (slot_add us token r (k, limit)) us k' =
    (if k' = k \<and> limit > 0 then filter (\<lambda>(m, _). m \<noteq> token) (slot_at r us k) @ [(token, us div 1000 + 60000)]
     else slot_at r us k')"
  by (auto simp: slot_add_def slot_at_def split: option.splits)

lemma foldl_slot_add:
  assumes "distinct (map fst ks)" and "(k, limit) \<in> set ks" and "limit > 0"
  shows "slot_at (foldl (slot_add us token) r ks) us k =
    filter (\<lambda>(m, _). m \<noteq> token) (slot_at r us k) @ [(token, us div 1000 + 60000)]"
  using assms
proof (induction ks arbitrary: r)
  case (Cons a ks)
  have other: "k \<notin> fst ` set xs \<Longrightarrow> slot_at (foldl (slot_add us token) s xs) us k = slot_at s us k" for s xs
    by (induction xs arbitrary: s) (auto simp: slot_add_at)
  show ?case
  proof (cases "a = (k, limit)")
    case True
    then have "k \<notin> fst ` set ks" using Cons.prems(1) by simp
    then show ?thesis using other [of ks] Cons.prems(3) True by (simp add: slot_add_at)
  next
    case False
    then have mem: "(k, limit) \<in> set ks" using Cons.prems(2) by auto
    then have "fst a \<noteq> k" using Cons.prems(1) by (auto simp: rev_image_eqI)
    then have "slot_at (slot_add us token r a) us k = slot_at r us k" by (cases a) (simp add: slot_add_at)
    then show ?thesis using Cons mem by simp
  qed
qed simp

text \<open>
  C38: a concurrency limit holds. After an egress call is admitted, the set of every dimension with a
  positive limit holds the new token, until 60 seconds later, and at most as many tokens as the limit.
\<close>

theorem concurrency_limit_holds:
  assumes "egressScript rate_keys slot_keys token us r = (1, r')" and "distinct (map fst slot_keys)"
    and "(k, limit) \<in> set slot_keys" and "limit > 0"
  shows "(token, us div 1000 + 60000) \<in> set (slot_at r' us k) \<and> int (length (slot_at r' us k)) \<le> limit"
proof -
  from assms(1) obtain r1 where r1: "slot_check us slot_keys r = (True, r1)"
    and r': "r' = foldl (slot_add us token) (foldl (rate_bump us) r1 rate_keys) slot_keys"
    by (auto simp: egressScript_def split: if_splits prod.splits bool.splits)
  have "slot_at r' us k = filter (\<lambda>(m, _). m \<noteq> token) (slot_at r1 us k) @ [(token, us div 1000 + 60000)]"
    using foldl_slot_add [OF assms(2-4)] by (simp add: r' slot_at_def foldl_bump_slots)
  moreover have "length (filter (\<lambda>(m, _). m \<noteq> token) (slot_at r1 us k)) \<le> length (slot_at r1 us k)"
    by (rule length_filter_le)
  ultimately show ?thesis using slot_check_free [OF r1 assms(2-4)] by (simp del: length_filter_le)
qed

theorem concurrency_limit_holds_witness:
  "\<exists>r'. egressScript [] [(''g'', 1)] ''t1'' 0 ex_redis = (1, r')
     \<and> (''t1'', 60000) \<in> set (slot_at r' 0 ''g'') \<and> int (length (slot_at r' 0 ''g'')) \<le> 1
     \<and> fst (egressScript [] [(''g'', 1)] ''t2'' 59000000 r') = 0"
proof -
  define r' where "r' = snd (egressScript [] [(''g'', 1)] ''t1'' 0 ex_redis)"
  have run: "egressScript [] [(''g'', 1)] ''t1'' 0 ex_redis = (1, r')"
    by (simp add: r'_def egressScript_def slot_prune_def slot_at_def ex_redis_def)
  have "fst (egressScript [] [(''g'', 1)] ''t2'' 59000000 r') = 0"
    by (simp add: r'_def egressScript_def slot_prune_def slot_at_def slot_add_def ex_redis_def)
  with concurrency_limit_holds [OF run, of "''g''" 1] run show ?thesis by auto
qed

section \<open>The gate\<close>

text \<open>
  What the worker relies on of \<^verbatim>\<open>Gate\<close>: a refusal or an error leaves nothing behind, and the
  release returned on success gives back exactly what was taken. \<open>holds s ps\<close> says that the state \<open>s\<close>
  accounts for the permits \<open>ps\<close>.
\<close>

locale gate =
  fixes acquire :: "'i \<Rightarrow> 's \<Rightarrow> (error + 'p option) \<times> 's"
    and release :: "'p \<Rightarrow> 's \<Rightarrow> 's"
    and holds :: "'s \<Rightarrow> 'h multiset \<Rightarrow> bool"
    and held :: "'p \<Rightarrow> 'h"
  assumes failed: "holds s ps \<Longrightarrow> acquire i s = (Inl x, s') \<Longrightarrow> holds s' ps"
    and refused: "holds s ps \<Longrightarrow> acquire i s = (Inr None, s') \<Longrightarrow> holds s' ps"
    and acquired: "holds s ps \<Longrightarrow> acquire i s = (Inr (Some p), s') \<Longrightarrow> holds s' (add_mset (held p) ps)"
    and released: "holds s (add_mset (held p) ps) \<Longrightarrow> holds (release p s) ps"
begin

lemma balanced:
  assumes "holds s ps" and "acquire i s = (res, s')"
  shows "holds (case res of Inr (Some p) \<Rightarrow> release p s' | _ \<Rightarrow> s') ps"
  using assms by (auto split: sum.splits option.splits intro: failed refused released acquired)

end

lemma lim_ok_flags [simp]:
  "lim_ok (l\<lparr>lDegraded := b\<rparr>) ps = lim_ok l ps" "lim_ok (l\<lparr>lRejected := n\<rparr>) ps = lim_ok l ps"
  by (simp_all add: lim_ok_def)

definition permit_of :: "release \<Rightarrow> permit" where
  "permit_of rel = (case rel of LocalRelease p \<Rightarrow> p | FullRelease p _ _ \<Rightarrow> p)"

lemma Acquire_ok:
  assumes "lim_ok (fst st) ps" and "Acquire fault us fresh n q st = (res, st')"
  shows "lim_ok (fst st') (case res of Inr (Some rel) \<Rightarrow> add_mset (permit_of rel) ps | _ \<Rightarrow> ps)"
proof -
  obtain l r where st: "st = (l, r)" by (cases st)
  obtain p l1 where loc: "Limiter_local (nTarget n) l = (p, l1)" by (cases "Limiter_local (nTarget n) l")
  from assms(1) have ok: "lim_ok l ps" by (simp add: st)
  note l1 = Limiter_local_ok [OF ok loc]
  show ?thesis
  proof (cases p)
    case None
    with l1 loc assms(2) show ?thesis by (auto simp: Acquire_def st)
  next
    case (Some pm)
    with l1 have "lim_ok l1 (add_mset pm ps)" by simp
    then have "lim_ok l1 (add_mset pm ps)" "lim_ok (localRelease pm (l1\<lparr>lDegraded := b\<rparr>)) ps" for b
      by (auto intro: localRelease_ok)
    with assms(2) loc Some show ?thesis
      by (auto simp: Acquire_def st Let_def permit_of_def split: prod.splits option.splits if_splits)
  qed
qed

lemma Release_ok:
  "lim_ok (fst st) (add_mset (permit_of rel) ps) \<Longrightarrow> lim_ok (fst (snd (Release fault rel False st))) ps"
  by (cases st) (auto simp: Release_def permit_of_def localRelease_ok split: release.splits)

interpretation quota_gate: gate "\<lambda>(fault, us, fresh, n, q). Acquire fault us fresh n q"
  "\<lambda>rel st. snd (Release fault rel False st)" "\<lambda>st. lim_ok (fst st)" permit_of for fault
  by unfold_locales (auto dest: Acquire_ok Release_ok)

text \<open>
  \<^const>\<open>Acquire\<close> leaks no permit. Whatever Redis answers, a refusal or an error leaves the local
  counters at the permits that were in use before, and so does an acquisition followed by its release.
\<close>

theorem Acquire_balanced:
  assumes "lim_ok (fst st) ps" and "Acquire fault us fresh n q st = (res, st')"
  shows "lim_ok (fst (case res of Inr (Some rel) \<Rightarrow> snd (Release fault' rel False st') | _ \<Rightarrow> st')) ps"
  using quota_gate.balanced [of st ps "(fault, us, fresh, n, q)" res st' fault'] assms by simp

definition ex_quota_note :: "string \<Rightarrow> string \<Rightarrow> Notification \<Rightarrow> Notification" where
  "ex_quota_note client target n = n\<lparr>nClient := client, nTarget := target\<rparr>"

theorem Acquire_balanced_witness:
  "\<forall>n. \<exists>st'. Acquire (Some True) 0 (replicate 16 1) (ex_quota_note ''c'' ''t'' n) (zero_Quota\<lparr>qFailMode := ''closed''\<rparr>)
       (New 2 2, ex_redis) = (Inl redis_error, st') \<and> lim_ok (fst st') {#}"
proof
  fix n
  let ?q = "zero_Quota\<lparr>qFailMode := ''closed''\<rparr>" and ?n = "ex_quota_note ''c'' ''t'' n"
  define st' where "st' = snd (Acquire (Some True) 0 (replicate 16 1) ?n ?q (New 2 2, ex_redis))"
  have run: "Acquire (Some True) 0 (replicate 16 1) ?n ?q (New 2 2, ex_redis) = (Inl redis_error, st')"
    by (simp add: st'_def Acquire_def Limiter_local_def counter_def New_def run_script_def
        ex_quota_note_def Let_def)
  from Acquire_balanced [of "(New 2 2, ex_redis)" "{#}", OF _ run] run
  show "\<exists>st'. Acquire (Some True) 0 (replicate 16 1) ?n ?q (New 2 2, ex_redis) = (Inl redis_error, st')
      \<and> lim_ok (fst st') {#}"
    by (simp add: lim_ok_New)
qed

end
