(* ===== verification/Store.thy ===== *)
theory Store
  imports Config
begin

text \<open>
  Package \<^verbatim>\<open>internal/repository/business\<close> over the schema of
  \<^verbatim>\<open>migrations/001_business.sql\<close>: the tables as lists of rows, and one function per method of
  \<^verbatim>\<open>Store\<close>, which takes the database and returns the result with the new database.

  Every source of non-determinism is an argument. An \<^verbatim>\<open>io\<close> says, for one call of a method,
  which of its driver calls report an error (by their order in the method), what its clock reads
  (\<^verbatim>\<open>time.Now\<close> and \<^verbatim>\<open>UTC_TIMESTAMP\<close>) and \<^verbatim>\<open>NewID\<close> calls give,
  and whether a \<^verbatim>\<open>COMMIT\<close> that reports an error was applied all the same. A method that opens
  a transaction is one atomic step: an error before the commit leaves the database as it was
  (\<^verbatim>\<open>defer tx.Rollback()\<close>). A statement outside a transaction commits by itself.

  The order in which SQL returns rows that compare equal is open; here it is the order of the table,
  and the statements below hold for tables in any order.
\<close>

section \<open>The tables\<close>

record task =
  tk_id :: ID
  tk_client :: string
  tk_target :: string
  tk_batch :: "ID option"
  tk_key :: string
  tk_hash :: "byte list"
  tk_request :: string
  tk_mode :: string
  tk_status :: string
  tk_attempts :: nat
  tk_cycle :: nat
  tk_gen :: nat
  tk_next :: gotime
  tk_deadline :: gotime
  tk_lease :: "ID option"
  tk_lease_until :: "gotime option"
  tk_http :: int
  tk_error :: string
  tk_target_rev :: nat
  tk_retry_rev :: nat
  tk_hook_rev :: nat
  tk_config_rev :: nat
  tk_created :: gotime
  tk_updated :: gotime
  tk_delivered :: "gotime option"

record attempt =
  at_task :: ID
  at_no :: nat
  at_gen :: nat
  at_lease :: ID
  at_started :: gotime
  at_finished :: "gotime option"
  at_http :: int
  at_result :: string
  at_error :: string
  at_latency :: int
  at_headers :: "string option"
  at_preview :: "string option"
  at_hash :: "byte list option"
  at_report :: "string option"

record outbox_row =
  ob_id :: nat
  ob_event :: ID
  ob_task :: ID
  ob_gen :: nat
  ob_type :: string
  ob_route :: string
  ob_available :: gotime
  ob_payload :: string
  ob_status :: string
  ob_token :: "ID option"
  ob_lease_until :: "gotime option"
  ob_published :: "gotime option"
  ob_created :: gotime

record batch_row =
  bt_id :: ID
  bt_client :: string
  bt_count :: int
  bt_created :: gotime

text \<open>\<^verbatim>\<open>ob_seq\<close> is the next value of the \<^verbatim>\<open>AUTO_INCREMENT\<close> key of \<^verbatim>\<open>mq_outbox\<close>.\<close>

record db =
  tasks :: "task list"
  attempts :: "attempt list"
  outbox :: "outbox_row list"
  batches :: "batch_row list"
  ob_seq :: nat

definition empty_db :: db where
  "empty_db = \<lparr>tasks = [], attempts = [], outbox = [], batches = [], ob_seq = 1\<rparr>"

text \<open>The ranges of the \<^verbatim>\<open>INT UNSIGNED\<close> and \<^verbatim>\<open>BIGINT UNSIGNED\<close> columns that statements count up.\<close>

definition task_ok :: "task \<Rightarrow> bool" where
  "task_ok r \<longleftrightarrow> tk_attempts r < 2 ^ 32 \<and> tk_cycle r < 2 ^ 32 \<and> tk_gen r < 2 ^ 64"

section \<open>Statements\<close>

text \<open>
  \<^verbatim>\<open>UPDATE\<close>: an out-of-range value is an error (\<^const>\<open>None\<close>); the count is of the rows
  whose values change, as the MySQL protocol reports it.
\<close>

definition sql_update ::
  "('r \<Rightarrow> bool) \<Rightarrow> ('r \<Rightarrow> bool) \<Rightarrow> ('r \<Rightarrow> 'r) \<Rightarrow> 'r list \<Rightarrow> ('r list \<times> nat) option" where
  "sql_update ok P f rows =
     (if list_ex (\<lambda>r. P r \<and> \<not> ok (f r)) rows then None
      else Some (map (\<lambda>r. if P r then f r else r) rows,
                 length (filter (\<lambda>r. P r \<and> f r \<noteq> r) rows)))"

text \<open>\<^verbatim>\<open>UPDATE ... LIMIT k\<close>.\<close>

fun sql_update_limit :: "nat \<Rightarrow> ('r \<Rightarrow> bool) \<Rightarrow> ('r \<Rightarrow> 'r) \<Rightarrow> 'r list \<Rightarrow> 'r list" where
  "sql_update_limit 0 P f rows = rows"
| "sql_update_limit (Suc k) P f [] = []"
| "sql_update_limit (Suc k) P f (r # rows) =
     (if P r then f r # sql_update_limit k P f rows else r # sql_update_limit (Suc k) P f rows)"

record io =
  io_fails :: "nat \<Rightarrow> bool"
  io_applied :: bool
  io_clock :: "nat \<Rightarrow> gotime"
  io_ids :: "nat \<Rightarrow> ID"

definition utc :: "io \<Rightarrow> nat \<Rightarrow> gotime" where
  "utc e k = datetime6 (io_clock e k)"

definition driver_error :: error where
  "driver_error = OtherError ''driver''"

definition json_error :: error where
  "json_error = OtherError ''json''"

text \<open>
  \<^verbatim>\<open>tx.Commit()\<close>, or the end of a statement outside a transaction: call number \<open>k\<close>,
  from \<open>d\<close> to \<open>d'\<close> with result \<open>r\<close>.
\<close>

definition commit :: "io \<Rightarrow> nat \<Rightarrow> db \<Rightarrow> 'a \<Rightarrow> db \<Rightarrow> (error + 'a) \<times> db" where
  "commit e k d r d' =
     (if io_fails e k then (Inl driver_error, if io_applied e then d' else d) else (Inr r, d'))"

section \<open>Reading tasks\<close>

definition Notification_of :: "task \<Rightarrow> Request \<Rightarrow> Notification" where
  "Notification_of r q =
     \<lparr>nID = tk_id r, nClient = tk_client r, nTarget = tk_target r,
      nBatch = (case tk_batch r of Some b \<Rightarrow> if length b = 16 then Some b else None | None \<Rightarrow> None),
      nKey = tk_key r, nHash = tk_hash r, nRequest = q, nMode = tk_mode r, nStatus = tk_status r,
      nAttempts = int (tk_attempts r), nCycleAttempts = int (tk_cycle r), nGeneration = tk_gen r,
      nNext = tk_next r, nDeadline = tk_deadline r,
      nLease = (case tk_lease r of Some t \<Rightarrow> t | None \<Rightarrow> zero_ID),
      nLeaseUntil = (case tk_lease_until r of Some t \<Rightarrow> t | None \<Rightarrow> 0),
      nTargetRevision = tk_target_rev r, nRetryRevision = tk_retry_rev r,
      nHookRevision = tk_hook_rev r, nConfigRevision = tk_config_rev r,
      nCreated = tk_created r, nUpdated = tk_updated r,
      nLastStatus = tk_http r, nLastError = tk_error r\<rparr>"

text \<open>\<^verbatim>\<open>scan\<close>: the argument is what the driver hands over, an error or the row found.\<close>

definition scan :: "codec \<Rightarrow> bool \<Rightarrow> task option \<Rightarrow> error + Notification" where
  "scan J failed row =
     (if failed then Inl driver_error
      else case row of
        None \<Rightarrow> Inl ErrNotFound
      | Some r \<Rightarrow>
          (case unmarshal_Request J (tk_request r) of
             None \<Rightarrow> Inl json_error
           | Some q \<Rightarrow> Inr (Notification_of r q)))"

definition Get :: "codec \<Rightarrow> io \<Rightarrow> ID \<Rightarrow> string \<Rightarrow> db \<Rightarrow> error + Notification" where
  "Get J e u client d =
     scan J (io_fails e 0) (find (\<lambda>r. tk_id r = u \<and> tk_client r = client) (tasks d))"

definition Load :: "codec \<Rightarrow> io \<Rightarrow> ID \<Rightarrow> db \<Rightarrow> error + Notification" where
  "Load J e u d = scan J (io_fails e 0) (find (\<lambda>r. tk_id r = u) (tasks d))"

definition ByKey :: "codec \<Rightarrow> bool \<Rightarrow> string \<Rightarrow> string \<Rightarrow> db \<Rightarrow> error + Notification" where
  "ByKey J failed client key d =
     scan J failed (find (\<lambda>r. tk_client r = client \<and> tk_key r = key) (tasks d))"

text \<open>The loop \<^verbatim>\<open>for rows.Next()\<close> over \<^verbatim>\<open>scan\<close>: the first error ends it.\<close>

fun scan_rows :: "codec \<Rightarrow> task list \<Rightarrow> error + Notification list" where
  "scan_rows J [] = Inr []"
| "scan_rows J (r # rs) =
     (case scan J False (Some r) of
        Inl x \<Rightarrow> Inl x
      | Inr n \<Rightarrow> (case scan_rows J rs of Inl x \<Rightarrow> Inl x | Inr ns \<Rightarrow> Inr (n # ns)))"

record Filter =
  fStatus :: string
  fTarget :: string
  fBatch :: "ID option"
  fCursor :: "ID option"
  fLimit :: nat

definition matches :: "string \<Rightarrow> Filter \<Rightarrow> task \<Rightarrow> bool" where
  "matches client f r \<longleftrightarrow>
     tk_client r = client
     \<and> (fStatus f = [] \<or> tk_status r = fStatus f)
     \<and> (fTarget f = [] \<or> tk_target r = fTarget f)
     \<and> (case fBatch f of None \<Rightarrow> True | Some b \<Rightarrow> tk_batch r = Some b)
     \<and> (case fCursor f of None \<Rightarrow> True | Some c \<Rightarrow> bytes_less (tk_id r) c)"

text \<open>Call 0 is the query, call 1 the error \<^verbatim>\<open>rows.Err()\<close> reports at the end.\<close>

definition List_tasks :: "codec \<Rightarrow> io \<Rightarrow> string \<Rightarrow> Filter \<Rightarrow> db \<Rightarrow> error + Notification list" where
  "List_tasks J e client f d =
     (if io_fails e 0 then Inl driver_error
      else case scan_rows J (take (fLimit f) (rev (sort_key tk_id (filter (matches client f) (tasks d))))) of
             Inl x \<Rightarrow> Inl x
           | Inr ns \<Rightarrow> if io_fails e 1 then Inl driver_error else Inr ns)"

record Attempt =
  aNumber :: int
  aGeneration :: nat
  aStarted :: gotime
  aFinished :: "gotime option"
  aStatus :: int
  aResult :: string
  aError :: string
  aLatency :: int
  aReport :: string

definition Attempt_of :: "attempt \<Rightarrow> Attempt" where
  "Attempt_of a =
     \<lparr>aNumber = int (at_no a), aGeneration = at_gen a, aStarted = at_started a,
      aFinished = at_finished a, aStatus = at_http a, aResult = at_result a, aError = at_error a,
      aLatency = at_latency a, aReport = (case at_report a of None \<Rightarrow> [] | Some s \<Rightarrow> s)\<rparr>"

definition Attempts :: "io \<Rightarrow> ID \<Rightarrow> db \<Rightarrow> error + Attempt list" where
  "Attempts e u d =
     (if io_fails e 0 \<or> io_fails e 1 \<or> io_fails e 2 then Inl driver_error
      else Inr (map Attempt_of
             (take 100 (rev (sort_key at_no (filter (\<lambda>a. at_task a = u) (attempts d)))))))"

section \<open>Accepting\<close>

definition insertEvent ::
  "codec \<Rightarrow> bool \<Rightarrow> ID \<Rightarrow> gotime \<Rightarrow> gotime \<Rightarrow> Notification \<Rightarrow> string \<Rightarrow> gotime \<Rightarrow> db \<Rightarrow> error + db" where
  "insertEvent J failed eid now ts n route available d =
     (let ev = \<lparr>eSchema = 1, eID = eid, eNotification = nID n, eGeneration = nGeneration n,
                eType = ''dispatch'', eCreated = now\<rparr>
      in case marshal_Event J ev of
           None \<Rightarrow> Inl json_error
         | Some b \<Rightarrow>
             if failed \<or> list_ex (\<lambda>w. ob_event w = eid) (outbox d) then Inl driver_error
             else Inr (d\<lparr>outbox := outbox d @
                    [\<lparr>ob_id = ob_seq d, ob_event = eid, ob_task = nID n, ob_gen = nGeneration n,
                      ob_type = eType ev, ob_route = route, ob_available = datetime6 available,
                      ob_payload = b, ob_status = ''pending'', ob_token = None,
                      ob_lease_until = None, ob_published = None, ob_created = ts\<rparr>],
                  ob_seq := ob_seq d + 1\<rparr>))"

definition task_of :: "Notification \<Rightarrow> string \<Rightarrow> task" where
  "task_of n request =
     \<lparr>tk_id = nID n, tk_client = nClient n, tk_target = nTarget n, tk_batch = nBatch n,
      tk_key = nKey n, tk_hash = nHash n, tk_request = request, tk_mode = nMode n,
      tk_status = nStatus n, tk_attempts = 0, tk_cycle = 0, tk_gen = nGeneration n,
      tk_next = datetime6 (nNext n), tk_deadline = datetime6 (nDeadline n), tk_lease = None,
      tk_lease_until = None, tk_http = 0, tk_error = [], tk_target_rev = nTargetRevision n,
      tk_retry_rev = nRetryRevision n, tk_hook_rev = nHookRevision n,
      tk_config_rev = nConfigRevision n, tk_created = datetime6 (nCreated n),
      tk_updated = datetime6 (nUpdated n), tk_delivered = None\<rparr>"

text \<open>
  Error 1062 is raised by either unique key, the primary key or \<^verbatim>\<open>uk_client_idem\<close>. Calls: 0 begin,
  1 insert, 2 rollback, 3 the query of \<^verbatim>\<open>ByKey\<close>, 4 the event, 5 commit.
\<close>

definition Store_Accept ::
  "codec \<Rightarrow> io \<Rightarrow> Notification \<Rightarrow> db \<Rightarrow> (error + (Notification \<times> bool)) \<times> db" where
  "Store_Accept J e n d =
     (case marshal_Request J (nRequest n) of
        None \<Rightarrow> (Inl json_error, d)
      | Some request \<Rightarrow>
          if io_fails e 0 \<or> io_fails e 1 then (Inl driver_error, d)
          else if list_ex (\<lambda>r. tk_id r = nID n \<or> tk_client r = nClient n \<and> tk_key r = nKey n) (tasks d) then
            (if io_fails e 2 then (Inl driver_error, d)
             else case ByKey J (io_fails e 3) (nClient n) (nKey n) d of
                    Inl x \<Rightarrow> (Inl x, d)
                  | Inr old \<Rightarrow>
                      if nHash old \<noteq> nHash n then (Inl ErrConflict, d) else (Inr (old, False), d))
          else
            case insertEvent J (io_fails e 4) (io_ids e 0) (io_clock e 0) (utc e 1) n ''dispatch'' (nNext n)
                   (d\<lparr>tasks := tasks d @ [task_of n request]\<rparr>) of
              Inl x \<Rightarrow> (Inl x, d)
            | Inr d' \<Rightarrow> commit e 5 d (n, True) d')"

definition CreateBatch :: "io \<Rightarrow> ID \<Rightarrow> string \<Rightarrow> int \<Rightarrow> db \<Rightarrow> (error + unit) \<times> db" where
  "CreateBatch e u client count d =
     (if list_ex (\<lambda>b. bt_id b = u) (batches d) then (Inl driver_error, d)
      else commit e 0 d ()
        (d\<lparr>batches := batches d @
             [\<lparr>bt_id = u, bt_client = client, bt_count = count, bt_created = utc e 0\<rparr>]\<rparr>))"

section \<open>Delivering\<close>

text \<open>
  The opening that five methods share: begin a transaction (call 0), run one \<^verbatim>\<open>UPDATE\<close> of
  \<^verbatim>\<open>notification_task\<close> (call 1), read the number of affected rows (call 2) and return
  \<^verbatim>\<open>ErrState\<close> unless it is one. The result is the new table.
\<close>

definition update_one :: "io \<Rightarrow> (task \<Rightarrow> bool) \<Rightarrow> (task \<Rightarrow> task) \<Rightarrow> db \<Rightarrow> error + task list" where
  "update_one e P f d =
     (if io_fails e 0 \<or> io_fails e 1 then Inl driver_error
      else case sql_update task_ok P f (tasks d) of
             None \<Rightarrow> Inl driver_error
           | Some (ts, count) \<Rightarrow>
               if io_fails e 2 then Inl driver_error
               else if count \<noteq> 1 then Inl ErrState
               else Inr ts)"

text \<open>
  The close that four methods share: insert the event (call \<open>k\<close>, after the clock reads from \<open>c\<close> on),
  then commit (call \<open>k + 1\<close>). \<open>d\<close> is the database before the transaction, \<open>d'\<close> inside it.
\<close>

definition event_commit ::
  "codec \<Rightarrow> io \<Rightarrow> nat \<Rightarrow> nat \<Rightarrow> Notification \<Rightarrow> string \<Rightarrow> gotime \<Rightarrow> db \<Rightarrow> db \<Rightarrow> (error + unit) \<times> db" where
  "event_commit J e k c n route available d d' =
     (case insertEvent J (io_fails e k) (io_ids e 0) (io_clock e c) (utc e (c + 1)) n route available d' of
        Inl x \<Rightarrow> (Inl x, d)
      | Inr d'' \<Rightarrow> commit e (k + 1) d () d'')"

subsection \<open>Claim\<close>

definition claim_where :: "io \<Rightarrow> ID \<Rightarrow> nat \<Rightarrow> task \<Rightarrow> bool" where
  "claim_where e u generation r \<longleftrightarrow>
     tk_id r = u \<and> tk_gen r = generation \<and> tk_status r = ''pending'' \<and> tk_next r \<le> utc e 0"

definition claim_set :: "io \<Rightarrow> task \<Rightarrow> task" where
  "claim_set e r =
     r\<lparr>tk_status := ''in_flight'', tk_lease := Some (io_ids e 0),
       tk_lease_until := Some (utc e 0 + 60 * second),
       tk_attempts := tk_attempts r + 1, tk_cycle := tk_cycle r + 1, tk_updated := utc e 0\<rparr>"

definition started_attempt :: "io \<Rightarrow> ID \<Rightarrow> Notification \<Rightarrow> attempt" where
  "started_attempt e u n =
     \<lparr>at_task = u, at_no = nat (nAttempts n), at_gen = nGeneration n, at_lease = io_ids e 0,
      at_started = utc e 1, at_finished = None, at_http = 0, at_result = ''started'', at_error = [],
      at_latency = 0, at_headers = None, at_preview = None, at_hash = None, at_report = None\<rparr>"

text \<open>Calls: 0 begin, 1 update, 2 affected rows, 3 select, 4 insert, 5 commit.\<close>

definition Claim :: "codec \<Rightarrow> io \<Rightarrow> ID \<Rightarrow> nat \<Rightarrow> db \<Rightarrow> (error + Notification) \<times> db" where
  "Claim J e u generation d =
     (case update_one e (claim_where e u generation) (claim_set e) d of
        Inl x \<Rightarrow> (Inl x, d)
      | Inr ts \<Rightarrow>
          (case scan J (io_fails e 3) (find (\<lambda>r. tk_id r = u) ts) of
             Inl x \<Rightarrow> (Inl x, d)
           | Inr n \<Rightarrow>
               if io_fails e 4 \<or> list_ex (\<lambda>a. at_task a = u \<and> int (at_no a) = nAttempts n) (attempts d)
               then (Inl driver_error, d)
               else commit e 5 d n
                      (d\<lparr>tasks := ts, attempts := attempts d @ [started_attempt e u n]\<rparr>)))"

subsection \<open>Finish\<close>

text \<open>A nil slice is stored as \<^verbatim>\<open>NULL\<close>; an empty one is not told apart from it.\<close>

definition byte_slice :: "'a list \<Rightarrow> 'a list option" where
  "byte_slice bs = (if bs = [] then None else Some bs)"

definition finish_status :: "Decision \<Rightarrow> string" where
  "finish_status dec =
     (if dAction dec = ''success'' then ''delivered''
      else if dAction dec = ''retry'' then ''pending'' else ''failed'')"

definition finish_gen :: "Notification \<Rightarrow> Decision \<Rightarrow> nat" where
  "finish_gen n dec =
     (if dAction dec = ''success'' then nGeneration n
      else if dAction dec = ''retry'' then uint64_inc (nGeneration n) else nGeneration n)"

definition next_or :: "Notification \<Rightarrow> gotime \<Rightarrow> gotime" where
  "next_or n nxt = (if IsZero nxt then nNext n else nxt)"

definition finish_where :: "io \<Rightarrow> Notification \<Rightarrow> task \<Rightarrow> bool" where
  "finish_where e n r \<longleftrightarrow>
     tk_id r = nID n \<and> tk_gen r = nGeneration n \<and> tk_lease r = Some (nLease n)
     \<and> tk_status r = ''in_flight''
     \<and> (case tk_lease_until r of None \<Rightarrow> False | Some l \<Rightarrow> utc e 0 < l)"

definition finish_set :: "io \<Rightarrow> Notification \<Rightarrow> Decision \<Rightarrow> gotime \<Rightarrow> task \<Rightarrow> task" where
  "finish_set e n dec nxt r =
     r\<lparr>tk_status := finish_status dec, tk_gen := finish_gen n dec,
       tk_next := datetime6 (next_or n nxt), tk_lease := None, tk_lease_until := None,
       tk_http := dHTTPStatus dec, tk_error := dReason dec, tk_updated := utc e 0,
       tk_delivered := (if finish_status dec = ''delivered'' then Some (utc e 0) else None)\<rparr>"

definition finish_attempt :: "io \<Rightarrow> Decision \<Rightarrow> string \<Rightarrow> attempt \<Rightarrow> attempt" where
  "finish_attempt e dec headers a =
     a\<lparr>at_finished := Some (utc e 1), at_http := dHTTPStatus dec, at_result := dAction dec,
       at_error := dReason dec, at_latency := max 0 (dLatency dec div millisecond),
       at_headers := Some headers, at_preview := byte_slice (dPreview dec),
       at_hash := byte_slice (dBodyHash dec), at_report := byte_slice (dReport dec)\<rparr>"

definition own_attempt :: "Notification \<Rightarrow> attempt \<Rightarrow> bool" where
  "own_attempt n a \<longleftrightarrow> at_task a = nID n \<and> int (at_no a) = nAttempts n \<and> at_lease a = nLease n"

text \<open>Calls: 0 begin, 1 update, 2 affected rows, 3 the attempt, 4 the event, 5 commit.\<close>

definition Finish ::
  "codec \<Rightarrow> io \<Rightarrow> Notification \<Rightarrow> Decision \<Rightarrow> gotime \<Rightarrow> string \<Rightarrow> db \<Rightarrow> (error + unit) \<times> db" where
  "Finish J e n dec nxt route d =
     (case update_one e (finish_where e n) (finish_set e n dec nxt) d of
        Inl x \<Rightarrow> (Inl x, d)
      | Inr ts \<Rightarrow>
          (case marshal_headers J (dHeaders dec) of
             None \<Rightarrow> (Inl json_error, d)
           | Some headers \<Rightarrow>
               if io_fails e 3 then (Inl driver_error, d)
               else
                 let d' = d\<lparr>tasks := ts,
                            attempts := map (\<lambda>a. if own_attempt n a then finish_attempt e dec headers a else a)
                                          (attempts d)\<rparr>
                 in if finish_status dec = ''pending'' then
                      event_commit J e 4 2 (n\<lparr>nGeneration := finish_gen n dec, nNext := next_or n nxt\<rparr>)
                        route (io_clock e 4) d d'
                    else commit e 5 d () d'))"

subsection \<open>DeferPending\<close>

definition defer_where :: "Notification \<Rightarrow> task \<Rightarrow> bool" where
  "defer_where n r \<longleftrightarrow> tk_id r = nID n \<and> tk_gen r = nGeneration n \<and> tk_status r = ''pending''"

definition defer_set :: "io \<Rightarrow> gotime \<Rightarrow> task \<Rightarrow> task" where
  "defer_set e nxt r = r\<lparr>tk_gen := tk_gen r + 1, tk_next := datetime6 nxt, tk_updated := utc e 1\<rparr>"

text \<open>Calls: 0 begin, 1 update, 2 affected rows, 3 the event, 4 commit.\<close>

definition DeferPending ::
  "codec \<Rightarrow> io \<Rightarrow> Notification \<Rightarrow> duration \<Rightarrow> db \<Rightarrow> (error + unit) \<times> db" where
  "DeferPending J e n delay d =
     (let nxt = io_clock e 0 + delay in
      case update_one e (defer_where n) (defer_set e nxt) d of
        Inl x \<Rightarrow> (Inl x, d)
      | Inr ts \<Rightarrow>
          event_commit J e 3 2 (n\<lparr>nGeneration := uint64_inc (nGeneration n), nNext := nxt\<rparr>)
            ''dispatch'' nxt d (d\<lparr>tasks := ts\<rparr>))"

section \<open>Recovering\<close>

definition expired_where :: "gotime \<Rightarrow> task \<Rightarrow> bool" where
  "expired_where ts r \<longleftrightarrow>
     tk_status r = ''in_flight'' \<and> (case tk_lease_until r of None \<Rightarrow> False | Some l \<Rightarrow> l < ts)"

text \<open>Call 0 is the query, call 1 the error \<^verbatim>\<open>rows.Err()\<close> reports at the end.\<close>

definition Expired :: "codec \<Rightarrow> io \<Rightarrow> db \<Rightarrow> error + Notification list" where
  "Expired J e d =
     (if io_fails e 0 then Inl driver_error
      else case scan_rows J (take 100 (sort_key (\<lambda>r. the (tk_lease_until r))
                  (filter (expired_where (utc e 0)) (tasks d)))) of
             Inl x \<Rightarrow> Inl x
           | Inr ns \<Rightarrow> if io_fails e 1 then Inl driver_error else Inr ns)"

definition recover_status :: "Decision \<Rightarrow> string" where
  "recover_status dec = (if dAction dec = ''retry'' then ''pending'' else ''failed'')"

definition recover_where :: "io \<Rightarrow> Notification \<Rightarrow> task \<Rightarrow> bool" where
  "recover_where e n r \<longleftrightarrow>
     tk_id r = nID n \<and> tk_status r = ''in_flight'' \<and> tk_gen r = nGeneration n
     \<and> tk_lease r = Some (nLease n)
     \<and> (case tk_lease_until r of None \<Rightarrow> False | Some l \<Rightarrow> l < utc e 0)"

definition recover_set :: "io \<Rightarrow> Notification \<Rightarrow> Decision \<Rightarrow> gotime \<Rightarrow> task \<Rightarrow> task" where
  "recover_set e n dec nxt r =
     r\<lparr>tk_status := recover_status dec, tk_gen := tk_gen r + 1, tk_lease := None,
       tk_lease_until := None, tk_next := datetime6 (next_or n nxt), tk_error := dReason dec,
       tk_updated := utc e 0\<rparr>"

definition recover_attempt :: "io \<Rightarrow> attempt \<Rightarrow> attempt" where
  "recover_attempt e a =
     a\<lparr>at_finished := Some (utc e 1), at_result := ''unknown'', at_error := ''lease_expired''\<rparr>"

text \<open>Calls: 0 begin, 1 update, 2 affected rows, 3 the attempt, 4 the event, 5 commit.\<close>

definition RecoverLease ::
  "codec \<Rightarrow> io \<Rightarrow> Notification \<Rightarrow> Decision \<Rightarrow> gotime \<Rightarrow> string \<Rightarrow> db \<Rightarrow> (error + unit) \<times> db" where
  "RecoverLease J e n dec nxt route d =
     (case update_one e (recover_where e n) (recover_set e n dec nxt) d of
        Inl x \<Rightarrow> (Inl x, d)
      | Inr ts \<Rightarrow>
          if io_fails e 3 then (Inl driver_error, d)
          else
            let d' = d\<lparr>tasks := ts,
                       attempts := map (\<lambda>a. if own_attempt n a \<and> at_finished a = None
                                            then recover_attempt e a else a) (attempts d)\<rparr>
            in if recover_status dec = ''pending'' then
                 event_commit J e 4 2
                   (n\<lparr>nGeneration := uint64_inc (nGeneration n), nNext := next_or n nxt\<rparr>)
                   route (io_clock e 4) d d'
               else commit e 5 d () d')"

definition RecoverOutbox :: "io \<Rightarrow> db \<Rightarrow> (error + unit) \<times> db" where
  "RecoverOutbox e d =
     commit e 0 d ()
       (d\<lparr>outbox := sql_update_limit 1000
            (\<lambda>w. ob_status w = ''publishing''
                 \<and> (case ob_lease_until w of None \<Rightarrow> False | Some l \<Rightarrow> l < utc e 0))
            (\<lambda>w. w\<lparr>ob_status := ''pending'', ob_token := None, ob_lease_until := None\<rparr>)
            (outbox d)\<rparr>)"

text \<open>
  Whether a pending task is stuck: overdue by a minute, with no live publisher and no recent
  publication for its generation.
\<close>

definition live_trigger :: "gotime \<Rightarrow> db \<Rightarrow> task \<Rightarrow> bool" where
  "live_trigger ts d r \<longleftrightarrow>
     list_ex (\<lambda>w. ob_task w = tk_id r \<and> ob_gen w = tk_gen r
                  \<and> (ob_status w = ''pending'' \<or> ob_status w = ''publishing''
                     \<or> (case ob_published w of None \<Rightarrow> False | Some p \<Rightarrow> ts - 60 * second < p)))
       (outbox d)"

definition stuck :: "gotime \<Rightarrow> db \<Rightarrow> task \<Rightarrow> bool" where
  "stuck ts d r \<longleftrightarrow> tk_status r = ''pending'' \<and> tk_next r < ts - 60 * second \<and> \<not> live_trigger ts d r"

definition zero_Request :: Request where
  "zero_Request = \<lparr>rMethod = [], rPath = [], rQuery = [], rHeaders = [], rBodyEncoding = [], rBody = []\<rparr>"

definition zero_Notification :: Notification where
  "zero_Notification =
     \<lparr>nID = zero_ID, nClient = [], nTarget = [], nBatch = None, nKey = [], nHash = replicate 32 0,
      nRequest = zero_Request, nMode = [], nStatus = [], nAttempts = 0, nCycleAttempts = 0,
      nGeneration = 0, nNext = 0, nDeadline = 0, nLease = zero_ID, nLeaseUntil = 0,
      nTargetRevision = 0, nRetryRevision = 0, nHookRevision = 0, nConfigRevision = 0, nCreated = 0,
      nUpdated = 0, nLastStatus = 0, nLastError = []\<rparr>"

text \<open>
  The loop over the selected tasks. Iteration \<open>i\<close> makes the calls \<open>3 + 2 * i\<close> (update) and
  \<open>4 + 2 * i\<close> (event), the clock reads \<open>1 + 4 * i\<close> to \<open>4 + 4 * i\<close> and one
  identifier.
\<close>

fun reconcile_loop :: "codec \<Rightarrow> io \<Rightarrow> nat \<Rightarrow> Notification list \<Rightarrow> db \<Rightarrow> error + db" where
  "reconcile_loop J e i [] d = Inr d"
| "reconcile_loop J e i (n # ns) d =
     (let n' = n\<lparr>nGeneration := uint64_inc (nGeneration n), nNext := io_clock e (1 + 4 * i)\<rparr> in
      if io_fails e (3 + 2 * i) then Inl driver_error
      else case sql_update task_ok (\<lambda>r. tk_id r = nID n')
                  (\<lambda>r. r\<lparr>tk_gen := nGeneration n', tk_updated := utc e (2 + 4 * i)\<rparr>) (tasks d) of
          None \<Rightarrow> Inl driver_error
        | Some (ts, _) \<Rightarrow>
            (case insertEvent J (io_fails e (4 + 2 * i)) (io_ids e i) (io_clock e (3 + 4 * i))
                    (utc e (4 + 4 * i)) n' ''dispatch'' (nNext n') (d\<lparr>tasks := ts\<rparr>) of
               Inl x \<Rightarrow> Inl x
             | Inr d' \<Rightarrow> reconcile_loop J e (i + 1) ns d'))"

text \<open>
  \<^verbatim>\<open>FOR UPDATE SKIP LOCKED\<close>: \<open>locked\<close> are the rows other transactions hold. Calls: 0 begin,
  1 query, 2 any error of reading the rows, then the loop's; the commit is call \<open>3 + 2 * k\<close> for
  \<open>k\<close> tasks.
\<close>

definition Reconcile :: "codec \<Rightarrow> io \<Rightarrow> (ID \<Rightarrow> bool) \<Rightarrow> db \<Rightarrow> (error + nat) \<times> db" where
  "Reconcile J e locked d =
     (if io_fails e 0 \<or> io_fails e 1 \<or> io_fails e 2 then (Inl driver_error, d)
      else let ns = map (\<lambda>r. zero_Notification\<lparr>nID := tk_id r, nGeneration := tk_gen r\<rparr>)
                 (take 100 (sort_key tk_next
                    (filter (\<lambda>r. stuck (utc e 0) d r \<and> \<not> locked (tk_id r)) (tasks d))))
        in case reconcile_loop J e 0 ns d of
             Inl x \<Rightarrow> (Inl x, d)
           | Inr d' \<Rightarrow> commit e (3 + 2 * length ns) d (length ns) d')"

definition retry_where :: "Notification \<Rightarrow> task \<Rightarrow> bool" where
  "retry_where n r \<longleftrightarrow>
     tk_id r = nID n \<and> tk_client r = nClient n \<and> tk_status r = ''failed'' \<and> tk_gen r = nGeneration n"

definition retry_set :: "io \<Rightarrow> duration \<Rightarrow> task \<Rightarrow> task" where
  "retry_set e dur r =
     r\<lparr>tk_status := ''pending'', tk_gen := tk_gen r + 1, tk_cycle := 0,
       tk_next := datetime6 (io_clock e 0), tk_deadline := datetime6 (io_clock e 0 + dur),
       tk_error := [], tk_updated := utc e 1\<rparr>"

text \<open>Calls: 0 begin, 1 update, 2 affected rows, 3 the event, 4 commit.\<close>

definition Store_ManualRetry ::
  "codec \<Rightarrow> io \<Rightarrow> Notification \<Rightarrow> duration \<Rightarrow> db \<Rightarrow> (error + unit) \<times> db" where
  "Store_ManualRetry J e n dur d =
     (case update_one e (retry_where n) (retry_set e dur) d of
        Inl x \<Rightarrow> (Inl x, d)
      | Inr ts \<Rightarrow>
          event_commit J e 3 2
            (n\<lparr>nGeneration := uint64_inc (nGeneration n), nNext := io_clock e 0\<rparr>)
            ''dispatch'' (io_clock e 0) d (d\<lparr>tasks := ts\<rparr>))"

section \<open>The outbox\<close>

text \<open>Calls: 0 begin, 1 select, 2 update, 3 commit.\<close>

definition ClaimOutbox :: "codec \<Rightarrow> io \<Rightarrow> (nat \<Rightarrow> bool) \<Rightarrow> db \<Rightarrow> (error + Outbox) \<times> db" where
  "ClaimOutbox J e locked d =
     (if io_fails e 0 \<or> io_fails e 1 then (Inl driver_error, d)
      else case sort_key ob_available (sort_key ob_id
                  (filter (\<lambda>w. ob_status w = ''pending'' \<and> ob_available w \<le> utc e 0
                               \<and> \<not> locked (ob_id w)) (outbox d))) of
          [] \<Rightarrow> (Inl ErrNoRows, d)
        | row # _ \<Rightarrow>
            (case unmarshal_Event J (ob_payload row) of
               None \<Rightarrow> (Inl json_error, d)
             | Some ev \<Rightarrow>
                 if io_fails e 2 then (Inl driver_error, d)
                 else commit e 3 d
                   \<lparr>oID = ob_id row, oEvent = ev, oRoute = ob_route row, oToken = io_ids e 0\<rparr>
                   (d\<lparr>outbox := map (\<lambda>w. if ob_id w = ob_id row
                        then w\<lparr>ob_status := ''publishing'', ob_token := Some (io_ids e 0),
                               ob_lease_until := Some (utc e 1 + 30 * second)\<rparr>
                        else w) (outbox d)\<rparr>)))"

text \<open>One statement outside a transaction; call 0 is the statement, call 1 the count of rows.\<close>

definition Published :: "io \<Rightarrow> Outbox \<Rightarrow> db \<Rightarrow> (error + unit) \<times> db" where
  "Published e ob d =
     (let P = (\<lambda>w. ob_id w = oID ob \<and> ob_status w = ''publishing'' \<and> ob_token w = Some (oToken ob)
                   \<and> (case ob_lease_until w of None \<Rightarrow> False | Some l \<Rightarrow> utc e 0 < l));
          d' = d\<lparr>outbox := map (\<lambda>w. if P w
                 then w\<lparr>ob_status := ''published'', ob_published := Some (utc e 0), ob_token := None,
                        ob_lease_until := None\<rparr>
                 else w) (outbox d)\<rparr>
      in case commit e 0 d () d' of
           (Inl x, d'') \<Rightarrow> (Inl x, d'')
         | (Inr _, d'') \<Rightarrow>
             if io_fails e 1 then (Inl driver_error, d'')
             else if length (filter P (outbox d)) \<noteq> 1 then (Inl ErrState, d'')
             else (Inr (), d''))"

definition ReleaseOutbox :: "io \<Rightarrow> Outbox \<Rightarrow> db \<Rightarrow> (error + unit) \<times> db" where
  "ReleaseOutbox e ob d =
     commit e 0 d ()
       (d\<lparr>outbox := map (\<lambda>w. if ob_id w = oID ob \<and> ob_status w = ''publishing''
                             \<and> ob_token w = Some (oToken ob)
            then w\<lparr>ob_status := ''pending'', ob_available := utc e 0 + 2 * second, ob_token := None,
                   ob_lease_until := None\<rparr>
            else w) (outbox d)\<rparr>)"

end
