(* ===== verification/StoreSpec.thy ===== *)
theory StoreSpec
  imports Store
begin

text \<open>
  An abstract specification of the store, as a step relation on the database with one rule per kind
  of change a task can undergo, and the proof that every method of \<^verbatim>\<open>Store\<close> only ever
  makes such steps. The invariants of the next theory are proved over the rules and
  hold for the methods by this refinement.
\<close>

section \<open>The abstract steps\<close>

definition put :: "ID \<Rightarrow> (task \<Rightarrow> task) \<Rightarrow> task list \<Rightarrow> task list" where
  "put u f ts = map (\<lambda>r. if tk_id r = u then f r else r) ts"

text \<open>What no statement changes once a task is accepted.\<close>

definition same_core :: "task \<Rightarrow> task \<Rightarrow> bool" where
  "same_core r r' \<longleftrightarrow> tk_id r' = tk_id r \<and> tk_client r' = tk_client r \<and> tk_target r' = tk_target r
     \<and> tk_batch r' = tk_batch r \<and> tk_key r' = tk_key r \<and> tk_hash r' = tk_hash r
     \<and> tk_request r' = tk_request r \<and> tk_mode r' = tk_mode r \<and> tk_created r' = tk_created r
     \<and> tk_target_rev r' = tk_target_rev r \<and> tk_retry_rev r' = tk_retry_rev r
     \<and> tk_hook_rev r' = tk_hook_rev r \<and> tk_config_rev r' = tk_config_rev r"

definition new_task :: "db \<Rightarrow> task \<Rightarrow> bool" where
  "new_task d t \<longleftrightarrow>
     (\<forall>r\<in>set (tasks d). tk_id r \<noteq> tk_id t \<and> (tk_client r, tk_key r) \<noteq> (tk_client t, tk_key t))
     \<and> tk_status t = ''pending'' \<and> tk_gen t = 1 \<and> tk_attempts t = 0 \<and> tk_cycle t = 0
     \<and> tk_lease t = None \<and> tk_lease_until t = None"

definition new_event :: "db \<Rightarrow> outbox_row \<Rightarrow> ID \<Rightarrow> nat \<Rightarrow> bool" where
  "new_event d w u g \<longleftrightarrow> ob_id w = ob_seq d \<and> ob_task w = u \<and> ob_gen w = g \<and> ob_status w = ''pending''
     \<and> (\<forall>x\<in>set (outbox d). ob_event x \<noteq> ob_event w)"

definition add_event :: "outbox_row \<Rightarrow> db \<Rightarrow> db" where
  "add_event w d = d\<lparr>outbox := outbox d @ [w], ob_seq := ob_seq d + 1\<rparr>"

text \<open>Closing the attempt numbered \<open>k\<close> of a task: only its outcome columns change.\<close>

definition closes :: "ID \<Rightarrow> int \<Rightarrow> ID \<Rightarrow> attempt list \<Rightarrow> attempt list \<Rightarrow> bool" where
  "closes u k tok as as' \<longleftrightarrow>
     list_all2 (\<lambda>a a'. at_task a' = at_task a \<and> at_no a' = at_no a \<and> at_gen a' = at_gen a
          \<and> at_lease a' = at_lease a
          \<and> (if at_task a = u \<and> int (at_no a) = k \<and> at_lease a = tok then at_finished a' \<noteq> None
             else a' = a)) as as'"

text \<open>The status words; \<^verbatim>\<open>in_flight\<close> is the only one with a lease.\<close>

inductive db_step :: "db \<Rightarrow> db \<Rightarrow> bool" where
  batch: "db_step d (d\<lparr>batches := bs\<rparr>)"
| accept: "new_task d t \<Longrightarrow> new_event d w (tk_id t) 1 \<Longrightarrow>
    db_step d (add_event w (d\<lparr>tasks := tasks d @ [t]\<rparr>))"
| claim: "r \<in> set (tasks d) \<Longrightarrow> tk_status r = ''pending'' \<Longrightarrow>
    same_core r r' \<Longrightarrow> tk_status r' = ''in_flight'' \<Longrightarrow> tk_gen r' = tk_gen r \<Longrightarrow>
    tk_lease r' = Some tok \<Longrightarrow> tk_lease_until r' = Some l \<Longrightarrow>
    tk_attempts r' = tk_attempts r + 1 \<Longrightarrow> tk_cycle r' = tk_cycle r + 1 \<Longrightarrow>
    at_task a = tk_id r \<Longrightarrow> at_no a = tk_attempts r + 1 \<Longrightarrow> at_gen a = tk_gen r \<Longrightarrow>
    at_lease a = tok \<Longrightarrow> at_finished a = None \<Longrightarrow>
    db_step d (d\<lparr>tasks := put (tk_id r) (\<lambda>_. r') (tasks d), attempts := attempts d @ [a]\<rparr>)"
| settle: "r \<in> set (tasks d) \<Longrightarrow> tk_status r = ''in_flight'' \<Longrightarrow> tk_lease r = Some tok \<Longrightarrow>
    same_core r r' \<Longrightarrow> tk_status r' = ''delivered'' \<and> tk_gen r' = tk_gen r
      \<or> tk_status r' = ''failed'' \<and> (tk_gen r' = tk_gen r \<or> tk_gen r' = tk_gen r + 1) \<Longrightarrow>
    tk_lease r' = None \<Longrightarrow> tk_lease_until r' = None \<Longrightarrow>
    tk_attempts r' = tk_attempts r \<Longrightarrow> tk_cycle r' = tk_cycle r \<Longrightarrow>
    closes (tk_id r) (int (tk_attempts r)) tok (attempts d) as \<Longrightarrow>
    db_step d (d\<lparr>tasks := put (tk_id r) (\<lambda>_. r') (tasks d), attempts := as\<rparr>)"
| again: "r \<in> set (tasks d) \<Longrightarrow> tk_status r = ''in_flight'' \<Longrightarrow> tk_lease r = Some tok \<Longrightarrow>
    same_core r r' \<Longrightarrow> tk_status r' = ''pending'' \<Longrightarrow> tk_gen r' = tk_gen r + 1 \<Longrightarrow>
    tk_lease r' = None \<Longrightarrow> tk_lease_until r' = None \<Longrightarrow>
    tk_attempts r' = tk_attempts r \<Longrightarrow> tk_cycle r' = tk_cycle r \<Longrightarrow>
    closes (tk_id r) (int (tk_attempts r)) tok (attempts d) as \<Longrightarrow> new_event d w (tk_id r) (tk_gen r + 1) \<Longrightarrow>
    db_step d (add_event w (d\<lparr>tasks := put (tk_id r) (\<lambda>_. r') (tasks d), attempts := as\<rparr>))"
| requeue: "r \<in> set (tasks d) \<Longrightarrow> tk_status r = ''pending'' \<or> tk_status r = ''failed'' \<Longrightarrow>
    same_core r r' \<Longrightarrow> tk_status r' = ''pending'' \<Longrightarrow> tk_gen r' = tk_gen r + 1 \<Longrightarrow>
    tk_lease r' = tk_lease r \<Longrightarrow> tk_lease_until r' = tk_lease_until r \<Longrightarrow>
    tk_attempts r' = tk_attempts r \<Longrightarrow>
    tk_cycle r' = (if tk_status r = ''failed'' then 0 else tk_cycle r) \<Longrightarrow>
    new_event d w (tk_id r) (tk_gen r + 1) \<Longrightarrow>
    db_step d (add_event w (d\<lparr>tasks := put (tk_id r) (\<lambda>_. r') (tasks d)\<rparr>))"
| relay: "list_all2 (\<lambda>w w'. ob_id w' = ob_id w \<and> ob_event w' = ob_event w \<and> ob_task w' = ob_task w
      \<and> ob_gen w' = ob_gen w) (outbox d) ws \<Longrightarrow> db_step d (d\<lparr>outbox := ws\<rparr>)"

section \<open>Statements as abstract steps\<close>

definition ids_distinct :: "db \<Rightarrow> bool" where
  "ids_distinct d \<longleftrightarrow> distinct (map tk_id (tasks d))"

definition gens_below :: "nat \<Rightarrow> db \<Rightarrow> bool" where
  "gens_below b d \<longleftrightarrow> (\<forall>r\<in>set (tasks d). tk_gen r < b)"

lemma uint64_inc_small: "g < 2 ^ 64 - 1 \<Longrightarrow> uint64_inc g = g + 1"
  by (simp add: uint64_inc_def)

text \<open>
  An update by key that reports one changed row found exactly one row, and rewrote that row alone.
\<close>

lemma sql_update_one:
  assumes "sql_update ok P f rows = Some (ts, 1)" and "distinct (map tk_id rows)"
    and "\<And>r. P r \<Longrightarrow> tk_id r = u"
  obtains r where "r \<in> set rows" "P r" "ok (f r)" "tk_id r = u" "ts = put u (\<lambda>_. f r) rows"
proof -
  from assms(1) have ts: "ts = map (\<lambda>r. if P r then f r else r) rows"
    and one: "length (filter (\<lambda>r. P r \<and> f r \<noteq> r) rows) = 1"
    and oks: "\<forall>r\<in>set rows. P r \<longrightarrow> ok (f r)"
    by (auto simp: sql_update_def list_ex_iff split: if_splits)
  from one obtain r where "filter (\<lambda>r. P r \<and> f r \<noteq> r) rows = [r]"
    by (auto simp: length_Suc_conv)
  then have "r \<in> set (filter (\<lambda>r. P r \<and> f r \<noteq> r) rows)" by simp
  then have r: "r \<in> set rows" "P r" by auto
  have u: "tk_id r = u" using r(2) by (rule assms(3))
  have "(if P x then f x else x) = (if tk_id x = u then f r else x)" if x: "x \<in> set rows" for x
  proof (cases "tk_id x = u")
    case True
    then have "x = r" using distinct_map_eqD [OF assms(2) x r(1)] u by simp
    with r True show ?thesis by simp
  next
    case False
    with assms(3) show ?thesis by auto
  qed
  then have "ts = put u (\<lambda>_. f r) rows" unfolding ts put_def by simp
  with r u oks show thesis by (intro that [of r]) auto
qed

lemma insertEvent_ok:
  assumes "insertEvent J fl eid now ts n route av d = Inr d'"
  obtains w where "new_event d w (nID n) (nGeneration n)" "d' = add_event w d"
    "ob_route w = route" "ob_available w = datetime6 av" "ob_event w = eid"
    "marshal_Event J \<lparr>eSchema = 1, eID = eid, eNotification = nID n, eGeneration = nGeneration n,
       eType = ''dispatch'', eCreated = now\<rparr> = Some (ob_payload w)"
  by (rule that [of "last (outbox d')"])
    (use assms in \<open>auto simp: insertEvent_def Let_def new_event_def add_event_def list_ex_iff
      split: option.splits if_splits\<close>)

lemma new_event_tasks [simp]:
  "new_event (d\<lparr>tasks := ts\<rparr>) w u g = new_event d w u g"
  "new_event (d\<lparr>attempts := as\<rparr>) w u g = new_event d w u g"
  by (simp_all add: new_event_def)

lemma find_put:
  "r \<in> set ts \<Longrightarrow> tk_id r = u \<Longrightarrow> tk_id r' = u \<Longrightarrow>
    find (\<lambda>x. tk_id x = u) (put u (\<lambda>_. r') ts) = Some r'"
  by (induction ts) (auto simp: put_def)

lemma commit_cases:
  assumes "commit e k d r d' = (res, d'')"
  obtains "d'' = d" "res = Inl driver_error" | "d'' = d'" "res = Inr r \<or> res = Inl driver_error"
  using assms by (auto simp: commit_def split: if_splits)

lemma closes_map:
  assumes "\<And>a. at_task (f a) = at_task a \<and> at_no (f a) = at_no a \<and> at_gen (f a) = at_gen a
      \<and> at_lease (f a) = at_lease a \<and> at_finished (f a) \<noteq> None"
  shows "closes u k tok as (map (\<lambda>a. if at_task a = u \<and> int (at_no a) = k \<and> at_lease a = tok
      then f a else a) as)"
  using assms by (simp add: closes_def list_all2_conv_all_nth)

lemma closes_map_open:
  assumes "\<And>a. at_task (f a) = at_task a \<and> at_no (f a) = at_no a \<and> at_gen (f a) = at_gen a
      \<and> at_lease (f a) = at_lease a \<and> at_finished (f a) \<noteq> None"
  shows "closes u k tok as (map (\<lambda>a. if at_task a = u \<and> int (at_no a) = k \<and> at_lease a = tok
      \<and> at_finished a = None then f a else a) as)"
  using assms by (simp add: closes_def list_all2_conv_all_nth)

lemma relay_map:
  assumes "\<And>w. ob_id (f w) = ob_id w \<and> ob_event (f w) = ob_event w \<and> ob_task (f w) = ob_task w
      \<and> ob_gen (f w) = ob_gen w"
  shows "db_step d (d\<lparr>outbox := map f (outbox d)\<rparr>)"
  using assms by (intro db_step.relay) (simp add: list_all2_conv_all_nth)

section \<open>Refinement: every method makes abstract steps\<close>

text \<open>
  A method that reports one changed row has the shape below: find the row, rewrite it, perhaps touch
  the attempts, perhaps add an event, commit.
\<close>

lemma Store_Accept_steps:
  assumes "Store_Accept J e n d = (res, d')" and "nStatus n = ''pending''" and "nGeneration n = 1"
  shows "d' = d \<or> db_step d d'"
proof (cases "d' = d")
  case False
  from assms(1) False obtain request d1 where
    fresh: "\<not> list_ex (\<lambda>r. tk_id r = nID n \<or> tk_client r = nClient n \<and> tk_key r = nKey n) (tasks d)"
    and ev: "insertEvent J (io_fails e 4) (io_ids e 0) (io_clock e 0) (utc e 1) n ''dispatch'' (nNext n)
                   (d\<lparr>tasks := tasks d @ [task_of n request]\<rparr>) = Inr d1"
    and com: "commit e 5 d (n, True) d1 = (res, d')"
    by (auto simp: Store_Accept_def split: option.splits if_splits sum.splits)
  from ev obtain w where w: "new_event d w (nID n) (nGeneration n)"
    "d1 = add_event w (d\<lparr>tasks := tasks d @ [task_of n request]\<rparr>)"
    by (elim insertEvent_ok) simp
  have "new_task d (task_of n request)"
    using fresh assms(2,3) by (auto simp: new_task_def task_of_def list_ex_iff)
  moreover have "new_event d w (tk_id (task_of n request)) 1"
    using w(1) assms(3) by (simp add: task_of_def)
  ultimately have "db_step d d1" unfolding w(2) by (rule db_step.accept)
  with com False show ?thesis by (auto elim: commit_cases)
qed simp

lemma update_one_ok:
  assumes "update_one e P f d = Inr ts" and "ids_distinct d" and "\<And>r. P r \<Longrightarrow> tk_id r = u"
  obtains r where "r \<in> set (tasks d)" "P r" "task_ok (f r)" "tk_id r = u"
    "ts = put (tk_id r) (\<lambda>_. f r) (tasks d)"
proof -
  from assms(1) have upd: "sql_update task_ok P f (tasks d) = Some (ts, 1)"
    by (auto simp: update_one_def split: if_splits option.splits)
  from sql_update_one [OF upd assms(2) [unfolded ids_distinct_def] assms(3)]
  show thesis using that by metis
qed

lemma event_commit_steps:
  assumes "event_commit J e k c n route av d d1 = (res, d')"
  shows "d' = d \<or> (\<exists>w. new_event d1 w (nID n) (nGeneration n) \<and> d' = add_event w d1
    \<and> ob_route w = route \<and> ob_available w = datetime6 av)"
  using assms
  by (auto simp: event_commit_def elim!: insertEvent_ok commit_cases split: sum.splits)

lemma commit_steps: "commit e k d r d1 = (res, d') \<Longrightarrow> d' = d \<or> d' = d1"
  by (auto elim: commit_cases)

text \<open>A copy of a task row that was read under a claim: the attempt it belongs to is on record.\<close>

definition on_record :: "db \<Rightarrow> Notification \<Rightarrow> bool" where
  "on_record d n \<longleftrightarrow> (\<exists>a\<in>set (attempts d). at_task a = nID n \<and> at_gen a = nGeneration n
     \<and> int (at_no a) = nAttempts n \<and> at_lease a = nLease n)"

lemma Claim_steps:
  assumes "Claim J e u g d = (res, d')" and "ids_distinct d"
  shows "d' = d \<or> (db_step d d' \<and> (\<forall>n. res = Inr n \<longrightarrow> on_record d' n))"
proof (cases "d' = d")
  case False
  from assms(1) False obtain ts n where
    upd: "update_one e (claim_where e u g) (claim_set e) d = Inr ts"
    and sc: "scan J (io_fails e 3) (find (\<lambda>r. tk_id r = u) ts) = Inr n"
    and com: "commit e 5 d n (d\<lparr>tasks := ts, attempts := attempts d @ [started_attempt e u n]\<rparr>) = (res, d')"
    by (auto simp: Claim_def split: sum.splits if_splits)
  from upd assms(2) obtain r where r: "r \<in> set (tasks d)" "claim_where e u g r" "tk_id r = u"
    "ts = put (tk_id r) (\<lambda>_. claim_set e r) (tasks d)"
    by (rule update_one_ok) (simp add: claim_where_def)
  have "find (\<lambda>r. tk_id r = u) ts = Some (claim_set e r)"
    using r(1) unfolding r(4) r(3) by (rule find_put) (simp_all add: r(3) claim_set_def)
  with sc obtain q where n: "n = Notification_of (claim_set e r) q"
    by (auto simp: scan_def split: if_splits option.splits)
  let ?d = "d\<lparr>tasks := ts, attempts := attempts d @ [started_attempt e u n]\<rparr>"
  have "db_step d ?d" unfolding r(4)
    by (rule db_step.claim [OF r(1), where tok = "io_ids e 0"])
      (use r in \<open>simp_all add: n claim_where_def claim_set_def same_core_def Notification_of_def
        started_attempt_def\<close>)
  moreover have "on_record ?d n"
    using r by (simp add: on_record_def n started_attempt_def Notification_of_def claim_set_def)
  ultimately show ?thesis using com False by (auto elim: commit_cases)
qed simp

text \<open>A copy of a leased row that has the row's own attempt number.\<close>

definition own_number :: "db \<Rightarrow> Notification \<Rightarrow> bool" where
  "own_number d n \<longleftrightarrow> (\<forall>r\<in>set (tasks d). tk_id r = nID n \<and> tk_gen r = nGeneration n
     \<and> tk_lease r = Some (nLease n) \<and> tk_status r = ''in_flight'' \<longrightarrow> nAttempts n = int (tk_attempts r))"

lemma Finish_steps:
  assumes "Finish J e n dec nxt route d = (res, d')" and "ids_distinct d" and "gens_below (2 ^ 64 - 1) d"
    and "own_number d n"
  shows "d' = d \<or> db_step d d'"
proof (cases "d' = d")
  case False
  define as where "as = (\<lambda>h. map (\<lambda>a. if own_attempt n a then finish_attempt e dec h a else a) (attempts d))"
  from assms(1) False obtain ts h where
    upd: "update_one e (finish_where e n) (finish_set e n dec nxt) d = Inr ts"
    and fin: "(if finish_status dec = ''pending''
        then event_commit J e 4 2 (n\<lparr>nGeneration := finish_gen n dec, nNext := next_or n nxt\<rparr>) route
               (io_clock e 4) d (d\<lparr>tasks := ts, attempts := as h\<rparr>)
        else commit e 5 d () (d\<lparr>tasks := ts, attempts := as h\<rparr>)) = (res, d')"
    by (auto simp: Finish_def Let_def as_def split: sum.splits if_splits option.splits)
  from upd assms(2) obtain r where r: "r \<in> set (tasks d)" "finish_where e n r" "tk_id r = nID n"
    "ts = put (tk_id r) (\<lambda>_. finish_set e n dec nxt r) (tasks d)"
    by (rule update_one_ok) (simp add: finish_where_def)
  have gen: "finish_gen n dec = (if finish_status dec = ''pending'' then tk_gen r + 1 else tk_gen r)"
    using r(1,2) assms(3)
    by (auto simp: finish_gen_def finish_status_def finish_where_def gens_below_def uint64_inc_small)
  have "nAttempts n = int (tk_attempts r)"
    using assms(4) r(1,2) by (auto simp: own_number_def finish_where_def)
  then have cl: "closes (tk_id r) (int (tk_attempts r)) (nLease n) (attempts d) (as h)"
    unfolding as_def own_attempt_def r(3) [symmetric]
    by (simp only:) (rule closes_map, simp add: finish_attempt_def)
  note defs = finish_where_def finish_set_def same_core_def
  show ?thesis
  proof (cases "finish_status dec = ''pending''")
    case True
    with fin False obtain w where w: "new_event d w (tk_id r) (tk_gen r + 1)"
      "d' = add_event w (d\<lparr>tasks := ts, attempts := as h\<rparr>)"
      using gen r(3) by (auto dest!: event_commit_steps)
    show ?thesis unfolding w(2) r(4)
      by (rule disjI2, rule db_step.again [OF r(1) _ _ _ _ _ _ _ _ _ cl w(1)])
        (use r(2) True gen in \<open>simp_all add: defs\<close>)
  next
    case ne: False
    have "db_step d (d\<lparr>tasks := ts, attempts := as h\<rparr>)" unfolding r(4)
      by (rule db_step.settle [OF r(1) _ _ _ _ _ _ _ _ cl])
        (use r(2) ne gen in \<open>auto simp: defs finish_status_def split: if_splits\<close>)
    with fin ne False show ?thesis by (auto elim: commit_cases)
  qed
qed simp

lemma RecoverLease_steps:
  assumes "RecoverLease J e n dec nxt route d = (res, d')" and "ids_distinct d"
    and "gens_below (2 ^ 64 - 1) d" and "own_number d n"
  shows "d' = d \<or> db_step d d'"
proof (cases "d' = d")
  case False
  define as where "as = map (\<lambda>a. if own_attempt n a \<and> at_finished a = None
      then recover_attempt e a else a) (attempts d)"
  from assms(1) False obtain ts where
    upd: "update_one e (recover_where e n) (recover_set e n dec nxt) d = Inr ts"
    and fin: "(if recover_status dec = ''pending''
        then event_commit J e 4 2 (n\<lparr>nGeneration := uint64_inc (nGeneration n), nNext := next_or n nxt\<rparr>)
               route (io_clock e 4) d (d\<lparr>tasks := ts, attempts := as\<rparr>)
        else commit e 5 d () (d\<lparr>tasks := ts, attempts := as\<rparr>)) = (res, d')"
    by (auto simp: RecoverLease_def Let_def as_def split: sum.splits if_splits)
  from upd assms(2) obtain r where r: "r \<in> set (tasks d)" "recover_where e n r" "tk_id r = nID n"
    "ts = put (tk_id r) (\<lambda>_. recover_set e n dec nxt r) (tasks d)"
    by (rule update_one_ok) (simp add: recover_where_def)
  have gen: "uint64_inc (nGeneration n) = tk_gen r + 1"
    using r(1,2) assms(3) by (auto simp: recover_where_def gens_below_def uint64_inc_small)
  have "nAttempts n = int (tk_attempts r)"
    using assms(4) r(1,2) by (auto simp: own_number_def recover_where_def)
  then have cl: "closes (tk_id r) (int (tk_attempts r)) (nLease n) (attempts d) as"
    unfolding as_def own_attempt_def r(3) [symmetric] conj_assoc
    by (simp only:) (rule closes_map_open, simp add: recover_attempt_def)
  note defs = recover_where_def recover_set_def same_core_def
  show ?thesis
  proof (cases "recover_status dec = ''pending''")
    case True
    with fin False obtain w where w: "new_event d w (tk_id r) (tk_gen r + 1)"
      "d' = add_event w (d\<lparr>tasks := ts, attempts := as\<rparr>)"
      using gen r(3) by (auto dest!: event_commit_steps)
    show ?thesis unfolding w(2) r(4)
      by (rule disjI2, rule db_step.again [OF r(1) _ _ _ _ _ _ _ _ _ cl w(1)])
        (use r(2) True in \<open>simp_all add: defs\<close>)
  next
    case ne: False
    have "db_step d (d\<lparr>tasks := ts, attempts := as\<rparr>)" unfolding r(4)
      by (rule db_step.settle [OF r(1) _ _ _ _ _ _ _ _ cl])
        (use r(2) ne in \<open>auto simp: defs recover_status_def split: if_splits\<close>)
    with fin ne False show ?thesis by (auto elim: commit_cases)
  qed
qed simp

text \<open>Two methods put a waiting or a failed task back in the queue with a new generation.\<close>

lemma requeue_by_update:
  assumes upd: "update_one e P f d = Inr ts" and ids: "ids_distinct d"
    and gens: "gens_below (2 ^ 64 - 1) d"
    and ec: "event_commit J e k c (n\<lparr>nGeneration := uint64_inc (nGeneration n), nNext := x\<rparr>) route av d
      (d\<lparr>tasks := ts\<rparr>) = (res, d')"
    and P: "\<And>r. P r \<Longrightarrow> tk_id r = nID n \<and> tk_gen r = nGeneration n
      \<and> (tk_status r = ''pending'' \<or> tk_status r = ''failed'')"
    and f: "\<And>r. P r \<Longrightarrow> same_core r (f r) \<and> tk_status (f r) = ''pending'' \<and> tk_gen (f r) = tk_gen r + 1
      \<and> tk_lease (f r) = tk_lease r \<and> tk_lease_until (f r) = tk_lease_until r
      \<and> tk_attempts (f r) = tk_attempts r
      \<and> tk_cycle (f r) = (if tk_status r = ''failed'' then 0 else tk_cycle r)"
  shows "d' = d \<or> db_step d d'"
proof (cases "d' = d")
  case False
  from upd ids obtain r where r: "r \<in> set (tasks d)" "P r" "tk_id r = nID n"
    "ts = put (tk_id r) (\<lambda>_. f r) (tasks d)"
    by (rule update_one_ok) (simp add: P)
  have "uint64_inc (nGeneration n) = tk_gen r + 1"
    using r(1) P [OF r(2)] gens by (auto simp: gens_below_def uint64_inc_small)
  with ec False r(3) obtain w where w: "new_event d w (tk_id r) (tk_gen r + 1)"
    "d' = add_event w (d\<lparr>tasks := ts\<rparr>)"
    by (auto dest!: event_commit_steps)
  show ?thesis unfolding w(2) r(4)
    by (rule disjI2, rule db_step.requeue [OF r(1) _ _ _ _ _ _ _ _ w(1)])
      (use P [OF r(2)] f [OF r(2)] in simp_all)
qed simp

lemma DeferPending_steps:
  assumes "DeferPending J e n delay d = (res, d')" and "ids_distinct d" and "gens_below (2 ^ 64 - 1) d"
  shows "d' = d \<or> db_step d d'"
proof (cases "update_one e (defer_where n) (defer_set e (io_clock e 0 + delay)) d")
  case (Inr ts)
  with assms(1) show ?thesis
    by (intro requeue_by_update [OF Inr assms(2,3)])
       (auto simp: DeferPending_def Let_def defer_where_def defer_set_def same_core_def)
qed (use assms(1) in \<open>simp add: DeferPending_def Let_def\<close>)

lemma ManualRetry_steps:
  assumes "Store_ManualRetry J e n dur d = (res, d')" and "ids_distinct d" and "gens_below (2 ^ 64 - 1) d"
  shows "d' = d \<or> db_step d d'"
proof (cases "update_one e (retry_where n) (retry_set e dur) d")
  case (Inr ts)
  with assms(1) show ?thesis
    by (intro requeue_by_update [OF Inr assms(2,3)])
       (auto simp: Store_ManualRetry_def retry_where_def retry_set_def same_core_def)
qed (use assms(1) in \<open>simp add: Store_ManualRetry_def\<close>)

lemma put_const:
  assumes "distinct (map tk_id ts)" and "r \<in> set ts"
  shows "map (\<lambda>x. if tk_id x = tk_id r then f x else x) ts = put (tk_id r) (\<lambda>_. f r) ts"
  unfolding put_def using distinct_map_eqD [OF assms(1) _ assms(2)] by (auto intro!: map_cong)

lemma put_ids [simp]: "(\<And>r. tk_id (f r) = u) \<Longrightarrow> map tk_id (put u f ts) = map tk_id ts"
  by (simp add: put_def)

lemma put_other: "r \<in> set ts \<Longrightarrow> tk_id r \<noteq> u \<Longrightarrow> r \<in> set (put u f ts)"
  by (auto simp: put_def)

lemma reconcile_loop_steps:
  assumes "reconcile_loop J e i ns d = Inr d'" and "ids_distinct d" and "distinct (map nID ns)"
    and "\<forall>n\<in>set ns. nGeneration n < 2 ^ 64 - 1 \<and> (\<exists>r\<in>set (tasks d). tk_id r = nID n
      \<and> tk_gen r = nGeneration n \<and> tk_status r = ''pending'')"
  shows "(db_step ^^ length ns) d d'"
  using assms
proof (induction J e i ns d rule: reconcile_loop.induct)
  case (1 J e i d)
  then show ?case by simp
next
  case (2 J e i n ns d)
  let ?n = "n\<lparr>nGeneration := uint64_inc (nGeneration n), nNext := io_clock e (1 + 4 * i)\<rparr>"
  let ?f = "\<lambda>r :: task. r\<lparr>tk_gen := nGeneration ?n, tk_updated := utc e (2 + 4 * i)\<rparr>"
  from "2.prems"(1) obtain ts c d1 where
    nf: "\<not> io_fails e (3 + 2 * i)"
    and upd: "sql_update task_ok (\<lambda>r. tk_id r = nID ?n) ?f (tasks d) = Some (ts, c)"
    and ev: "insertEvent J (io_fails e (4 + 2 * i)) (io_ids e i) (io_clock e (3 + 4 * i))
         (utc e (4 + 4 * i)) ?n ''dispatch'' (nNext ?n) (d\<lparr>tasks := ts\<rparr>) = Inr d1"
    and rest: "reconcile_loop J e (i + 1) ns d1 = Inr d'"
    by (auto simp: Let_def split: if_splits option.splits sum.splits)
  from "2.prems"(4) obtain r where r: "r \<in> set (tasks d)" "tk_id r = nID n"
    "tk_gen r = nGeneration n" "tk_status r = ''pending''" "nGeneration n < 2 ^ 64 - 1" by auto
  have "ts = map (\<lambda>x. if tk_id x = nID n then ?f x else x) (tasks d)"
    using upd by (auto simp: sql_update_def split: if_splits)
  then have ts: "ts = put (tk_id r) (\<lambda>_. ?f r) (tasks d)"
    using put_const [OF _ r(1), of ?f] "2.prems"(2) by (simp add: ids_distinct_def r(2))
  have inc: "uint64_inc (nGeneration n) = tk_gen r + 1" using r(3,5) by (simp add: uint64_inc_small)
  from ev obtain w where w: "new_event d w (tk_id r) (tk_gen r + 1)" "d1 = add_event w (d\<lparr>tasks := ts\<rparr>)"
    by (rule insertEvent_ok) (simp add: r(2) inc)
  have step: "db_step d d1" unfolding w(2) ts
    by (rule db_step.requeue [OF r(1) _ _ _ _ _ _ _ _ w(1)]) (use r inc in \<open>simp_all add: same_core_def\<close>)
  have "ids_distinct d1"
    using "2.prems"(2) by (simp add: ids_distinct_def w(2) add_event_def ts)
  moreover have "distinct (map nID ns)" using "2.prems"(3) by simp
  moreover have "\<forall>m\<in>set ns. nGeneration m < 2 ^ 64 - 1 \<and> (\<exists>x\<in>set (tasks d1). tk_id x = nID m
      \<and> tk_gen x = nGeneration m \<and> tk_status x = ''pending'')"
  proof
    fix m assume m: "m \<in> set ns"
    then have "nID m \<in> nID ` set ns" by simp
    with "2.prems"(3) have "nID m \<noteq> tk_id r" unfolding r(2) by auto
    moreover from "2.prems"(4) m obtain x where "x \<in> set (tasks d)" "tk_id x = nID m"
      "tk_gen x = nGeneration m" "tk_status x = ''pending''" "nGeneration m < 2 ^ 64 - 1" by auto
    ultimately show "nGeneration m < 2 ^ 64 - 1 \<and> (\<exists>x\<in>set (tasks d1). tk_id x = nID m
      \<and> tk_gen x = nGeneration m \<and> tk_status x = ''pending'')"
      by (auto simp: w(2) add_event_def ts intro!: bexI [of _ x] put_other)
  qed
  ultimately have "(db_step ^^ length ns) d1 d'"
    using "2.IH" [OF refl nf upd refl ev] rest by simp
  with step show ?case unfolding list.size by (simp del: relpowp.simps(2) add: relpowp_Suc_I2)
qed

lemma Reconcile_steps:
  assumes "Reconcile J e locked d = (res, d')" and "ids_distinct d" and "gens_below (2 ^ 64 - 1) d"
  shows "\<exists>k \<le> 100. (db_step ^^ k) d d'"
proof (cases "d' = d")
  case False
  define rows where "rows = take 100 (sort_key tk_next
      (filter (\<lambda>r. stuck (utc e 0) d r \<and> \<not> locked (tk_id r)) (tasks d)))"
  define ns where "ns = map (\<lambda>r. zero_Notification\<lparr>nID := tk_id r, nGeneration := tk_gen r\<rparr>) rows"
  from assms(1) False obtain d1 where loop: "reconcile_loop J e 0 ns d = Inr d1"
    and com: "commit e (3 + 2 * length ns) d (length ns) d1 = (res, d')"
    by (auto simp: Reconcile_def Let_def rows_def ns_def split: if_splits sum.splits)
  have sub: "set rows \<subseteq> {r \<in> set (tasks d). tk_status r = ''pending''}"
    unfolding rows_def by (rule order_trans [OF set_take_subset]) (auto simp: stuck_def)
  have "distinct (map tk_id (sort_key tk_next
      (filter (\<lambda>r. stuck (utc e 0) d r \<and> \<not> locked (tk_id r)) (tasks d))))"
    using assms(2) by (auto simp: ids_distinct_def distinct_map intro: inj_on_subset)
  then have "distinct (map tk_id rows)"
    unfolding rows_def take_map [symmetric] by (rule distinct_take)
  then have "distinct (map nID ns)" by (simp add: ns_def comp_def)
  then have "(db_step ^^ length ns) d d1"
    by (rule reconcile_loop_steps [OF loop assms(2)])
      (use sub assms(3) in \<open>auto simp: ns_def gens_below_def subset_iff\<close>)
  moreover have "length ns \<le> 100" by (simp add: ns_def rows_def)
  ultimately show ?thesis using com False by (auto elim: commit_cases)
next
  case True
  then have "(db_step ^^ 0) d d'" by simp
  then show ?thesis by blast
qed

lemma sql_update_limit_relay:
  assumes "\<And>w. ob_id (f w) = ob_id w \<and> ob_event (f w) = ob_event w \<and> ob_task (f w) = ob_task w
      \<and> ob_gen (f w) = ob_gen w"
  shows "list_all2 (\<lambda>w w'. ob_id w' = ob_id w \<and> ob_event w' = ob_event w \<and> ob_task w' = ob_task w
      \<and> ob_gen w' = ob_gen w) ws (sql_update_limit k P f ws)"
  using assms by (induction k P f ws rule: sql_update_limit.induct) (auto simp: list_all2_refl)

lemma RecoverOutbox_steps: "RecoverOutbox e d = (res, d') \<Longrightarrow> d' = d \<or> db_step d d'"
  unfolding RecoverOutbox_def
  by (drule commit_steps) (auto intro!: db_step.relay sql_update_limit_relay)

lemma ClaimOutbox_steps: "ClaimOutbox J e locked d = (res, d') \<Longrightarrow> d' = d \<or> db_step d d'"
  unfolding ClaimOutbox_def
  by (auto intro!: relay_map dest!: commit_steps split: if_splits list.splits option.splits)

lemma Published_steps: "Published e ob d = (res, d') \<Longrightarrow> d' = d \<or> db_step d d'"
  unfolding Published_def Let_def
  by (auto intro!: relay_map simp: commit_def split: if_splits)

lemma ReleaseOutbox_steps: "ReleaseOutbox e ob d = (res, d') \<Longrightarrow> d' = d \<or> db_step d d'"
  unfolding ReleaseOutbox_def by (drule commit_steps) (auto intro!: relay_map)

lemma CreateBatch_steps: "CreateBatch e u client count d = (res, d') \<Longrightarrow> d' = d \<or> db_step d d'"
  unfolding CreateBatch_def
  by (auto intro!: db_step.batch dest!: commit_steps split: if_splits)

end
