(* ===== verification/Lifecycle.thy ===== *)
theory Lifecycle
  imports StoreSpec
begin

text \<open>
  The invariant of the business database and the life of a task. Every method of
  \<^verbatim>\<open>Store\<close> keeps the invariant; over any interleaving of their calls a generation is
  claimed at most once, a delivered task stays delivered, and a waiting task always has an event in
  the outbox that will trigger it.
\<close>

section \<open>The invariant\<close>

definition row_ok :: "task \<Rightarrow> bool" where
  "row_ok r \<longleftrightarrow> tk_status r \<in> {''pending'', ''in_flight'', ''delivered'', ''failed''}
     \<and> 1 \<le> tk_gen r \<and> tk_cycle r \<le> tk_attempts r
     \<and> (tk_lease r = None \<longleftrightarrow> tk_status r \<noteq> ''in_flight'')
     \<and> (tk_lease_until r = None \<longleftrightarrow> tk_status r \<noteq> ''in_flight'')"

definition tasks_ok :: "db \<Rightarrow> bool" where
  "tasks_ok d \<longleftrightarrow> distinct (map tk_id (tasks d))
     \<and> distinct (map (\<lambda>r. (tk_client r, tk_key r)) (tasks d))
     \<and> (\<forall>r\<in>set (tasks d). row_ok r)"

text \<open>
  An attempt belongs to a task, under a generation the task has reached, and left behind if it waits;
  it is open only while the task is in flight under it.
\<close>

definition attempt_of :: "attempt \<Rightarrow> task \<Rightarrow> bool" where
  "attempt_of a r \<longleftrightarrow> tk_id r = at_task a \<and> at_gen a \<le> tk_gen r
     \<and> (tk_status r = ''pending'' \<longrightarrow> at_gen a < tk_gen r)
     \<and> (at_finished a = None \<longrightarrow> tk_lease r = Some (at_lease a) \<and> at_no a = tk_attempts r)"

definition attempts_ok :: "db \<Rightarrow> bool" where
  "attempts_ok d \<longleftrightarrow> distinct (map (\<lambda>a. (at_task a, at_gen a)) (attempts d))
     \<and> (\<forall>a\<in>set (attempts d). \<exists>r\<in>set (tasks d). attempt_of a r)
     \<and> (\<forall>r\<in>set (tasks d). at_no ` {a \<in> set (attempts d). at_task a = tk_id r} = {1..tk_attempts r})
     \<and> (\<forall>r\<in>set (tasks d). \<forall>tok. tk_lease r = Some tok \<longrightarrow>
          (\<exists>a\<in>set (attempts d). at_task a = tk_id r \<and> at_gen a = tk_gen r \<and> at_no a = tk_attempts r
             \<and> at_lease a = tok))"

definition outbox_ok :: "db \<Rightarrow> bool" where
  "outbox_ok d \<longleftrightarrow> distinct (map ob_id (outbox d)) \<and> distinct (map ob_event (outbox d))
     \<and> (\<forall>w\<in>set (outbox d). ob_id w < ob_seq d)
     \<and> (\<forall>w\<in>set (outbox d). \<exists>r\<in>set (tasks d). tk_id r = ob_task w \<and> 1 \<le> ob_gen w \<and> ob_gen w \<le> tk_gen r)
     \<and> (\<forall>r\<in>set (tasks d). tk_status r = ''pending'' \<longrightarrow>
          (\<exists>w\<in>set (outbox d). ob_task w = tk_id r \<and> ob_gen w = tk_gen r))"

definition wf_db :: "db \<Rightarrow> bool" where
  "wf_db d \<longleftrightarrow> tasks_ok d \<and> attempts_ok d \<and> outbox_ok d"

lemmas ok_defs = wf_db_def tasks_ok_def attempts_ok_def outbox_ok_def

lemma wf_empty: "wf_db empty_db"
  by (simp add: ok_defs empty_db_def)

section \<open>Every abstract step keeps it\<close>

lemma set_put:
  assumes "distinct (map tk_id ts)" and "r \<in> set ts"
  shows "set (put (tk_id r) (\<lambda>_. r') ts) = insert r' {x \<in> set ts. tk_id x \<noteq> tk_id r}"
  using assms(2) by (auto simp: put_def)

lemma put_keys:
  assumes "distinct (map tk_id ts)" and "r \<in> set ts" and "k r' = k r"
  shows "map k (put (tk_id r) (\<lambda>_. r') ts) = map k ts"
  unfolding put_def using assms distinct_map_eqD [OF assms(1) _ assms(2)] by auto

text \<open>Replacing a row by one with the same key and owner.\<close>

lemma tasks_ok_put:
  assumes "tasks_ok d" and "r \<in> set (tasks d)" and "same_core r r'" and "row_ok r'"
    and "tasks d' = put (tk_id r) (\<lambda>_. r') (tasks d)"
  shows "tasks_ok d'"
proof -
  have dist: "distinct (map tk_id (tasks d))" using assms(1) by (simp add: tasks_ok_def)
  have "map tk_id (tasks d') = map tk_id (tasks d)"
    and "map (\<lambda>r. (tk_client r, tk_key r)) (tasks d') = map (\<lambda>r. (tk_client r, tk_key r)) (tasks d)"
    unfolding assms(5) using assms(3) by (intro put_keys [OF dist assms(2)]; simp add: same_core_def)+
  with assms show ?thesis by (auto simp: tasks_ok_def set_put [OF dist assms(2)])
qed

lemma step_tasks_ok: "db_step d d' \<Longrightarrow> tasks_ok d \<Longrightarrow> tasks_ok d'"
proof (induction rule: db_step.induct)
  case (accept d t w)
  then show ?case by (auto simp: tasks_ok_def new_task_def add_event_def row_ok_def)
next
  case (claim r d r' tok l a)
  then have "row_ok r" by (simp add: tasks_ok_def)
  with claim show ?case by - (rule tasks_ok_put [of d r r'], auto simp: row_ok_def)
next
  case (settle r d tok r' as)
  then have "row_ok r" by (simp add: tasks_ok_def)
  with settle show ?case by - (rule tasks_ok_put [of d r r'], auto simp: row_ok_def)
next
  case (again r d tok r' as w)
  then have "row_ok r" by (simp add: tasks_ok_def)
  with again show ?case by - (rule tasks_ok_put [of d r r'], auto simp: row_ok_def add_event_def)
next
  case (requeue r d r' w)
  then have "row_ok r" by (simp add: tasks_ok_def)
  with requeue show ?case by - (rule tasks_ok_put [of d r r'], auto simp: row_ok_def add_event_def)
qed (auto simp: tasks_ok_def)

lemma outbox_ok_relay:
  assumes "list_all2 (\<lambda>w w'. ob_id w' = ob_id w \<and> ob_event w' = ob_event w \<and> ob_task w' = ob_task w
      \<and> ob_gen w' = ob_gen w) (outbox d) ws" and "outbox_ok d"
  shows "outbox_ok (d\<lparr>outbox := ws\<rparr>)"
proof -
  let ?k = "\<lambda>w. (ob_id w, ob_event w, ob_task w, ob_gen w)"
  have eq: "map ?k ws = map ?k (outbox d)"
    using assms(1) by (rule list_all2_map_eq) simp
  have "map ob_id ws = map ob_id (outbox d)" "map ob_event ws = map ob_event (outbox d)"
    using assms(1) by (auto elim!: list_all2_map_eq)
  then show ?thesis
    using assms(2) map_eq_ball [OF eq, of "\<lambda>(i, _). i < ob_seq d"]
      map_eq_ball [OF eq, of "\<lambda>(_, _, u, g). \<exists>r\<in>set (tasks d). tk_id r = u \<and> 1 \<le> g \<and> g \<le> tk_gen r"]
      map_eq_bex [OF eq, of "\<lambda>(_, _, u, g). u = tk_id r \<and> g = tk_gen r" for r :: task]
    by (simp add: outbox_ok_def)
qed

text \<open>What holds of the row of an identifier still holds after the replacement of one row.\<close>

lemma put_bex:
  assumes "distinct (map tk_id ts)" and "r \<in> set ts" and "tk_id r' = tk_id r"
    and "\<exists>x\<in>set ts. tk_id x = u \<and> Q x" and "tk_id r = u \<Longrightarrow> Q r \<Longrightarrow> Q r'"
  shows "\<exists>x\<in>set (put (tk_id r) (\<lambda>_. r') ts). tk_id x = u \<and> Q x"
proof -
  from assms(4) obtain x where x: "x \<in> set ts" "tk_id x = u" "Q x" by blast
  show ?thesis
  proof (cases "tk_id x = tk_id r")
    case True
    then have "x = r" using distinct_map_eqD [OF assms(1) x(1) assms(2)] by simp
    then have "Q r'" "tk_id r' = u" using x assms(3,5) by auto
    then show ?thesis unfolding set_put [OF assms(1,2)] by blast
  next
    case False
    with x show ?thesis unfolding set_put [OF assms(1,2)] by blast
  qed
qed

lemma outbox_ok_put:
  assumes ok: "outbox_ok d" and t: "distinct (map tk_id (tasks d))" and r: "r \<in> set (tasks d)"
    and r': "tk_id r' = tk_id r" "tk_gen r \<le> tk_gen r'"
    and ev: "\<forall>w\<in>set ws. ob_id w = ob_seq d \<and> ob_task w = tk_id r \<and> ob_gen w = tk_gen r' \<and> 1 \<le> ob_gen w
      \<and> (\<forall>x\<in>set (outbox d). ob_event x \<noteq> ob_event w)"
    and one: "length ws \<le> 1" and pend: "tk_status r' = ''pending'' \<longrightarrow> ws \<noteq> []"
    and d': "tasks d' = put (tk_id r) (\<lambda>_. r') (tasks d)" "outbox d' = outbox d @ ws"
      "ob_seq d' = ob_seq d + length ws"
  shows "outbox_ok d'"
proof -
  have ref: "\<exists>x\<in>set (tasks d'). tk_id x = ob_task w \<and> 1 \<le> ob_gen w \<and> ob_gen w \<le> tk_gen x"
    if w: "w \<in> set (outbox d')" for w
  proof (cases "w \<in> set (outbox d)")
    case True
    with ok have "\<exists>x\<in>set (tasks d). tk_id x = ob_task w \<and> (1 \<le> ob_gen w \<and> ob_gen w \<le> tk_gen x)"
      by (simp add: outbox_ok_def)
    then show ?thesis unfolding d'(1) by (rule put_bex [OF t r r'(1)]) (use r'(2) in simp)
  next
    case False
    with w ev r'(1) show ?thesis unfolding d' set_put [OF t r] by auto
  qed
  have "ws = [] \<or> (\<exists>w. ws = [w])" using one by (cases ws) auto
  then have "distinct (map ob_id (outbox d'))" "distinct (map ob_event (outbox d'))"
    "\<forall>w\<in>set (outbox d'). ob_id w < ob_seq d'"
    using ok ev by (auto simp: outbox_ok_def d'(2,3) less_Suc_eq)
  moreover have "\<exists>w\<in>set (outbox d'). ob_task w = tk_id x \<and> ob_gen w = tk_gen x"
    if x: "x \<in> set (tasks d')" "tk_status x = ''pending''" for x
  proof (cases "x = r'")
    case True
    with x pend obtain w where "w \<in> set ws" by (cases ws) auto
    with ev True r'(1) show ?thesis by (auto simp: d'(2))
  next
    case False
    with x ok show ?thesis by (auto simp: outbox_ok_def d'(1,2) set_put [OF t r])
  qed
  ultimately show ?thesis using ref by (simp add: outbox_ok_def)
qed

lemma step_outbox_ok: "db_step d d' \<Longrightarrow> tasks_ok d \<Longrightarrow> outbox_ok d \<Longrightarrow> outbox_ok d'"
proof (induction rule: db_step.induct)
  case (batch d bs)
  then show ?case by (simp add: outbox_ok_def)
next
  case (accept d t w)
  then show ?case
    by (auto simp: outbox_ok_def new_task_def new_event_def add_event_def less_Suc_eq)
next
  case (claim r d r' tok l a)
  then show ?case
    by - (rule outbox_ok_put [of d r r' "[]"], auto simp: tasks_ok_def same_core_def)
next
  case (settle r d tok r' as)
  then show ?case
    by - (rule outbox_ok_put [of d r r' "[]"], auto simp: tasks_ok_def same_core_def)
next
  case (again r d tok r' as w)
  then show ?case
    by - (rule outbox_ok_put [of d r r' "[w]"],
      auto simp: tasks_ok_def same_core_def new_event_def add_event_def)
next
  case (requeue r d r' w)
  then show ?case
    by - (rule outbox_ok_put [of d r r' "[w]"],
      auto simp: tasks_ok_def same_core_def new_event_def add_event_def)
next
  case (relay d ws)
  then show ?case by (simp add: outbox_ok_relay)
qed

subsection \<open>Attempts\<close>

lemma closes_keys:
  assumes "closes u k tok as as'"
  shows "map (\<lambda>a. (at_task a, at_no a, at_gen a, at_lease a)) as' =
    map (\<lambda>a. (at_task a, at_no a, at_gen a, at_lease a)) as"
  using assms unfolding closes_def by (rule list_all2_map_eq) simp

lemma closes_open:
  assumes "closes u k tok as as'" and "a \<in> set as'" and "at_finished a = None"
  shows "a \<in> set as \<and> \<not> (at_task a = u \<and> int (at_no a) = k \<and> at_lease a = tok)"
proof -
  from assms(2) obtain i where i: "i < length as'" "a = as' ! i" by (auto simp: in_set_conv_nth)
  moreover have len: "length as' = length as"
    using assms(1) unfolding closes_def by (simp add: list_all2_lengthD)
  ultimately have "if at_task (as ! i) = u \<and> int (at_no (as ! i)) = k \<and> at_lease (as ! i) = tok
      then at_finished a \<noteq> None else a = as ! i"
    using list_all2_nthD2 [OF assms(1) [unfolded closes_def] i(1)] i(2) by simp
  moreover have "as ! i \<in> set as" using i len by simp
  ultimately show ?thesis using assms(3) by (auto split: if_splits)
qed

text \<open>Everything that speaks of the keys of the attempts alone survives a change of the other columns.\<close>

lemma attempt_keys_facts:
  fixes as as' :: "attempt list"
  assumes eq: "map (\<lambda>a. (at_task a, at_no a, at_gen a, at_lease a)) as' =
    map (\<lambda>a. (at_task a, at_no a, at_gen a, at_lease a)) as"
  shows "distinct (map (\<lambda>a. (at_task a, at_gen a)) as') = distinct (map (\<lambda>a. (at_task a, at_gen a)) as)"
    and "at_no ` {a \<in> set as'. at_task a = v} = at_no ` {a \<in> set as. at_task a = v}"
    and "(\<exists>a\<in>set as'. at_task a = v \<and> at_gen a = g \<and> at_no a = m \<and> at_lease a = l)
       = (\<exists>a\<in>set as. at_task a = v \<and> at_gen a = g \<and> at_no a = m \<and> at_lease a = l)"
    and "a' \<in> set as' \<Longrightarrow> \<exists>a\<in>set as. at_task a = at_task a' \<and> at_gen a = at_gen a'"
proof -
  have "map (\<lambda>a. (at_task a, at_gen a)) as' = map (\<lambda>a. (at_task a, at_gen a)) as"
    using arg_cong [OF eq, of "map (\<lambda>(t, n, g, l). (t, g))"] by (simp add: comp_def)
  then show "distinct (map (\<lambda>a. (at_task a, at_gen a)) as') = distinct (map (\<lambda>a. (at_task a, at_gen a)) as)"
    by simp
  have "(\<exists>a\<in>set as'. at_task a = v \<and> at_no a = m) = (\<exists>a\<in>set as. at_task a = v \<and> at_no a = m)" for m
    using map_eq_bex [OF eq, of "\<lambda>(t, n, g, l). t = v \<and> n = m"] by simp
  then show "at_no ` {a \<in> set as'. at_task a = v} = at_no ` {a \<in> set as. at_task a = v}"
    unfolding image_def Bex_def mem_Collect_eq conj_assoc by (metis (no_types, lifting))
  show "(\<exists>a\<in>set as'. at_task a = v \<and> at_gen a = g \<and> at_no a = m \<and> at_lease a = l)
       = (\<exists>a\<in>set as. at_task a = v \<and> at_gen a = g \<and> at_no a = m \<and> at_lease a = l)"
    using map_eq_bex [OF eq, of "\<lambda>(t, n, h, k). t = v \<and> h = g \<and> n = m \<and> k = l"] by simp
  show "a' \<in> set as' \<Longrightarrow> \<exists>a\<in>set as. at_task a = at_task a' \<and> at_gen a = at_gen a'"
    using map_eq_bex [OF eq, of "\<lambda>(t, n, h, k). t = at_task a' \<and> h = at_gen a'"] by auto
qed

text \<open>A row leaves its flight or is put back in the queue: no attempt is added, none of its own stays open.\<close>

lemma attempts_ok_put:
  assumes ok: "attempts_ok d" and t: "distinct (map tk_id (tasks d))" and r: "r \<in> set (tasks d)"
    and r': "tk_id r' = tk_id r" "tk_gen r \<le> tk_gen r'" "tk_attempts r' = tk_attempts r" "tk_lease r' = None"
      "tk_status r' = ''pending'' \<longrightarrow> tk_gen r < tk_gen r'"
    and keys: "map (\<lambda>a. (at_task a, at_no a, at_gen a, at_lease a)) (attempts d') =
      map (\<lambda>a. (at_task a, at_no a, at_gen a, at_lease a)) (attempts d)"
    and op: "\<And>a. a \<in> set (attempts d') \<Longrightarrow> at_finished a = None \<Longrightarrow>
      a \<in> set (attempts d) \<and> at_task a \<noteq> tk_id r"
    and d': "tasks d' = put (tk_id r) (\<lambda>_. r') (tasks d)"
  shows "attempts_ok d'"
proof -
  note facts = attempt_keys_facts [OF keys]
  have ref: "\<exists>x\<in>set (tasks d'). attempt_of a' x" if a': "a' \<in> set (attempts d')" for a'
  proof -
    from facts(4) [OF a'] obtain a where a: "a \<in> set (attempts d)" "at_task a = at_task a'"
      "at_gen a = at_gen a'" by blast
    define b where "b = (if at_finished a' = None then a' else a)"
    have b: "b \<in> set (attempts d)" "at_task b = at_task a'" "at_gen b = at_gen a'"
      using a op [OF a'] by (auto simp: b_def)
    from ok b(1) obtain x where x: "x \<in> set (tasks d)" "attempt_of b x"
      by (auto simp: attempts_ok_def)
    show ?thesis
    proof (cases "tk_id x = tk_id r")
      case True
      then have "x = r" using distinct_map_eqD [OF t x(1) r] by simp
      moreover have "at_finished a' \<noteq> None" using op [OF a'] x(2) b(2) True by (auto simp: attempt_of_def)
      ultimately have "attempt_of a' r'" using x(2) b(2,3) r' by (auto simp: attempt_of_def)
      then show ?thesis by (auto simp: d' set_put [OF t r])
    next
      case False
      have "attempt_of a' x" using x(2) b(2,3) by (auto simp: attempt_of_def b_def)
      with x(1) False show ?thesis by (auto simp: d' set_put [OF t r])
    qed
  qed
  have rows: "\<forall>x\<in>set (tasks d'). tk_lease x = None \<and> tk_id x = tk_id r \<and> tk_attempts x = tk_attempts r
      \<or> x \<in> set (tasks d)"
    using r' by (auto simp: d' set_put [OF t r])
  show ?thesis unfolding attempts_ok_def facts(1-3)
  proof (intro conjI ballI allI impI)
    show "distinct (map (\<lambda>a. (at_task a, at_gen a)) (attempts d))" using ok by (simp add: attempts_ok_def)
  next
    fix x assume x: "x \<in> set (tasks d')"
    have all: "at_no ` {a \<in> set (attempts d). at_task a = tk_id y} = {1..tk_attempts y}"
      if "y \<in> set (tasks d)" for y using ok that by (simp add: attempts_ok_def)
    show "at_no ` {a \<in> set (attempts d). at_task a = tk_id x} = {1..tk_attempts x}"
    proof (cases "x \<in> set (tasks d)")
      case False
      with rows x have "tk_id x = tk_id r" "tk_attempts x = tk_attempts r" by auto
      then show ?thesis using all [OF r] by simp
    qed (rule all)
  next
    fix x tok assume "x \<in> set (tasks d')" "tk_lease x = Some tok"
    with rows have "x \<in> set (tasks d)" by auto
    with ok \<open>tk_lease x = Some tok\<close>
    show "\<exists>a\<in>set (attempts d). at_task a = tk_id x \<and> at_gen a = tk_gen x \<and> at_no a = tk_attempts x
       \<and> at_lease a = tok" unfolding attempts_ok_def by blast
  qed (rule ref)
qed

text \<open>The attempts of a row that waits are all closed, those of a row in flight but the last one.\<close>

lemma attempt_row:
  assumes "attempts_ok d" and "distinct (map tk_id (tasks d))" and "r \<in> set (tasks d)"
    and "a \<in> set (attempts d)" and "at_task a = tk_id r"
  shows "attempt_of a r"
proof -
  from assms(1,4) obtain x where x: "x \<in> set (tasks d)" "attempt_of a x" by (auto simp: attempts_ok_def)
  then have "tk_id x = tk_id r" using assms(5) by (simp add: attempt_of_def)
  then have "x = r" using distinct_map_eqD [OF assms(2) x(1) assms(3)] by simp
  with x show ?thesis by simp
qed

lemma attempts_ok_claim:
  assumes ok: "attempts_ok d" and t: "distinct (map tk_id (tasks d))" and r: "r \<in> set (tasks d)"
    and pend: "tk_status r = ''pending''" "tk_lease r = None"
    and r': "tk_id r' = tk_id r" "tk_gen r' = tk_gen r" "tk_attempts r' = tk_attempts r + 1"
      "tk_lease r' = Some tok" "tk_status r' = ''in_flight''"
    and a: "at_task a = tk_id r" "at_no a = tk_attempts r + 1" "at_gen a = tk_gen r" "at_lease a = tok"
    and d': "tasks d' = put (tk_id r) (\<lambda>_. r') (tasks d)" "attempts d' = attempts d @ [a]"
  shows "attempts_ok d'"
proof -
  note row = attempt_row [OF ok t r]
  have fresh: "at_gen b < tk_gen r \<and> at_finished b \<noteq> None"
    if "b \<in> set (attempts d)" "at_task b = tk_id r" for b
    using row [OF that] pend by (auto simp: attempt_of_def)
  have ref: "\<exists>x\<in>set (tasks d'). attempt_of b x" if b: "b \<in> set (attempts d)" for b
  proof -
    from ok b obtain x where x: "x \<in> set (tasks d)" "attempt_of b x" by (auto simp: attempts_ok_def)
    show ?thesis
    proof (cases "tk_id x = tk_id r")
      case True
      then have "at_task b = tk_id r" using x(2) by (simp add: attempt_of_def)
      with fresh [OF b] r' have "attempt_of b r'" by (auto simp: attempt_of_def)
      then show ?thesis by (auto simp: d' set_put [OF t r])
    next
      case False
      with x show ?thesis by (auto simp: d' set_put [OF t r])
    qed
  qed
  have "attempt_of a r'" using a r' by (simp add: attempt_of_def)
  then have refs: "\<forall>b\<in>set (attempts d'). \<exists>x\<in>set (tasks d'). attempt_of b x"
    using ref by (auto simp: d' set_put [OF t r])
  have "(at_task a, at_gen a) \<notin> (\<lambda>a. (at_task a, at_gen a)) ` set (attempts d)"
    using fresh a by force
  then have dist: "distinct (map (\<lambda>a. (at_task a, at_gen a)) (attempts d'))"
    using ok by (simp add: attempts_ok_def d')
  have old: "at_no ` {b \<in> set (attempts d). at_task b = tk_id x} = {1..tk_attempts x}"
    if "x \<in> set (tasks d)" for x using ok that by (simp add: attempts_ok_def)
  have "{b \<in> set (attempts d'). at_task b = tk_id x} =
      (if tk_id x = tk_id r then insert a else (\<lambda>S. S)) {b \<in> set (attempts d). at_task b = tk_id x}" for x :: task
    using a(1) by (auto simp: d'(2))
  then have nos: "at_no ` {b \<in> set (attempts d'). at_task b = tk_id x} = {1..tk_attempts x}"
    if x: "x \<in> set (tasks d')" for x
  proof (cases "x = r'")
    case True
    with old [OF r] r' a(2) \<open>\<And>x. {b \<in> set (attempts d'). at_task b = tk_id x} = _\<close> show ?thesis
      by (simp add: atLeastAtMostSuc_conv)
  next
    case False
    with x have "x \<in> set (tasks d)" "tk_id x \<noteq> tk_id r" by (auto simp: d'(1) set_put [OF t r])
    with old \<open>\<And>x. {b \<in> set (attempts d'). at_task b = tk_id x} = _\<close> show ?thesis by simp
  qed
  have "\<exists>b\<in>set (attempts d'). at_task b = tk_id x \<and> at_gen b = tk_gen x \<and> at_no b = tk_attempts x
      \<and> at_lease b = l" if "x \<in> set (tasks d')" "tk_lease x = Some l" for x l
    using that ok a r' by (auto simp: d' set_put [OF t r] attempts_ok_def)
  with refs dist nos show ?thesis unfolding attempts_ok_def by blast
qed

lemma closed_after:
  assumes ok: "attempts_ok d" and t: "distinct (map tk_id (tasks d))" and r: "r \<in> set (tasks d)"
    and tok: "tk_lease r = Some tok" and cl: "closes (tk_id r) (int (tk_attempts r)) tok (attempts d) as"
    and a: "a \<in> set as" "at_finished a = None"
  shows "a \<in> set (attempts d) \<and> at_task a \<noteq> tk_id r"
  using closes_open [OF cl a] attempt_row [OF ok t r, of a] tok a(2) by (auto simp: attempt_of_def)

lemma step_attempts_ok: "db_step d d' \<Longrightarrow> tasks_ok d \<Longrightarrow> attempts_ok d \<Longrightarrow> attempts_ok d'"
proof (induction rule: db_step.induct)
  case (accept d t w)
  have none: "a \<in> set (attempts d) \<Longrightarrow> at_task a \<noteq> tk_id t" for a
    using accept by (auto simp: attempts_ok_def attempt_of_def new_task_def)
  then have "{a \<in> set (attempts d). at_task a = tk_id t} = {}" by auto
  with accept show ?case by (auto simp: attempts_ok_def add_event_def new_task_def)
next
  case (claim r d r' tok l a)
  then have "row_ok r" "distinct (map tk_id (tasks d))" by (auto simp: tasks_ok_def)
  with claim show ?case
    by - (rule attempts_ok_claim [of d r r' tok a], auto simp: row_ok_def same_core_def)
next
  case (settle r d tok r' as)
  then have "distinct (map tk_id (tasks d))" by (simp add: tasks_ok_def)
  with settle closed_after [OF settle(12) this settle(1,3,10)] show ?case
    by - (rule attempts_ok_put [of d r r'], auto simp: same_core_def dest: closes_keys)
next
  case (again r d tok r' as w)
  then have "distinct (map tk_id (tasks d))" by (simp add: tasks_ok_def)
  with again closed_after [OF again(14) this again(1,3,11)] show ?case
    by - (rule attempts_ok_put [of d r r'], auto simp: same_core_def add_event_def dest: closes_keys)
next
  case (requeue r d r' w)
  then have t: "row_ok r" "distinct (map tk_id (tasks d))" by (auto simp: tasks_ok_def)
  have "at_task a \<noteq> tk_id r" if "a \<in> set (attempts d)" "at_finished a = None" for a
    using attempt_row [OF requeue(12) t(2) requeue(1) that(1)] that(2) t(1) requeue(2)
    by (auto simp: row_ok_def attempt_of_def)
  with requeue t show ?case
    by - (rule attempts_ok_put [of d r r'], auto simp: same_core_def add_event_def row_ok_def)
qed (auto simp: attempts_ok_def)

lemma step_wf: "db_step d d' \<Longrightarrow> wf_db d \<Longrightarrow> wf_db d'"
  unfolding wf_db_def using step_tasks_ok step_attempts_ok step_outbox_ok by blast

section \<open>Runs of the store\<close>

text \<open>
  The calls the program makes on the store, in any order and with any faults, together with the
  copies of rows under a lease that callers hold: \<^verbatim>\<open>Finish\<close> is called on what
  \<^verbatim>\<open>Claim\<close> returned and \<^verbatim>\<open>RecoverLease\<close> on what \<^verbatim>\<open>Expired\<close> listed, however old the
  copy is by then. \<^verbatim>\<open>Service.Accept\<close> submits pending tasks of generation 1.
\<close>

inductive store_call :: "codec \<Rightarrow> db \<times> Notification set \<Rightarrow> db \<times> Notification set \<Rightarrow> bool" for J where
  call_batch: "CreateBatch e u client count d = (res, d') \<Longrightarrow> store_call J (d, S) (d', S)"
| call_accept: "Store_Accept J e n d = (acc, d') \<Longrightarrow> nStatus n = ''pending'' \<Longrightarrow> nGeneration n = 1 \<Longrightarrow>
    store_call J (d, S) (d', S)"
| call_claim: "Claim J e u g d = (Inr n, d') \<Longrightarrow> store_call J (d, S) (d', insert n S)"
| call_claim_error: "Claim J e u g d = (Inl x, d') \<Longrightarrow> store_call J (d, S) (d', S)"
| call_finish: "Finish J e n dec nxt route d = (res, d') \<Longrightarrow> n \<in> S \<Longrightarrow> store_call J (d, S) (d', S)"
| call_defer: "DeferPending J e n delay d = (res, d') \<Longrightarrow> store_call J (d, S) (d', S)"
| call_expired: "Expired J e d = Inr ns \<Longrightarrow> store_call J (d, S) (d, S \<union> set ns)"
| call_recover: "RecoverLease J e n dec nxt route d = (res, d') \<Longrightarrow> n \<in> S \<Longrightarrow> store_call J (d, S) (d', S)"
| call_recover_outbox: "RecoverOutbox e d = (res, d') \<Longrightarrow> store_call J (d, S) (d', S)"
| call_reconcile: "Reconcile J e locked d = (cnt, d') \<Longrightarrow> store_call J (d, S) (d', S)"
| call_retry: "Store_ManualRetry J e n dur d = (res, d') \<Longrightarrow> store_call J (d, S) (d', S)"
| call_claim_outbox: "ClaimOutbox J e held d = (out, d') \<Longrightarrow> store_call J (d, S) (d', S)"
| call_published: "Published e ob d = (res, d') \<Longrightarrow> store_call J (d, S) (d', S)"
| call_release: "ReleaseOutbox e ob d = (res, d') \<Longrightarrow> store_call J (d, S) (d', S)"

inductive runs :: "codec \<Rightarrow> nat \<Rightarrow> db \<times> Notification set \<Rightarrow> bool" for J where
  runs_init: "runs J 0 (empty_db, {})"
| runs_call: "runs J k s \<Longrightarrow> store_call J s s' \<Longrightarrow> runs J (k + 1) s'"

text \<open>
  A generation is a \<^verbatim>\<open>uint64\<close>. No call raises one by more than 1, so under \<open>2 ^ 64 - 2\<close> calls none
  of them wraps; \<open>2 ^ 57\<close> calls leave room for the 100 tasks one \<^verbatim>\<open>Reconcile\<close> may requeue.
\<close>

lemma step_gens: "db_step d d' \<Longrightarrow> gens_below b d \<Longrightarrow> 2 \<le> b \<Longrightarrow> gens_below (b + 1) d'"
  by (induction rule: db_step.induct) (fastforce simp: gens_below_def put_def add_event_def new_task_def)+

lemma step_record: "db_step d d' \<Longrightarrow> on_record d n \<Longrightarrow> on_record d' n"
proof (induction rule: db_step.induct)
  case (settle r d tok r' as)
  then show ?case
    using map_eq_bex [OF closes_keys [OF settle(10)], of "\<lambda>(t, m, g, l). t = nID n \<and> g = nGeneration n
      \<and> int m = nAttempts n \<and> l = nLease n"] by (simp add: on_record_def conj_ac)
next
  case (again r d tok r' as w)
  then show ?case
    using map_eq_bex [OF closes_keys [OF again(11)], of "\<lambda>(t, m, g, l). t = nID n \<and> g = nGeneration n
      \<and> int m = nAttempts n \<and> l = nLease n"] by (simp add: on_record_def add_event_def conj_ac)
qed (auto simp: on_record_def add_event_def)

lemma leased_attempt:
  assumes "wf_db d" and "r \<in> set (tasks d)" and "tk_lease r = Some tok"
  obtains a where "a \<in> set (attempts d)" "at_task a = tk_id r" "at_gen a = tk_gen r"
    "at_no a = tk_attempts r" "at_lease a = tok"
  using assms unfolding wf_db_def attempts_ok_def by blast

lemma own_number_on_record:
  assumes "wf_db d" and "on_record d n"
  shows "own_number d n"
  unfolding own_number_def
proof (intro ballI impI)
  fix r assume r: "r \<in> set (tasks d)" and
    c: "tk_id r = nID n \<and> tk_gen r = nGeneration n \<and> tk_lease r = Some (nLease n) \<and> tk_status r = ''in_flight''"
  from assms(2) obtain a where a: "a \<in> set (attempts d)" "at_task a = nID n" "at_gen a = nGeneration n"
    "int (at_no a) = nAttempts n" by (auto simp: on_record_def)
  from assms(1) r c obtain b where b: "b \<in> set (attempts d)" "at_task b = nID n" "at_gen b = nGeneration n"
    "at_no b = tk_attempts r" using leased_attempt by metis
  have "distinct (map (\<lambda>a. (at_task a, at_gen a)) (attempts d))"
    using assms(1) by (simp add: wf_db_def attempts_ok_def)
  from distinct_map_eqD [OF this a(1) b(1)] a b have "a = b" by simp
  with a(4) b(4) show "nAttempts n = int (tk_attempts r)" by simp
qed

lemma scan_rows_in:
  "scan_rows J rs = Inr ns \<Longrightarrow> n \<in> set ns \<Longrightarrow> \<exists>r\<in>set rs. \<exists>q. n = Notification_of r q"
proof (induction J rs arbitrary: ns rule: scan_rows.induct)
  case (2 J r rs)
  then obtain q ms where "ns = Notification_of r q # ms" "scan_rows J rs = Inr ms"
    by (auto simp: scan_def split: sum.splits option.splits)
  with 2 show ?case by (auto simp: scan_def split: sum.splits)
qed simp

lemma Expired_on_record:
  assumes "wf_db d" and "Expired J e d = Inr ns" and "n \<in> set ns"
  shows "on_record d n"
proof -
  from assms(2) have "scan_rows J (take 100 (sort_key (\<lambda>r. the (tk_lease_until r))
      (filter (expired_where (utc e 0)) (tasks d)))) = Inr ns"
    by (auto simp: Expired_def split: sum.splits if_splits)
  from scan_rows_in [OF this assms(3)] obtain r q where
    "r \<in> set (filter (expired_where (utc e 0)) (tasks d))" and n: "n = Notification_of r q"
    by (auto dest: in_set_takeD)
  then have r: "r \<in> set (tasks d)" "tk_status r = ''in_flight''" by (auto simp: expired_where_def)
  with assms(1) obtain tok where tok: "tk_lease r = Some tok"
    by (auto simp: wf_db_def tasks_ok_def row_ok_def)
  from assms(1) r(1) tok show ?thesis
    by (rule leased_attempt) (auto simp: on_record_def n Notification_of_def tok)
qed

text \<open>One call is a bounded number of abstract steps, and keeps every copy on record.\<close>

definition steps_le :: "db \<Rightarrow> db \<Rightarrow> bool" where
  "steps_le d d' \<longleftrightarrow> (\<exists>k \<le> 100. (db_step ^^ k) d d')"

lemma steps_le_one: "d' = d \<or> db_step d d' \<Longrightarrow> steps_le d d'"
  unfolding steps_le_def by (metis le0 one_le_numeral relpowp_0_I relpowp_1)

definition good :: "db \<times> Notification set \<Rightarrow> bool" where
  "good s \<longleftrightarrow> wf_db (fst s) \<and> (\<forall>n\<in>snd s. on_record (fst s) n)"

lemma relpowp_wf: "(db_step ^^ k) d d' \<Longrightarrow> wf_db d \<Longrightarrow> wf_db d'"
  by (induction k arbitrary: d') (auto intro: step_wf)

lemma relpowp_record: "(db_step ^^ k) d d' \<Longrightarrow> on_record d n \<Longrightarrow> on_record d' n"
  by (induction k arbitrary: d') (auto intro: step_record)

lemma relpowp_gens: "(db_step ^^ k) d d' \<Longrightarrow> gens_below b d \<Longrightarrow> 2 \<le> b \<Longrightarrow> gens_below (b + k) d'"
proof (induction k arbitrary: d')
  case (Suc k)
  from Suc.prems(1) obtain x where x: "(db_step ^^ k) d x" "db_step x d'" by auto
  have "gens_below (b + k) x" using Suc x(1) by blast
  from step_gens [OF x(2) this] Suc.prems(3) show ?case by simp
qed simp

lemma gens_below_mono: "gens_below b d \<Longrightarrow> b \<le> c \<Longrightarrow> gens_below c d"
  by (auto simp: gens_below_def)

lemma wf_ids: "wf_db d \<Longrightarrow> ids_distinct d"
  by (simp add: wf_db_def tasks_ok_def ids_distinct_def)

lemmas call_le =
  CreateBatch_steps [THEN steps_le_one] Store_Accept_steps [THEN steps_le_one]
  Finish_steps [THEN steps_le_one] DeferPending_steps [THEN steps_le_one]
  RecoverLease_steps [THEN steps_le_one] RecoverOutbox_steps [THEN steps_le_one]
  ManualRetry_steps [THEN steps_le_one] ClaimOutbox_steps [THEN steps_le_one]
  Published_steps [THEN steps_le_one] ReleaseOutbox_steps [THEN steps_le_one]

lemma Claim_le:
  assumes "Claim J e u g d = (res, d')" and "ids_distinct d"
  shows "steps_le d d' \<and> (\<forall>n. res = Inr n \<longrightarrow> on_record d' n)"
proof -
  have "d' \<noteq> d" if "res = Inr n" for n
    using assms(1) that
    by (auto simp: Claim_def commit_def split: sum.splits if_splits dest!: arg_cong [of _ _ attempts])
  with Claim_steps [OF assms] show ?thesis by (auto intro: steps_le_one)
qed

lemma call_steps:
  assumes "store_call J s s'" and "good s" and "gens_below (2 ^ 64 - 1) (fst s)"
  shows "steps_le (fst s) (fst s') \<and> (\<forall>n\<in>snd s'. n \<in> snd s \<or> on_record (fst s') n)"
  using assms
proof (induction rule: store_call.induct)
  case (call_claim e u g d n d' S)
  then show ?case using Claim_le wf_ids by (fastforce simp: good_def)
next
  case (call_claim_error e u g d x d' S)
  then show ?case using Claim_le wf_ids by (fastforce simp: good_def)
next
  case (call_expired e d ns S)
  then show ?case by (auto simp: good_def intro: steps_le_one Expired_on_record)
next
  case (call_reconcile e locked d cnt d' S)
  then show ?case using Reconcile_steps by (simp add: steps_le_def good_def wf_ids)
qed (unfold good_def fst_conv snd_conv, (blast intro: call_le wf_ids own_number_on_record)+)

lemma runs_good:
  assumes "runs J k s" and "k < 2 ^ 57"
  shows "good s \<and> gens_below (100 * k + 2) (fst s)"
  using assms
proof (induction rule: runs.induct)
  case runs_init
  then show ?case using wf_empty by (simp add: good_def gens_below_def) (simp add: empty_db_def)
next
  case (runs_call k s s')
  then have g: "good s" and b: "gens_below (100 * k + 2) (fst s)" by auto
  have "gens_below (2 ^ 64 - 1) (fst s)" using b by (rule gens_below_mono) (use runs_call.prems in simp)
  from call_steps [OF runs_call.hyps(2) g this] obtain m where
    m: "m \<le> 100" "(db_step ^^ m) (fst s) (fst s')"
    and seen: "\<forall>n\<in>snd s'. n \<in> snd s \<or> on_record (fst s') n" by (auto simp: steps_le_def)
  have "gens_below (100 * (k + 1) + 2) (fst s')"
    using relpowp_gens [OF m(2) b] m(1) by (auto intro: gens_below_mono)
  moreover have "good s'"
    using g seen relpowp_wf [OF m(2)] relpowp_record [OF m(2)] by (auto simp: good_def)
  ultimately show ?case by simp
qed

end
