(* ===== verification/RetryPolicy.thy ===== *)
theory RetryPolicy
  imports Config
begin

text \<open>
  Package \<^verbatim>\<open>internal/retry\<close> (\<^verbatim>\<open>policy.go\<close>): when a failed attempt is tried again.
  \<^verbatim>\<open>Schedule\<close> changes the decision it is given, so the model returns the new decision
  beside the instant and the route. The clock and \<^verbatim>\<open>http.ParseTime\<close> are arguments.
\<close>

section \<open>strconv.ParseInt(s, 10, 64)\<close>

definition is_digit :: "char \<Rightarrow> bool" where
  "is_digit c \<longleftrightarrow> in_range (CHR ''0'') (CHR ''9'') c"

definition digit_value :: "char \<Rightarrow> int" where
  "digit_value c = int (of_char c) - 48"

definition decimal :: "string \<Rightarrow> int" where
  "decimal ds = foldl (\<lambda>v c. 10 * v + digit_value c) 0 ds"

text \<open>\<^const>\<open>None\<close> is a syntax error or a value out of the range of \<^verbatim>\<open>int64\<close>.\<close>

definition ParseInt :: "string \<Rightarrow> int option" where
  "ParseInt s =
     (let neg = HasPrefix s ''-'';
          ds = (if HasPrefix s ''-'' \<or> HasPrefix s ''+'' then drop 1 s else s);
          v = (if neg then - decimal ds else decimal ds)
      in if ds = [] \<or> \<not> list_all is_digit ds then None
         else if v < min_int64 \<or> max_int64 < v then None
         else Some v)"

section \<open>The policy\<close>

definition UncertainAllowed :: "Target \<Rightarrow> bool" where
  "UncertainAllowed t =
     (case idUncertainRetry (tgIdempotency t) of
        Some b \<Rightarrow> b
      | None \<Rightarrow> idMode (tgIdempotency t) = ''supported'')"

text \<open>The loop over \<^const>\<open>Buckets\<close>: the first that is long enough, 0 when there is none.\<close>

fun first_bucket :: "duration list \<Rightarrow> duration \<Rightarrow> duration" where
  "first_bucket [] delay = 0"
| "first_bucket (b # bs) delay = (if b \<ge> delay then b else first_bucket bs delay)"

text \<open>
  The delay after a \<^verbatim>\<open>Retry-After\<close> header; \<^const>\<open>None\<close> is the refusal
  \<^verbatim>\<open>retry_after_exceeds_limit\<close>.
\<close>

definition retry_after ::
  "unicode \<Rightarrow> (string \<Rightarrow> gotime option) \<Rightarrow> gotime \<Rightarrow> Retry \<Rightarrow> Decision \<Rightarrow> duration \<Rightarrow> duration option" where
  "retry_after U ParseTime now p d delay =
     (if rtRespectRetryAfter p \<and> dRetryAfter d \<noteq> [] then
        let raw = TrimSpace U (dRetryAfter d) in
        case ParseInt raw of
          Some seconds \<Rightarrow>
            if seconds > (30 * 24 * hour) div second then None
            else if seconds > 0 then Some (max delay (wrap64 (seconds * second)))
            else Some delay
        | None \<Rightarrow>
            (case ParseTime raw of
               Some at \<Rightarrow> Some (max delay (time_sub at now))
             | None \<Rightarrow> Some delay)
      else Some delay)"

definition refuse :: "Decision \<Rightarrow> string \<Rightarrow> (gotime \<times> string) \<times> Decision" where
  "refuse d reason = ((0, []), d\<lparr>dAction := ''fail'', dReason := reason\<rparr>)"

definition Schedule ::
  "unicode \<Rightarrow> (string \<Rightarrow> gotime option) \<Rightarrow> gotime \<Rightarrow> Notification \<Rightarrow> Target \<Rightarrow> Retry \<Rightarrow> Decision
     \<Rightarrow> (gotime \<times> string) \<times> Decision" where
  "Schedule U ParseTime now n t p d =
     (if \<not> tgRetryEnabled t then refuse d ''automatic_retry_disabled''
      else if dUncertain d \<and> \<not> UncertainAllowed t then refuse d ''uncertain_retry_disabled''
      else let i = nCycleAttempts n - 1 in
        if i < 0 \<or> i \<ge> int (length (rtDelays p)) then refuse d ''retry_exhausted''
        else
          case retry_after U ParseTime now p d (rtDelays p ! nat i) of
            None \<Rightarrow> refuse d ''retry_after_exceeds_limit''
          | Some delay \<Rightarrow>
              let bucket = first_bucket Buckets delay in
              if bucket = 0 then refuse d ''retry_after_exceeds_buckets''
              else let next = now + bucket in
                if \<not> next < nDeadline n then refuse d ''retry_deadline_exceeded''
                else ((next, BucketRoute bucket), d))"

section \<open>Lemmas\<close>

lemma refuse_sel [simp]:
  "fst (refuse d r) = (0, [])" "snd (refuse d r) = d\<lparr>dAction := ''fail'', dReason := r\<rparr>"
  by (simp_all add: refuse_def)

lemma first_bucket_in: "first_bucket bs delay \<noteq> 0 \<Longrightarrow> first_bucket bs delay \<in> set bs"
  by (induction bs delay rule: first_bucket.induct) auto

lemma first_bucket_ge: "first_bucket bs delay \<noteq> 0 \<Longrightarrow> delay \<le> first_bucket bs delay"
  by (induction bs delay rule: first_bucket.induct) auto

lemma first_bucket_least:
  "sorted bs \<Longrightarrow> b \<in> set bs \<Longrightarrow> delay \<le> b \<Longrightarrow> first_bucket bs delay \<le> b"
  by (induction bs delay rule: first_bucket.induct) auto

lemma first_bucket_zero:
  "\<forall>b\<in>set bs. b \<noteq> 0 \<Longrightarrow> first_bucket bs delay = 0 \<longleftrightarrow> (\<forall>b\<in>set bs. b < delay)"
  by (induction bs delay rule: first_bucket.induct) auto

lemma retry_after_ge: "retry_after U pt now p d delay = Some delay' \<Longrightarrow> delay \<le> delay'"
  by (auto simp: retry_after_def Let_def split: if_splits option.splits)

text \<open>The product by \<^verbatim>\<open>time.Second\<close> does not overflow below the 30-day limit.\<close>

lemma seconds_no_wrap:
  "0 < s \<Longrightarrow> s \<le> (30 * 24 * hour) div second \<Longrightarrow> wrap64 (s * second) = s * second"
  by (rule wrap64_id) (simp_all add: go_simps min_int64_def max_int64_def)

lemma retry_after_seconds:
  assumes "retry_after U pt now p d delay = Some delay'" and "rtRespectRetryAfter p"
    and "dRetryAfter d \<noteq> []" and "ParseInt (TrimSpace U (dRetryAfter d)) = Some s"
  shows "s * second \<le> delay' \<or> s \<le> 0"
  using assms seconds_no_wrap [of s]
  by (auto simp: retry_after_def Let_def split: if_splits)

lemma retry_after_date:
  assumes "retry_after U pt now p d delay = Some delay'" and "rtRespectRetryAfter p"
    and "dRetryAfter d \<noteq> []" and "ParseInt (TrimSpace U (dRetryAfter d)) = None"
    and "pt (TrimSpace U (dRetryAfter d)) = Some at"
  shows "time_sub at now \<le> delay'"
  using assms by (auto simp: retry_after_def Let_def)

text \<open>The two outcomes of \<^const>\<open>Schedule\<close>: refused with a reason, or placed in a bucket.\<close>

lemma Schedule_cases:
  obtains (refused) r where "Schedule U pt now n t p d = refuse d r"
  | (placed) i delay where
      "Schedule U pt now n t p d =
         ((now + first_bucket Buckets delay, BucketRoute (first_bucket Buckets delay)), d)"
      "tgRetryEnabled t" "\<not> dUncertain d \<or> UncertainAllowed t"
      "i = nat (nCycleAttempts n - 1)" "1 \<le> nCycleAttempts n"
      "i < length (rtDelays p)"
      "retry_after U pt now p d (rtDelays p ! i) = Some delay"
      "first_bucket Buckets delay \<noteq> 0"
      "now + first_bucket Buckets delay < nDeadline n"
proof (cases "\<exists>r. Schedule U pt now n t p d = refuse d r")
  case True
  then show thesis using refused by blast
next
  case False
  let ?i = "nat (nCycleAttempts n - 1)"
  from False obtain delay where delay: "retry_after U pt now p d (rtDelays p ! ?i) = Some delay"
    by (auto simp: Schedule_def Let_def split: if_splits option.splits)
  show thesis
    by (rule placed [of delay ?i]) (use False delay in
        \<open>auto simp: Schedule_def Let_def split: if_splits option.splits\<close>)
qed

lemma Schedule_retry:
  assumes "Schedule U pt now n t p d = ((nxt, route), d')" and "dAction d' = ''retry''"
  obtains i delay where
    "d' = d" "nxt = now + first_bucket Buckets delay" "route = BucketRoute (first_bucket Buckets delay)"
    "tgRetryEnabled t" "\<not> dUncertain d \<or> UncertainAllowed t"
    "i = nat (nCycleAttempts n - 1)" "1 \<le> nCycleAttempts n" "i < length (rtDelays p)"
    "retry_after U pt now p d (rtDelays p ! i) = Some delay"
    "first_bucket Buckets delay \<in> set Buckets" "delay \<le> first_bucket Buckets delay"
    "nxt < nDeadline n"
proof (cases rule: Schedule_cases [of U pt now n t p d])
  case (refused r)
  with assms show thesis by (auto simp: refuse_def)
next
  case (placed i delay)
  with assms show thesis
    by (intro that [of delay i]) (auto intro: first_bucket_in first_bucket_ge)
qed

section \<open>The contract of a scheduler\<close>

text \<open>
  \<^verbatim>\<open>delivery.Worker\<close> reaches the policy through its field \<^verbatim>\<open>Schedule\<close>, and the recovery
  loop calls it directly. What both rely on: a decision to retry is either kept, with a later instant
  before the deadline and a delayed route, or turned into a failure with no instant.
\<close>

locale retry_scheduler =
  fixes sched :: "gotime \<Rightarrow> Notification \<Rightarrow> Target \<Rightarrow> Retry \<Rightarrow> Decision \<Rightarrow> (gotime \<times> string) \<times> Decision"
  assumes kept: "sched now n t p d = ((nxt, route), d') \<Longrightarrow> dAction d' = ''retry'' \<Longrightarrow>
      d' = d \<and> now < nxt \<and> nxt < nDeadline n \<and> HasPrefix route ''retry.''
      \<and> 1 \<le> nCycleAttempts n \<and> nCycleAttempts n \<le> int (length (rtDelays p))"
    and dropped: "sched now n t p d = ((nxt, route), d') \<Longrightarrow> dAction d = ''retry'' \<Longrightarrow>
      dAction d' \<noteq> ''retry'' \<Longrightarrow>
      nxt = 0 \<and> (\<exists>r. d' = d\<lparr>dAction := ''fail'', dReason := r\<rparr>)"
begin

lemma action_after: "dAction d = ''retry'' \<Longrightarrow> sched now n t p d = ((nxt, route), d') \<Longrightarrow>
    dAction d' = ''retry'' \<or> dAction d' = ''fail''"
  using dropped [of now n t p d nxt route d'] by (cases "dAction d' = ''retry''") auto

lemma exhausted: "dAction d = ''retry'' \<Longrightarrow> int (length (rtDelays p)) < nCycleAttempts n \<Longrightarrow>
    sched now n t p d = ((nxt, route), d') \<Longrightarrow> dAction d' = ''fail''"
  using kept [of now n t p d nxt route d'] action_after [of d now n t p nxt route d'] by auto

lemma expired: "dAction d = ''retry'' \<Longrightarrow> nDeadline n \<le> now \<Longrightarrow>
    sched now n t p d = ((nxt, route), d') \<Longrightarrow> dAction d' = ''fail''"
  using kept [of now n t p d nxt route d'] action_after [of d now n t p nxt route d'] by auto

end

interpretation policy: retry_scheduler "Schedule U pt" for U pt
proof unfold_locales
  fix now n t p d nxt route d'
  assume S: "Schedule U pt now n t p d = ((nxt, route), d')"
  {
    assume "dAction d' = ''retry''"
    with S show "d' = d \<and> now < nxt \<and> nxt < nDeadline n \<and> HasPrefix route ''retry.''
      \<and> 1 \<le> nCycleAttempts n \<and> nCycleAttempts n \<le> int (length (rtDelays p))"
      by (rule Schedule_retry) (auto simp: Buckets_pos BucketRoute_retry)
  next
    assume "dAction d = ''retry''" and "dAction d' \<noteq> ''retry''"
    with S show "nxt = 0 \<and> (\<exists>r. d' = d\<lparr>dAction := ''fail'', dReason := r\<rparr>)"
      by (cases rule: Schedule_cases [of U pt now n t p d]) (auto simp: refuse_def)
  }
qed

section \<open>Properties\<close>

text \<open>
  C29: a retry that \<^const>\<open>Schedule\<close> grants is one the policy allows (automatic retries on, the result
  certain or uncertain retries allowed, attempts left in this cycle), it is placed in one of the fixed
  buckets, no sooner than the policy's delay for this attempt and before the deadline, and the
  decision is unchanged.
\<close>

theorem Schedule_grants_policy:
  assumes "Schedule U pt now n t p d = ((nxt, route), d')" and "dAction d' = ''retry''"
  shows "d' = d \<and> tgRetryEnabled t \<and> (\<not> dUncertain d \<or> UncertainAllowed t)
    \<and> 1 \<le> nCycleAttempts n \<and> nCycleAttempts n \<le> int (length (rtDelays p))
    \<and> (\<exists>b\<in>set Buckets. nxt = now + b \<and> route = BucketRoute b
         \<and> rtDelays p ! nat (nCycleAttempts n - 1) \<le> b)
    \<and> nxt < nDeadline n"
  using assms
proof (rule Schedule_retry)
  fix i delay
  assume *: "d' = d" "nxt = now + first_bucket Buckets delay"
    "route = BucketRoute (first_bucket Buckets delay)" "tgRetryEnabled t"
    "\<not> dUncertain d \<or> UncertainAllowed t" "i = nat (nCycleAttempts n - 1)" "1 \<le> nCycleAttempts n"
    "i < length (rtDelays p)" "retry_after U pt now p d (rtDelays p ! i) = Some delay"
    "first_bucket Buckets delay \<in> set Buckets" "delay \<le> first_bucket Buckets delay"
    "nxt < nDeadline n"
  have "rtDelays p ! i \<le> first_bucket Buckets delay"
    using retry_after_ge [OF *(9)] *(11) by simp
  with * show ?thesis by auto
qed

definition ex_target :: Target where
  "ex_target = zero_Target\<lparr>tgRetryEnabled := True,
     tgIdempotency := \<lparr>idMode = ''supported'', idUncertainRetry = None, idInject = []\<rparr>\<rparr>"

definition ex_retry :: Retry where
  "ex_retry = \<lparr>rtRevision = 1, rtDelays = [5 * second, 30 * second], rtMaxDuration = hour,
     rtRespectRetryAfter = True\<rparr>"

definition ex_request :: Request where
  "ex_request = \<lparr>rMethod = ''POST'', rPath = ''/a'', rQuery = [], rHeaders = [],
     rBodyEncoding = ''utf8'', rBody = []\<rparr>"

definition ex_note :: Notification where
  "ex_note = \<lparr>nID = replicate 16 7, nClient = ''c'', nTarget = ''t'', nBatch = None, nKey = ''k'',
     nHash = replicate 32 0, nRequest = ex_request, nMode = ''async'', nStatus = ''in_flight'',
     nAttempts = 1, nCycleAttempts = 1, nGeneration = 1, nNext = second, nDeadline = 100 * hour,
     nLease = replicate 16 9, nLeaseUntil = 61 * second, nTargetRevision = 1, nRetryRevision = 1,
     nHookRevision = 0, nConfigRevision = 1, nCreated = second, nUpdated = second, nLastStatus = 0,
     nLastError = []\<rparr>"

definition ex_decision :: Decision where
  "ex_decision = \<lparr>dAction = ''retry'', dReason = ''http_503'', dHTTPStatus = 503, dHeaders = [],
     dPreview = [], dBodyHash = [], dReport = [], dRetryAfter = ''20'', dUncertain = False,
     dStarted = second, dLatency = 0\<rparr>"

lemmas ex_defs = ex_target_def ex_retry_def ex_request_def ex_note_def ex_decision_def zero_Target_def

lemma ex_Schedule:
  "Schedule ascii_only (\<lambda>_. None) (10 * second) ex_note ex_target ex_retry ex_decision =
     ((40 * second, ''retry.30s''), ex_decision)"
  by code_simp

theorem Schedule_grants_policy_witness:
  "dAction ex_decision = ''retry'' \<and>
   (\<exists>b\<in>set Buckets. 40 * second = 10 * second + b \<and> ''retry.30s'' = BucketRoute b)
   \<and> 40 * second < nDeadline ex_note"
  using Schedule_grants_policy [OF ex_Schedule] by (auto simp: ex_decision_def)

text \<open>
  When the policy respects \<^verbatim>\<open>Retry-After\<close>, a granted retry is never earlier than a
  readable header asks for: neither than its number of seconds from now nor than its date (within the
  292 years a duration can express).
\<close>

theorem Schedule_respects_retry_after:
  assumes "Schedule U pt now n t p d = ((nxt, route), d')" and "dAction d' = ''retry''"
    and "rtRespectRetryAfter p" and "dRetryAfter d \<noteq> []"
    and "at - now \<le> max_int64"
  shows "(ParseInt (TrimSpace U (dRetryAfter d)) = Some s \<longrightarrow> now + s * second \<le> nxt)
    \<and> (ParseInt (TrimSpace U (dRetryAfter d)) = None \<and> pt (TrimSpace U (dRetryAfter d)) = Some at
         \<longrightarrow> at \<le> nxt)"
  using assms(1,2)
proof (rule Schedule_retry)
  fix i delay
  assume *: "nxt = now + first_bucket Buckets delay" "delay \<le> first_bucket Buckets delay"
    "first_bucket Buckets delay \<in> set Buckets"
    "retry_after U pt now p d (rtDelays p ! i) = Some delay"
  have pos: "0 < first_bucket Buckets delay" using *(3) by (rule Buckets_pos)
  have "now + s * second \<le> nxt" if "ParseInt (TrimSpace U (dRetryAfter d)) = Some s"
  proof -
    from retry_after_seconds [OF *(4) assms(3,4) that] consider "s * second \<le> delay" | "s \<le> 0" by blast
    then show ?thesis
    proof cases
      case 1
      with * show ?thesis by simp
    next
      case 2
      then have "s * second \<le> 0" by (simp add: go_simps)
      with * pos show ?thesis by simp
    qed
  qed
  moreover have "at \<le> nxt" if "ParseInt (TrimSpace U (dRetryAfter d)) = None"
    and "pt (TrimSpace U (dRetryAfter d)) = Some at"
  proof -
    have "time_sub at now \<le> delay" using retry_after_date [OF *(4) assms(3,4) that] .
    moreover have "at - now \<le> time_sub at now" using assms(5) by (simp add: time_sub_def)
    ultimately show ?thesis using * by simp
  qed
  ultimately show ?thesis by blast
qed

theorem Schedule_respects_retry_after_witness:
  "ParseInt (TrimSpace ascii_only (dRetryAfter ex_decision)) = Some 20 \<and>
   10 * second + 20 * second \<le> 40 * second"
proof -
  have p: "ParseInt (TrimSpace ascii_only (dRetryAfter ex_decision)) = Some 20" by code_simp
  moreover have "rtRespectRetryAfter ex_retry" "dRetryAfter ex_decision \<noteq> []"
    "dAction ex_decision = ''retry''"
    by (simp_all add: ex_defs)
  ultimately show ?thesis
    using Schedule_respects_retry_after [OF ex_Schedule, of "10 * second" 20]
    by (simp add: max_int64_def)
qed

text \<open>
  With a policy whose delays are buckets, which configuration validation guarantees, and no
  \<^verbatim>\<open>Retry-After\<close>, the retry of attempt \<open>k\<close> of the cycle is placed exactly the policy's
  \<open>k\<close>-th delay from now, on that delay's own route, whenever that is before the deadline.
\<close>

theorem Schedule_exact_delay:
  assumes "tgRetryEnabled t" and "\<not> dUncertain d \<or> UncertainAllowed t"
    and "1 \<le> nCycleAttempts n" and "nCycleAttempts n \<le> int (length (rtDelays p))"
    and "set (rtDelays p) \<subseteq> set Buckets" and "dRetryAfter d = []"
    and "now + rtDelays p ! nat (nCycleAttempts n - 1) < nDeadline n"
  shows "Schedule U pt now n t p d =
    ((now + rtDelays p ! nat (nCycleAttempts n - 1),
      BucketRoute (rtDelays p ! nat (nCycleAttempts n - 1))), d)"
proof -
  let ?b = "rtDelays p ! nat (nCycleAttempts n - 1)"
  have "nat (nCycleAttempts n - 1) < length (rtDelays p)" using assms(3,4) by simp
  then have b: "?b \<in> set Buckets" using assms(5) nth_mem by blast
  have nz: "\<forall>b\<in>set Buckets. b \<noteq> 0" using Buckets_pos by fastforce
  have "first_bucket Buckets ?b \<noteq> 0" using b first_bucket_zero [OF nz, of ?b] by auto
  then have "first_bucket Buckets ?b = ?b"
    by (intro order.antisym first_bucket_ge first_bucket_least [OF Buckets_sorted b]) simp
  moreover have "?b \<noteq> 0" using b nz by blast
  ultimately show ?thesis
    using assms by (auto simp: Schedule_def retry_after_def Let_def)
qed

theorem Schedule_exact_delay_witness:
  "Schedule ascii_only (\<lambda>_. None) 0 ex_note ex_target ex_retry (ex_decision\<lparr>dRetryAfter := []\<rparr>) =
     ((5 * second, ''retry.5s''), ex_decision\<lparr>dRetryAfter := []\<rparr>)"
proof -
  have "BucketRoute (5 * second) = ''retry.5s''" by code_simp
  then show ?thesis
    using Schedule_exact_delay [of ex_target "ex_decision\<lparr>dRetryAfter := []\<rparr>" ex_note ex_retry 0]
    by (simp add: ex_defs Buckets_def go_simps)
qed



end
