(* ===== verification/Guarantees.thy ===== *)
theory Guarantees
  imports Lifecycle RetryPolicy
begin

text \<open>
  What the store guarantees over every run: the invariant, the life of one task as an automaton on
  its status and generation, and what follows from it for claims, leases and delivered tasks.
\<close>

section \<open>The life of a task\<close>

definition phase :: "db \<Rightarrow> ID \<Rightarrow> (string \<times> nat) option" where
  "phase d u = map_option (\<lambda>r. (tk_status r, tk_gen r)) (find (\<lambda>r. tk_id r = u) (tasks d))"

inductive phase_step :: "(string \<times> nat) option \<Rightarrow> (string \<times> nat) option \<Rightarrow> bool" where
  accepted: "phase_step None (Some (''pending'', 1))"
| claimed: "phase_step (Some (''pending'', g)) (Some (''in_flight'', g))"
| deferred: "phase_step (Some (''pending'', g)) (Some (''pending'', g + 1))"
| delivered: "phase_step (Some (''in_flight'', g)) (Some (''delivered'', g))"
| failed: "phase_step (Some (''in_flight'', g)) (Some (''failed'', g))"
| abandoned: "phase_step (Some (''in_flight'', g)) (Some (''failed'', g + 1))"
| rescheduled: "phase_step (Some (''in_flight'', g)) (Some (''pending'', g + 1))"
| reopened: "phase_step (Some (''failed'', g)) (Some (''pending'', g + 1))"

inductive_cases phase_step_delivered: "phase_step (Some (''delivered'', g)) p"

lemma find_put_if:
  assumes "r \<in> set ts" and "tk_id r' = tk_id r"
  shows "find (\<lambda>x. tk_id x = u) (put (tk_id r) (\<lambda>_. r') ts) =
    (if tk_id r = u then Some r' else find (\<lambda>x. tk_id x = u) ts)"
proof (cases "tk_id r = u")
  case True
  then show ?thesis using find_put [of r ts u r'] assms by simp
next
  case False
  then show ?thesis using assms(2) by (induction ts) (auto simp: put_def)
qed

lemma find_row:
  "distinct (map tk_id ts) \<Longrightarrow> r \<in> set ts \<Longrightarrow> find (\<lambda>x. tk_id x = tk_id r) ts = Some r"
  by (induction ts) auto

lemma phase_put:
  assumes "ids_distinct d" and "r \<in> set (tasks d)" and "tk_id r' = tk_id r"
    and "tasks d' = put (tk_id r) (\<lambda>_. r') (tasks d)"
    and "phase_step (Some (tk_status r, tk_gen r)) (Some (tk_status r', tk_gen r'))"
  shows "phase d' u = phase d u \<or> phase_step (phase d u) (phase d' u)"
  using assms find_row [of "tasks d" r]
  by (auto simp: phase_def find_put_if ids_distinct_def)

lemma step_phase:
  "db_step d d' \<Longrightarrow> ids_distinct d \<Longrightarrow> phase d' u = phase d u \<or> phase_step (phase d u) (phase d' u)"
proof (induction rule: db_step.induct)
  case (accept d t w)
  then have "find (\<lambda>r. tk_id r = tk_id t) (tasks d) = None"
    by (auto simp: new_task_def find_None_iff)
  then show ?case
    using accept by (auto simp: phase_def add_event_def new_task_def find_append
      intro: accepted [simplified] split: option.splits)
next
  case (claim r d r' tok l a)
  then show ?case by - (rule phase_put [of d r r'], auto simp: same_core_def intro: phase_step.intros)
next
  case (settle r d tok r' as)
  then show ?case by - (rule phase_put [of d r r'],
      auto simp: same_core_def intro: phase_step.intros abandoned [simplified])
next
  case (again r d tok r' as w)
  then show ?case
    by - (rule phase_put [of d r r'], auto simp: same_core_def add_event_def intro: rescheduled [simplified])
next
  case (requeue r d r' w)
  then show ?case
    by - (rule phase_put [of d r r'],
      auto simp: same_core_def add_event_def intro: deferred [simplified] reopened [simplified])
qed (auto simp: phase_def)

lemma relpowp_phase:
  "(db_step ^^ k) d d' \<Longrightarrow> wf_db d \<Longrightarrow> phase_step\<^sup>*\<^sup>* (phase d u) (phase d' u)"
proof (induction k arbitrary: d')
  case (Suc k)
  from Suc.prems(1) obtain x where x: "(db_step ^^ k) d x" "db_step x d'" by auto
  have "wf_db x" using relpowp_wf [OF x(1) Suc.prems(2)] .
  from step_phase [OF x(2) wf_ids [OF this], of u] have "phase_step\<^sup>*\<^sup>* (phase x u) (phase d' u)" by auto
  with Suc.IH [OF x(1) Suc.prems(2)] show ?case by simp
qed simp

text \<open>Every step raises this rank, so no phase ever comes back.\<close>

fun rank :: "(string \<times> nat) option \<Rightarrow> nat" where
  "rank None = 0"
| "rank (Some (st, g)) =
     3 * g + (if st = ''pending'' then 0 else if st = ''in_flight'' then 1 else 2)"

lemma phase_step_rank: "phase_step p q \<Longrightarrow> rank p < rank q"
  by (induction rule: phase_step.induct) auto

lemma phase_steps_rank: "phase_step\<^sup>*\<^sup>* p q \<Longrightarrow> p = q \<or> rank p < rank q"
  by (induction rule: rtranclp_induct) (auto dest: phase_step_rank)

lemma phase_steps_delivered: "phase_step\<^sup>*\<^sup>* (Some (''delivered'', g)) q \<Longrightarrow> q = Some (''delivered'', g)"
  by (induction rule: rtranclp_induct) (auto elim: phase_step_delivered)

lemma phase_step_mono: "phase_step p q \<Longrightarrow> p = Some (st, g) \<Longrightarrow> \<exists>st' g'. q = Some (st', g') \<and> g \<le> g'"
  by (induction rule: phase_step.induct) auto

lemma phase_steps_mono:
  "phase_step\<^sup>*\<^sup>* p q \<Longrightarrow> p = Some (st, g) \<Longrightarrow> \<exists>st' g'. q = Some (st', g') \<and> g \<le> g'"
proof (induction rule: rtranclp_induct)
  case (step q q')
  then obtain st' g' where "q = Some (st', g')" "g \<le> g'" by auto
  with phase_step_mono [OF step(2)] show ?case by fastforce
qed simp

section \<open>Later states\<close>

lemma runs_more: "runs J k s \<Longrightarrow> (store_call J ^^ m) s s' \<Longrightarrow> runs J (k + m) s'"
proof (induction m arbitrary: s')
  case (Suc m)
  then obtain x where "runs J (k + m) x" "store_call J x s'" by auto
  then have "runs J (k + m + 1) s'" by (rule runs_call)
  then show ?case by simp
qed simp

lemma call_phase:
  assumes "runs J k s" and "k < 2 ^ 57" and "store_call J s s'"
  shows "phase_step\<^sup>*\<^sup>* (phase (fst s) u) (phase (fst s') u)"
proof -
  from runs_good [OF assms(1,2)] have g: "good s" and b: "gens_below (100 * k + 2) (fst s)" by auto
  have "gens_below (2 ^ 64 - 1) (fst s)" using b by (rule gens_below_mono) (use assms(2) in simp)
  from call_steps [OF assms(3) g this] g show ?thesis
    by (auto simp: steps_le_def good_def intro: relpowp_phase)
qed

lemma later_phase:
  assumes "runs J k s" and "(store_call J ^^ m) s s'" and "k + m < 2 ^ 57"
  shows "phase_step\<^sup>*\<^sup>* (phase (fst s) u) (phase (fst s') u)"
  using assms(2,3)
proof (induction m arbitrary: s')
  case (Suc m)
  from Suc.prems(1) obtain x where x: "(store_call J ^^ m) s x" "store_call J x s'" by auto
  have "phase_step\<^sup>*\<^sup>* (phase (fst s) u) (phase (fst x) u)" using Suc x(1) by simp
  moreover have "phase_step\<^sup>*\<^sup>* (phase (fst x) u) (phase (fst s') u)"
    using call_phase [OF runs_more [OF assms(1) x(1)] _ x(2)] Suc.prems(2) by simp
  ultimately show ?case by simp
qed simp

lemma one_call: "store_call J s s' \<Longrightarrow> (store_call J ^^ 1) s s'"
  by (simp only: relpowp_1)

lemma on_phase:
  "ids_distinct d \<Longrightarrow> r \<in> set (tasks d) \<Longrightarrow> tk_id r = u \<Longrightarrow> phase d u = Some (tk_status r, tk_gen r)"
  using find_row [of "tasks d" r] by (auto simp: phase_def ids_distinct_def)

section \<open>A run to look at\<close>

text \<open>A client's task is accepted and claimed; the codec and the clock are fixed functions.\<close>

definition ex_codec :: codec where
  "ex_codec = \<lparr>marshal_Request = (\<lambda>_. Some ''r''), unmarshal_Request = (\<lambda>_. Some ex_request),
     marshal_Event = (\<lambda>_. Some ''e''), unmarshal_Event = (\<lambda>_. Some \<lparr>eSchema = 1, eID = replicate 16 1,
       eNotification = replicate 16 7, eGeneration = 1, eType = ''dispatch'', eCreated = 0\<rparr>),
     marshal_Submission = (\<lambda>_. Some ''s''), marshal_headers = (\<lambda>_. Some ''h'')\<rparr>"

definition ex_io :: "gotime \<Rightarrow> byte \<Rightarrow> io" where
  "ex_io t b = \<lparr>io_fails = (\<lambda>_. False), io_applied = False, io_clock = (\<lambda>_. t), io_ids = (\<lambda>_. replicate 16 b)\<rparr>"

definition ex_pending :: Notification where
  "ex_pending = ex_note\<lparr>nStatus := ''pending'', nGeneration := 1, nAttempts := 0, nCycleAttempts := 0\<rparr>"

definition ex_db1 :: db where
  "ex_db1 = snd (Store_Accept ex_codec (ex_io 0 1) ex_pending empty_db)"

definition ex_claimed :: Notification where
  "ex_claimed = Notification_of (claim_set (ex_io (10 * second) 2) (task_of ex_pending ''r'')) ex_request"

definition ex_db2 :: db where
  "ex_db2 = snd (Claim ex_codec (ex_io (10 * second) 2) (nID ex_note) 1 ex_db1)"

lemmas ex_store_defs = ex_codec_def ex_io_def ex_pending_def ex_db1_def ex_db2_def ex_claimed_def
  Store_Accept_def Claim_def insertEvent_def commit_def update_one_def sql_update_def scan_def
  claim_where_def claim_set_def task_of_def task_ok_def empty_db_def started_attempt_def utc_def
  datetime6_def Notification_of_def ex_note_def ex_request_def

lemma ex_runs1: "runs ex_codec 1 (ex_db1, {})"
proof -
  have "store_call ex_codec (empty_db, {}) (ex_db1, {})"
    by (rule call_accept [where n = ex_pending and e = "ex_io 0 1"
        and acc = "fst (Store_Accept ex_codec (ex_io 0 1) ex_pending empty_db)"])
      (simp_all add: ex_db1_def ex_pending_def)
  from runs_call [OF runs_init this] show ?thesis by simp
qed

lemma ex_Claim:
  "Claim ex_codec (ex_io (10 * second) 2) (nID ex_note) 1 ex_db1 = (Inr ex_claimed, ex_db2)"
proof -
  have "fst (Claim ex_codec (ex_io (10 * second) 2) (nID ex_note) 1 ex_db1) = Inr ex_claimed"
    by (simp add: ex_store_defs go_simps)
  then show ?thesis unfolding ex_db2_def by (metis prod.collapse)
qed

lemma ex_call2: "store_call ex_codec (ex_db1, {}) (ex_db2, {ex_claimed})"
  using call_claim [OF ex_Claim] by simp

lemma ex_runs2: "runs ex_codec 2 (ex_db2, {ex_claimed})"
  using runs_call [OF ex_runs1 ex_call2] by (simp add: numeral_2_eq_2)

section \<open>The guarantees\<close>

text \<open>
  C1: whatever calls the processes make on the store, in whatever order and with whatever driver
  faults and ambiguous commits, the database keeps its invariant: unique tasks and idempotency keys,
  leases exactly on the tasks in flight, attempts numbered 1 to the count without gaps, at most one
  attempt per generation, at most the last attempt open, and a trigger in the outbox for every
  waiting task.
\<close>

theorem runs_wf:
  assumes "runs J k (d, S)" and "k < 2 ^ 57"
  shows "wf_db d"
  using runs_good [OF assms] by (simp add: good_def)

theorem runs_wf_witness: "runs ex_codec 2 (ex_db2, {ex_claimed}) \<and> wf_db ex_db2 \<and> tasks ex_db2 \<noteq> []"
proof -
  have "tasks ex_db2 \<noteq> []" by (simp add: ex_store_defs go_simps)
  with runs_wf [OF ex_runs2] ex_runs2 show ?thesis by simp
qed

text \<open>An update that matches no row is refused and changes nothing.\<close>

lemma update_one_refuses:
  assumes "\<forall>r\<in>set (tasks d). \<not> P r"
  shows "update_one e P f d = Inl driver_error \<or> update_one e P f d = Inl ErrState"
proof -
  have "filter (\<lambda>r. P r \<and> f r \<noteq> r) (tasks d) = []" using assms by (simp add: filter_empty_conv)
  with assms show ?thesis by (simp add: update_one_def sql_update_def list_ex_iff)
qed

lemma claimed_refused:
  assumes "runs J k (d, S)" and "k < 2 ^ 57" and "n \<in> S"
  shows "Claim J e (nID n) (nGeneration n) d = (Inl driver_error, d)
    \<or> Claim J e (nID n) (nGeneration n) d = (Inl ErrState, d)"
proof -
  from runs_good [OF assms(1,2)] assms(3) have wf: "wf_db d" and "on_record d n" by (auto simp: good_def)
  then obtain a where a: "a \<in> set (attempts d)" "at_task a = nID n" "at_gen a = nGeneration n"
    by (auto simp: on_record_def)
  have "\<not> claim_where e (nID n) (nGeneration n) r" if "r \<in> set (tasks d)" for r
    using attempt_row [OF _ _ that a(1)] wf a
    by (auto simp: claim_where_def wf_db_def tasks_ok_def attempt_of_def)
  then show ?thesis
    using update_one_refuses [of d "claim_where e (nID n) (nGeneration n)" e "claim_set e"]
    by (auto simp: Claim_def)
qed

text \<open>
  C2: a generation of a notification is claimed at most once. Once some worker holds what a claim of
  generation \<open>g\<close> returned, every further claim of that generation is refused and changes nothing,
  however often the broker redelivers the event and however many workers race.
\<close>

theorem generation_claimed_once:
  assumes "runs J k (d, S)" and "k < 2 ^ 57" and "n \<in> S"
  shows "Claim J e (nID n) (nGeneration n) d = (Inl driver_error, d)
    \<or> Claim J e (nID n) (nGeneration n) d = (Inl ErrState, d)"
  using assms by (rule claimed_refused)

theorem generation_claimed_once_witness:
  "runs ex_codec 2 (ex_db2, {ex_claimed})
   \<and> Claim ex_codec (ex_io (20 * second) 3) (nID ex_claimed) (nGeneration ex_claimed) ex_db2
       \<in> {(Inl driver_error, ex_db2), (Inl ErrState, ex_db2)}"
  using generation_claimed_once [OF ex_runs2, of ex_claimed "ex_io (20 * second) 3"] ex_runs2 by simp

text \<open>
  C5: seen from one notification, every call is a (possibly empty) sequence of the transitions of the
  automaton \<^const>\<open>phase_step\<close>: accepted as pending of generation 1, claimed, deferred, delivered,
  failed, abandoned after a crash, rescheduled and reopened by hand, with the generation rising at
  every return to the queue.
\<close>

theorem call_refines_automaton:
  assumes "runs J k s" and "k < 2 ^ 57" and "store_call J s s'"
  shows "phase_step\<^sup>*\<^sup>* (phase (fst s) u) (phase (fst s') u)"
  using assms by (rule call_phase)

theorem call_refines_automaton_witness:
  "phase_step\<^sup>*\<^sup>* (phase ex_db1 (nID ex_note)) (phase ex_db2 (nID ex_note))
   \<and> phase ex_db1 (nID ex_note) = Some (''pending'', 1) \<and> phase ex_db2 (nID ex_note) = Some (''in_flight'', 1)"
  using call_refines_automaton [OF ex_runs1 _ ex_call2, of "nID ex_note"]
  by (simp add: phase_def ex_store_defs go_simps)

text \<open>
  C4: a delivered notification stays delivered, under the same generation, in every later state: no
  late worker, recovery pass, reconciliation or manual retry reopens it.
\<close>

theorem delivered_is_final:
  assumes "runs J k s" and "(store_call J ^^ m) s s'" and "k + m < 2 ^ 57"
    and "phase (fst s) u = Some (''delivered'', g)"
  shows "phase (fst s') u = Some (''delivered'', g)"
  using later_phase [OF assms(1-3), of u] assms(4) by (simp add: phase_steps_delivered)

definition ex_success :: Decision where
  "ex_success = ex_decision\<lparr>dAction := ''success'', dHTTPStatus := 200\<rparr>"

definition ex_db3 :: db where
  "ex_db3 = snd (Finish ex_codec (ex_io (20 * second) 3) ex_claimed ex_success 0 [] ex_db2)"

lemmas ex_finish_defs = ex_db3_def ex_success_def Finish_def finish_where_def finish_set_def
  finish_status_def finish_gen_def finish_attempt_def own_attempt_def next_or_def IsZero_def
  ex_decision_def ex_store_defs

lemma ex_Finish:
  "Finish ex_codec (ex_io (20 * second) 3) ex_claimed ex_success 0 [] ex_db2 = (Inr (), ex_db3)"
proof -
  have "fst (Finish ex_codec (ex_io (20 * second) 3) ex_claimed ex_success 0 [] ex_db2) = Inr ()"
    by (simp add: ex_finish_defs go_simps)
  then show ?thesis unfolding ex_db3_def by (metis prod.collapse)
qed

lemma ex_runs3: "runs ex_codec 3 (ex_db3, {ex_claimed})"
  using runs_call [OF ex_runs2 call_finish [OF ex_Finish]] by (simp add: numeral_3_eq_3 numeral_2_eq_2)

lemma ex_call4:
  "store_call ex_codec (ex_db3, {ex_claimed})
     (snd (RecoverLease ex_codec (ex_io hour 4) ex_claimed ex_decision 0 [] ex_db3), {ex_claimed})"
  by (rule call_recover [where res = "fst (RecoverLease ex_codec (ex_io hour 4) ex_claimed ex_decision 0 [] ex_db3)"])
    simp_all

theorem delivered_is_final_witness:
  "phase ex_db3 (nID ex_note) = Some (''delivered'', 1)
   \<and> phase (snd (RecoverLease ex_codec (ex_io hour 4) ex_claimed ex_decision 0 [] ex_db3)) (nID ex_note)
     = Some (''delivered'', 1)"
proof -
  have "phase ex_db3 (nID ex_note) = Some (''delivered'', 1)"
    by (simp add: phase_def ex_finish_defs go_simps)
  then show ?thesis
    using delivered_is_final [OF ex_runs3 one_call [OF ex_call4], of "nID ex_note" 1] by simp
qed

text \<open>
  Nothing is ever forgotten and no generation comes back: a notification that exists in one state
  exists in every later one, with the same or a higher generation.
\<close>

theorem generations_only_rise:
  assumes "runs J k s" and "(store_call J ^^ m) s s'" and "k + m < 2 ^ 57"
    and "phase (fst s) u = Some (st, g)"
  shows "\<exists>st' g'. phase (fst s') u = Some (st', g') \<and> g \<le> g'
    \<and> (g' = g \<longrightarrow> st' = ''pending'' \<longrightarrow> st = ''pending'')"
proof -
  note path = later_phase [OF assms(1-3), of u]
  from phase_steps_mono [OF path assms(4)] obtain st' g' where q: "phase (fst s') u = Some (st', g')" "g \<le> g'"
    by blast
  with phase_steps_rank [OF path] assms(4) show ?thesis by (auto split: if_splits)
qed

theorem generations_only_rise_witness:
  "phase ex_db1 (nID ex_note) = Some (''pending'', 1)
   \<and> (\<exists>st' g'. phase ex_db2 (nID ex_note) = Some (st', g') \<and> 1 \<le> g')"
proof -
  have p: "phase ex_db1 (nID ex_note) = Some (''pending'', 1)"
    by (simp add: phase_def ex_store_defs go_simps)
  from generations_only_rise [OF ex_runs1 one_call [OF ex_call2], of "nID ex_note" "''pending''" 1] p show ?thesis by auto
qed



text \<open>What a successful \<^const>\<open>Finish\<close> or \<^const>\<open>RecoverLease\<close> did to the row.\<close>

lemma update_put:
  assumes "update_one e P f d = Inr ts" and "ids_distinct d" and "\<And>r. P r \<Longrightarrow> tk_id r = u"
    and "\<And>r. tk_id (f r) = tk_id r"
  obtains r where "r \<in> set (tasks d)" "P r" "tk_id r = u"
    "find (\<lambda>x. tk_id x = u) ts = Some (f r)"
proof -
  from assms(1-3) obtain r where r: "r \<in> set (tasks d)" "P r" "tk_id r = u"
    "ts = put (tk_id r) (\<lambda>_. f r) (tasks d)" by (rule update_one_ok)
  then have "find (\<lambda>x. tk_id x = u) ts = Some (f r)" using find_put_if [of r "tasks d" "f r" u] assms(4) by simp
  with r that show thesis by blast
qed

lemma event_commit_done:
  "event_commit J e k c n route av d d1 = (Inr (), d') \<Longrightarrow> tasks d' = tasks d1"
  by (auto simp: event_commit_def commit_def add_event_def elim!: insertEvent_ok split: sum.splits if_splits)

lemma Finish_done:
  assumes "Finish J e n dec nxt route d = (Inr (), d')" and "ids_distinct d"
  shows "phase d (nID n) = Some (''in_flight'', nGeneration n)
    \<and> phase d' (nID n) = Some (finish_status dec, finish_gen n dec)"
proof -
  from assms(1) obtain ts where ts: "update_one e (finish_where e n) (finish_set e n dec nxt) d = Inr ts"
    "tasks d' = ts"
    by (auto simp: Finish_def Let_def commit_def dest!: event_commit_done
        split: sum.splits option.splits if_splits)
  from ts(1) assms(2) obtain r where r: "r \<in> set (tasks d)" "finish_where e n r" "tk_id r = nID n"
    "find (\<lambda>x. tk_id x = nID n) ts = Some (finish_set e n dec nxt r)"
    by (rule update_put) (auto simp: finish_where_def finish_set_def)
  then have "phase d' (nID n) = Some (tk_status (finish_set e n dec nxt r), tk_gen (finish_set e n dec nxt r))"
    using ts(2) by (simp add: phase_def)
  with on_phase [OF assms(2) r(1,3)] r(2) show ?thesis by (simp add: finish_where_def finish_set_def)
qed

lemma RecoverLease_done:
  assumes "RecoverLease J e n dec nxt route d = (Inr (), d')" and "ids_distinct d"
  shows "phase d (nID n) = Some (''in_flight'', nGeneration n)
    \<and> phase d' (nID n) = Some (recover_status dec, nGeneration n + 1)"
proof -
  from assms(1) obtain ts where ts: "update_one e (recover_where e n) (recover_set e n dec nxt) d = Inr ts"
    "tasks d' = ts"
    by (auto simp: RecoverLease_def Let_def commit_def dest!: event_commit_done
        split: sum.splits option.splits if_splits)
  from ts(1) assms(2) obtain r where r: "r \<in> set (tasks d)" "recover_where e n r" "tk_id r = nID n"
    "find (\<lambda>x. tk_id x = nID n) ts = Some (recover_set e n dec nxt r)"
    by (rule update_put) (auto simp: recover_where_def recover_set_def)
  then have "phase d' (nID n) = Some (tk_status (recover_set e n dec nxt r), tk_gen (recover_set e n dec nxt r))"
    using ts(2) by (simp add: phase_def)
  with on_phase [OF assms(2) r(1,3)] r(2) show ?thesis by (simp add: recover_where_def recover_set_def)
qed

text \<open>A copy whose task is no longer in flight under its generation settles nothing.\<close>

lemma settle_refused:
  assumes "ids_distinct d" and "phase d (nID n) \<noteq> Some (''in_flight'', nGeneration n)"
  shows "Finish J e n dec nxt route d \<in> {(Inl driver_error, d), (Inl ErrState, d)}"
    and "RecoverLease J e n dec nxt route d \<in> {(Inl driver_error, d), (Inl ErrState, d)}"
proof -
  have "\<forall>r\<in>set (tasks d). \<not> finish_where e n r" "\<forall>r\<in>set (tasks d). \<not> recover_where e n r"
    using on_phase [OF assms(1), of _ "nID n"] assms(2) by (force simp: finish_where_def recover_where_def)+
  then show "Finish J e n dec nxt route d \<in> {(Inl driver_error, d), (Inl ErrState, d)}"
    and "RecoverLease J e n dec nxt route d \<in> {(Inl driver_error, d), (Inl ErrState, d)}"
    using update_one_refuses [of d "finish_where e n" e "finish_set e n dec nxt"]
      update_one_refuses [of d "recover_where e n" e "recover_set e n dec nxt"]
    by (auto simp: Finish_def RecoverLease_def)
qed

text \<open>
  C3: a lease is settled once. After the worker's \<^const>\<open>Finish\<close> or the recovery's
  \<^const>\<open>RecoverLease\<close> succeeded on a copy, no later call of either on that copy has any effect, so a
  worker that wakes up after its lease was recovered cannot overwrite the outcome, nor the other way
  round.
\<close>

theorem lease_settled_once:
  assumes run: "runs J k (d, S)" and n: "n \<in> S"
    and settled: "Finish J e n dec nxt route d = (Inr (), d1)
      \<or> RecoverLease J e n dec nxt route d = (Inr (), d1)"
    and later: "(store_call J ^^ m) (d1, S) (d2, S2)" and bound: "k + 1 + m < 2 ^ 57"
  shows "Finish J e' n dec' nxt' route' d2 \<in> {(Inl driver_error, d2), (Inl ErrState, d2)}
    \<and> RecoverLease J e' n dec' nxt' route' d2 \<in> {(Inl driver_error, d2), (Inl ErrState, d2)}"
proof -
  have call: "store_call J (d, S) (d1, S)" using settled n by (auto intro: call_finish call_recover)
  have run1: "runs J (k + 1) (d1, S)" using run call by (rule runs_call)
  have ids: "ids_distinct d" using runs_good [OF run] bound by (simp add: good_def wf_ids)
  have ne: "phase d1 (nID n) \<noteq> phase d (nID n)" and old: "phase d (nID n) = Some (''in_flight'', nGeneration n)"
    using settled Finish_done [OF _ ids] RecoverLease_done [OF _ ids]
    by (auto simp: finish_status_def recover_status_def split: if_splits)
  have "rank (phase d (nID n)) < rank (phase d1 (nID n))"
    using phase_steps_rank [OF call_phase [OF run _ call, of "nID n"]] ne bound by auto
  moreover have "rank (phase d1 (nID n)) \<le> rank (phase d2 (nID n))"
    using phase_steps_rank [OF later_phase [OF run1 later, of "nID n"]] bound by auto
  ultimately have gone: "phase d2 (nID n) \<noteq> Some (''in_flight'', nGeneration n)" using old by auto
  have "good (d2, S2)" using runs_good [OF runs_more [OF run1 later]] bound by simp
  then have ids2: "ids_distinct d2" by (simp add: good_def wf_ids)
  show ?thesis using settle_refused [OF ids2 gone] by blast
qed

theorem lease_settled_once_witness:
  "Finish ex_codec (ex_io (20 * second) 3) ex_claimed ex_success 0 [] ex_db2 = (Inr (), ex_db3)
   \<and> RecoverLease ex_codec (ex_io hour 4) ex_claimed ex_decision 0 [] ex_db3
     \<in> {(Inl driver_error, ex_db3), (Inl ErrState, ex_db3)}"
  using lease_settled_once [OF ex_runs2 _ disjI1 [OF ex_Finish], of 0] ex_Finish by simp

end
