(* ===== verification/StoreProps.thy ===== *)
theory StoreProps
  imports Guarantees
begin

text \<open>
  What single calls of the store do: idempotent acceptance, what can be read back, the full effect of
  a claim, and that refusals leave no trace.
\<close>

text \<open>
  Acceptance is idempotent per client and key. If the client already has a task under the key, a
  submission with the same request hash returns that task and another one is refused as a conflict;
  neither changes anything.
\<close>

theorem Accept_same_key:
  assumes "wf_db d" and "r \<in> set (tasks d)" and "tk_client r = nClient n" and "tk_key r = nKey n"
    and "marshal_Request J (nRequest n) = Some b" and "unmarshal_Request J (tk_request r) = Some q"
    and "\<not> (io_fails e 0 \<or> io_fails e 1 \<or> io_fails e 2 \<or> io_fails e 3)"
  shows "Store_Accept J e n d =
    (if tk_hash r = nHash n then Inr (Notification_of r q, False) else Inl ErrConflict, d)"
proof -
  let ?P = "\<lambda>x. tk_client x = nClient n \<and> tk_key x = nKey n"
  have dist: "distinct (map (\<lambda>r. (tk_client r, tk_key r)) (tasks d))"
    using assms(1) by (simp add: wf_db_def tasks_ok_def)
  have "\<exists>x. find ?P (tasks d) = Some x \<and> x \<in> set (tasks d) \<and> ?P x"
    using assms(2-4) by (cases "find ?P (tasks d)") (auto simp: find_None_iff find_Some_iff)
  then obtain x where x: "find ?P (tasks d) = Some x" "x \<in> set (tasks d)" "?P x" by blast
  have "x = r" using distinct_map_eqD [OF dist x(2) assms(2)] x(3) assms(3,4) by simp
  with x(1) have "ByKey J False (nClient n) (nKey n) d = Inr (Notification_of r q)"
    using assms(6) by (simp add: ByKey_def scan_def)
  moreover have "list_ex (\<lambda>r. tk_id r = nID n \<or> ?P r) (tasks d)"
    using assms(2-4) by (auto simp: list_ex_iff)
  ultimately show ?thesis using assms(5,7) by (simp add: Store_Accept_def Notification_of_def)
qed

lemma ex_wf1: "wf_db ex_db1"
  using runs_good [OF ex_runs1] by (simp add: good_def)

lemma ex_tasks1: "tasks ex_db1 = [task_of ex_pending ''r'']"
  by (simp add: ex_store_defs)

theorem Accept_same_key_witness:
  "Store_Accept ex_codec (ex_io 0 5) ex_pending ex_db1 =
     (Inr (Notification_of (task_of ex_pending ''r'') ex_request, False), ex_db1)
   \<and> Store_Accept ex_codec (ex_io 0 5) (ex_pending\<lparr>nHash := replicate 32 1\<rparr>) ex_db1 = (Inl ErrConflict, ex_db1)"
  using Accept_same_key [OF ex_wf1, of "task_of ex_pending ''r''" ex_pending ex_codec "''r''" ex_request "ex_io 0 5"]
    Accept_same_key [OF ex_wf1, of "task_of ex_pending ''r''" "ex_pending\<lparr>nHash := replicate 32 1\<rparr>"
      ex_codec "''r''" ex_request "ex_io 0 5"]
  by (simp add: ex_tasks1) (simp add: ex_store_defs)

text \<open>
  An accepted task can be read back. After \<^const>\<open>Store_Accept\<close> reports a new task, its client
  reads by identifier the submitted task, with fresh counters, no lease and the times at the
  microsecond precision of the columns; another client finds nothing.
\<close>

theorem Accept_then_Get:
  assumes "Store_Accept J e n d = (Inr (m, True), d')"
    and codec: "\<And>b. marshal_Request J (nRequest n) = Some b \<Longrightarrow> unmarshal_Request J b = Some (nRequest n)"
    and batch: "\<forall>b. nBatch n = Some b \<longrightarrow> length b = 16" and "\<not> io_fails e' 0"
  shows "m = n \<and> Get J e' (nID n) (nClient n) d' =
      Inr (n\<lparr>nAttempts := 0, nCycleAttempts := 0, nNext := datetime6 (nNext n), nDeadline := datetime6 (nDeadline n),
        nLease := zero_ID, nLeaseUntil := 0, nCreated := datetime6 (nCreated n),
        nUpdated := datetime6 (nUpdated n), nLastStatus := 0, nLastError := []\<rparr>)
    \<and> (client \<noteq> nClient n \<longrightarrow> Get J e' (nID n) client d' = Inl ErrNotFound)"
proof -
  from assms(1) obtain b d1 where b: "marshal_Request J (nRequest n) = Some b"
    and fresh: "\<not> list_ex (\<lambda>r. tk_id r = nID n \<or> tk_client r = nClient n \<and> tk_key r = nKey n) (tasks d)"
    and ev: "insertEvent J (io_fails e 4) (io_ids e 0) (io_clock e 0) (utc e 1) n ''dispatch'' (nNext n)
                   (d\<lparr>tasks := tasks d @ [task_of n b]\<rparr>) = Inr d1"
    and com: "commit e 5 d (n, True) d1 = (Inr (m, True), d')"
    by (auto simp: Store_Accept_def split: option.splits if_splits sum.splits)
  from com have m: "m = n" "d' = d1" by (simp_all add: commit_def split: if_splits)
  from ev have ts: "tasks d' = tasks d @ [task_of n b]"
    unfolding m by (rule insertEvent_ok) (simp add: add_event_def)
  have none: "\<And>c. find (\<lambda>r. tk_id r = nID n \<and> tk_client r = c) (tasks d) = None"
    using fresh by (auto simp: find_None_iff list_ex_iff)
  have "Get J e' (nID n) (nClient n) d' = Inr (Notification_of (task_of n b) (nRequest n))"
    using codec [OF b] assms(4) by (simp add: Get_def ts find_append none scan_def task_of_def)
  moreover have "nBatch n = (case nBatch n of Some b \<Rightarrow> if length b = 16 then Some b else None | None \<Rightarrow> None)"
    using batch by (auto split: option.splits)
  moreover have "client \<noteq> nClient n \<longrightarrow> Get J e' (nID n) client d' = Inl ErrNotFound"
    using assms(4) by (auto simp: Get_def ts find_append none scan_def task_of_def)
  ultimately show ?thesis using m(1) by (simp add: Notification_of_def task_of_def)
qed

theorem Accept_then_Get_witness:
  "\<exists>d'. Store_Accept ex_codec (ex_io 0 1) ex_pending empty_db = (Inr (ex_pending, True), d')
     \<and> Get ex_codec (ex_io 0 2) (nID ex_note) ''c'' d' = Inr (ex_pending\<lparr>nLease := zero_ID, nLeaseUntil := 0\<rparr>)
     \<and> Get ex_codec (ex_io 0 2) (nID ex_note) ''other'' d' = Inl ErrNotFound"
proof -
  have acc: "Store_Accept ex_codec (ex_io 0 1) ex_pending empty_db = (Inr (ex_pending, True), ex_db1)"
    by (simp add: ex_store_defs)
  have "ex_pending\<lparr>nAttempts := 0, nCycleAttempts := 0, nNext := datetime6 (nNext ex_pending),
      nDeadline := datetime6 (nDeadline ex_pending), nLease := zero_ID, nLeaseUntil := 0,
      nCreated := datetime6 (nCreated ex_pending), nUpdated := datetime6 (nUpdated ex_pending),
      nLastStatus := 0, nLastError := []\<rparr> = ex_pending\<lparr>nLease := zero_ID, nLeaseUntil := 0\<rparr>"
    by (simp add: ex_store_defs go_simps)
  moreover have "nID ex_pending = nID ex_note" "nClient ex_pending = ''c''" "nBatch ex_pending = None"
    "nRequest ex_pending = ex_request" "\<not> io_fails (ex_io 0 2) 0" "unmarshal_Request ex_codec b = Some ex_request" for b
    by (simp_all add: ex_pending_def ex_note_def ex_io_def ex_codec_def)
  ultimately show ?thesis
    using Accept_then_Get [OF acc, of "ex_io 0 2" "''other''"] acc by auto
qed

text \<open>The transactional methods: a refusal other than an ambiguous commit leaves the database as it was.\<close>

lemma commit_error: "commit e k d r d1 = (Inl x, d') \<Longrightarrow> d' \<noteq> d \<Longrightarrow> x = driver_error \<and> io_fails e k \<and> d' = d1"
  by (auto simp: commit_def split: if_splits)

lemma event_commit_error:
  "event_commit J e k c n route av d d1 = (Inl x, d') \<Longrightarrow> d' \<noteq> d \<Longrightarrow> x = driver_error \<and> io_fails e (k + 1)"
  by (auto simp: event_commit_def split: sum.splits dest: commit_error)


definition ex_fault :: io where
  "ex_fault = (ex_io 0 1)\<lparr>io_fails := (\<lambda>k. k = 5), io_applied := True\<rparr>"


end
