(* ===== verification/Application.thy ===== *)
theory Application
  imports Manager HttpText Quota StoreProps
begin

text \<open>
  Package \<^verbatim>\<open>internal/application\<close>: accepting a submission and retrying a failed notification. The
  calls on the store, the quota and the configuration manager are those of their theories;
  \<^verbatim>\<open>sha256\<close> and the JSON encoding are parameters.
\<close>

section \<open>Normal form of a request\<close>

definition normalize_body :: "Request \<Rightarrow> error + string \<times> Request" where
  "normalize_body r0 =
     (let r = (if rBodyEncoding r0 = [] then r0\<lparr>rBodyEncoding := ''utf8''\<rparr> else r0) in
      if rBodyEncoding r = ''utf8'' then
        (if \<not> utf8_Valid (rBody r) then Inl (fails ''body must be UTF-8'') else Inr (rBody r, r))
      else if rBodyEncoding r = ''base64'' then
        (case b64_decode (rBody r) of
           None \<Rightarrow> Inl (fails ''invalid base64 body'')
         | Some body \<Rightarrow> Inr (body, r\<lparr>rBody := b64_encode body\<rparr>))
      else Inl (fails ''invalid body encoding''))"

fun norm_headers ::
  "unicode \<Rightarrow> (string \<times> string) list \<Rightarrow> (string \<times> string) list \<Rightarrow> nat \<Rightarrow> error + (string \<times> string) list \<times> nat" where
  "norm_headers U [] headers len = Inr (headers, len)"
| "norm_headers U ((k0, v) # hs) headers len =
     (if \<not> ValidHeader k0 \<or> ForbiddenTransportHeader U k0 \<or> SensitiveHeader U k0 \<or> ContainsAny v ctl
      then Inl (fails ''invalid or sensitive request header'')
      else let k = CanonicalHeaderKey k0 in
        if k \<in> fst ` set headers then Inl (fails ''duplicate normalized header'')
        else norm_headers U hs (headers @ [(k, v)]) (len + (length k + length v)))"

fun norm_query :: "unicode \<Rightarrow> (string \<times> string) list \<Rightarrow> nat \<Rightarrow> error + nat" where
  "norm_query U [] len = Inr len"
| "norm_query U ((k, v) # qs) len =
     (if k = [] \<or> ContainsAny (k @ v) ctl \<or> SensitiveHeader U k
      then Inl (fails ''invalid or sensitive query parameter'')
      else norm_query U qs (len + (length k + length v)))"

definition normalize_request :: "unicode \<Rightarrow> Request \<Rightarrow> error + Request" where
  "normalize_request U r =
     (case ValidatePath (rPath r) of
        Some x \<Rightarrow> Inl x
      | None \<Rightarrow>
          (case normalize_body r of
             Inl x \<Rightarrow> Inl x
           | Inr (body, r1) \<Rightarrow>
               if length body > 1048576 then Inl (fails ''notification body exceeds 1 MiB'')
               else let r2 = (if utf8_Valid body then r1\<lparr>rBodyEncoding := ''utf8'', rBody := body\<rparr> else r1) in
                 if length (rHeaders r2) > 64 \<or> length (rQuery r2) > 128
                 then Inl (fails ''too many headers or query parameters'')
                 else case norm_headers U (rHeaders r2) [] 0 of
                        Inl x \<Rightarrow> Inl x
                      | Inr (headers, len) \<Rightarrow>
                          (case norm_query U (rQuery r2) len of
                             Inl x \<Rightarrow> Inl x
                           | Inr len' \<Rightarrow>
                               if len' > 16384 then Inl (fails ''headers and query too large'')
                               else Inr (r2\<lparr>rHeaders := headers\<rparr>))))"

section \<open>Permission\<close>

definition Fail :: "string \<Rightarrow> int \<Rightarrow> string \<Rightarrow> error" where
  "Fail code status message = AppError code status message"

text \<open>\<^verbatim>\<open>Allowed\<close> also returns the target it found, or the zero target, beside an error.\<close>

definition Allowed :: "Snapshot \<Rightarrow> string \<Rightarrow> string \<Rightarrow> Target \<times> error option" where
  "Allowed s client target =
     (case map_of (snTargets s) target of
        None \<Rightarrow> (zero_Target, Some (Fail ''TARGET_NOT_FOUND'' 404 ''target not found''))
      | Some t \<Rightarrow>
          (t, case map_of (snClients s) client of
                None \<Rightarrow> Some (Fail ''TARGET_NOT_ALLOWED'' 403 ''target is not enabled for client'')
              | Some c \<Rightarrow>
                  if \<not> clEnabled c \<or> target \<notin> set (clTargets c)
                  then Some (Fail ''TARGET_NOT_ALLOWED'' 403 ''target is not enabled for client'')
                  else if \<not> tgEnabled t then Some (Fail ''TARGET_DISABLED'' 403 ''target disabled'')
                  else None))"

section \<open>Accept\<close>

text \<open>
  What one call meets: whether the lookup by key fails, what the other goroutines and processes do to
  the database between the lookup and the insert, the store's faults, the clock, a fresh identifier,
  and the answer of Redis with its clock (\<^const>\<open>None\<close> when the service has no quota).
\<close>

record accept_env =
  vLookupFails :: bool
  vMeanwhile :: "db \<Rightarrow> db"
  vStore :: io
  vNow :: gotime
  vFresh :: ID
  vQuota :: "(bool option \<times> int) option"

record world =
  wDb :: db
  wQuota :: quota_state
  wManager :: Manager
  wAccepted :: nat

definition key_ok :: "unicode \<Rightarrow> string \<Rightarrow> bool" where
  "key_ok U key \<longleftrightarrow> \<not> (key = [] \<or> length key > 128 \<or> TrimSpace U key \<noteq> key \<or> ContainsAny key ctl)"

text \<open>The call of the quota, shared by \<^verbatim>\<open>Accept\<close> and \<^verbatim>\<open>Retry\<close>.\<close>

definition take_quota ::
  "(bool option \<times> int) option \<Rightarrow> string \<Rightarrow> Snapshot \<Rightarrow> quota_state \<Rightarrow> error option \<times> quota_state" where
  "take_quota quota client snap st =
     (case quota of
        None \<Rightarrow> (None, st)
      | Some (fault, us) \<Rightarrow>
          (case Ingress fault us client
                  (go_get zero_Quota (snQuotas snap) (clQuota (go_get zero_Client (snClients snap) client))) st of
             (Inl _, st') \<Rightarrow> (Some (Fail ''DEPENDENCY_UNAVAILABLE'' 503 ''quota unavailable''), st')
           | (Inr False, st') \<Rightarrow> (Some (Fail ''QUOTA_EXCEEDED'' 429 ''ingress quota exceeded''), st')
           | (Inr True, st') \<Rightarrow> (None, st')))"

text \<open>The checks of a new submission against the target.\<close>

definition policy_error :: "unicode \<Rightarrow> Target \<Rightarrow> Submission \<Rightarrow> error option" where
  "policy_error U t sub =
     (if rMethod (sRequest sub) \<notin> set (epMethods (tgEndpoint t))
         \<or> \<not> PathAllowed (epPrefixes (tgEndpoint t)) (rPath (sRequest sub))
      then Some (Fail ''TARGET_NOT_ALLOWED'' 403 ''request violates target allowlist'')
      else if list_ex (\<lambda>(k, _). EqualFold U k (auHeader (tgAuth t))) (rHeaders (sRequest sub))
      then Some (Fail ''INVALID_REQUEST'' 400 ''authentication headers must use secret references'')
      else if (if sMode sub = [] then tgDefaultMode t else sMode sub) = ''proxy'' \<and> \<not> tgAllowProxy t
      then Some (Fail ''TARGET_NOT_ALLOWED'' 403 ''proxy is disabled'')
      else None)"

definition new_notification ::
  "gotime \<Rightarrow> ID \<Rightarrow> string \<Rightarrow> string \<Rightarrow> byte list \<Rightarrow> ID option \<Rightarrow> Snapshot \<Rightarrow> Target \<Rightarrow> Submission \<Rightarrow> Notification" where
  "new_notification now fresh client key hash batch snap t sub =
     (let r = go_get zero_Retry (snRetries snap) (tgRetryPolicy t) in
      zero_Notification\<lparr>nID := fresh, nClient := client, nTarget := sTarget sub, nBatch := batch, nKey := key,
        nHash := hash, nRequest := sRequest sub, nMode := (if sMode sub = [] then tgDefaultMode t else sMode sub),
        nStatus := ''pending'', nGeneration := 1, nNext := now, nDeadline := now + rtMaxDuration r,
        nCreated := now, nUpdated := now, nTargetRevision := tgRevision t, nRetryRevision := rtRevision r,
        nConfigRevision := snRevision snap,
        nHookRevision := (if tgHook t \<noteq> [] then hkRevision (go_get zero_Hook (snHooks snap) (tgHook t)) else 0)\<rparr>)"

definition Accept ::
  "unicode \<Rightarrow> (string \<Rightarrow> byte list) \<Rightarrow> codec \<Rightarrow> accept_env \<Rightarrow> string \<Rightarrow> Submission \<Rightarrow> ID option \<Rightarrow> Snapshot \<Rightarrow>
    'w world_scheme \<Rightarrow> (error + Notification \<times> bool) \<times> 'w world_scheme" where
  "Accept U sha256 J v client sub batch snap w =
     (if \<not> key_ok U (sKey sub) then (Inl (Fail ''INVALID_REQUEST'' 400 ''invalid idempotency key''), w)
      else case normalize_request U ((sRequest sub)\<lparr>rMethod := ToUpper U (rMethod (sRequest sub))\<rparr>) of
        Inl x \<Rightarrow> (Inl (Fail ''INVALID_REQUEST'' 400 (error_text x)), w)
      | Inr request \<Rightarrow>
          if sMode sub \<noteq> [] \<and> sMode sub \<noteq> ''async'' \<and> sMode sub \<noteq> ''proxy''
          then (Inl (Fail ''INVALID_REQUEST'' 400 ''invalid delivery mode''), w)
          else let key = sKey sub; sub1 = sub\<lparr>sRequest := request, sKey := []\<rparr> in
            case marshal_Submission J sub1 of
              None \<Rightarrow> (Inl json_error, w)
            | Some encoded \<Rightarrow>
                let hash = sha256 encoded in
                case ByKey J (vLookupFails v) client key (wDb w) of
                  Inr old \<Rightarrow>
                    if nHash old \<noteq> hash then (Inl ErrConflict, w) else (Inr (old, False), w)
                | Inl x \<Rightarrow>
                    if x \<noteq> ErrNotFound then (Inl x, w)
                    else case Allowed snap client (sTarget sub) of
                      (_, Some x) \<Rightarrow> (Inl x, w)
                    | (t, None) \<Rightarrow>
                        (case policy_error U t sub1 of
                           Some x \<Rightarrow> (Inl x, w)
                         | None \<Rightarrow>
                             (case take_quota (vQuota v) client snap (wQuota w) of
                                (Some x, st) \<Rightarrow> (Inl x, w\<lparr>wQuota := st\<rparr>)
                              | (None, st) \<Rightarrow>
                                  (case Store_Accept J (vStore v)
                                          (new_notification (vNow v) (vFresh v) client key hash batch snap t sub1)
                                          (vMeanwhile v (wDb w)) of
                                     (Inl x, d) \<Rightarrow> (Inl x, w\<lparr>wQuota := st, wDb := d\<rparr>)
                                   | (Inr (n, created), d) \<Rightarrow>
                                       (Inr (n, created),
                                        w\<lparr>wQuota := st, wDb := d,
                                          wAccepted := (if created then uint64_inc (wAccepted w) else wAccepted w)\<rparr>)))))"

section \<open>Retry\<close>

definition Retry_Service ::
  "toolkit \<Rightarrow> codec \<Rightarrow> control_db \<Rightarrow> history_env \<Rightarrow> io \<Rightarrow> (db \<Rightarrow> db) \<Rightarrow> io \<Rightarrow> (bool option \<times> int) option \<Rightarrow> string \<Rightarrow> ID \<Rightarrow>
    Snapshot \<Rightarrow> 'w world_scheme \<Rightarrow> (error + unit) \<times> 'w world_scheme" where
  "Retry_Service K J c v e1 others e2 quota client u snap w =
     (if \<not> clManualRetry (go_get zero_Client (snClients snap) client)
      then (Inl (Fail ''FORBIDDEN'' 403 ''manual retry permission required''), w)
      else case Get J e1 u client (wDb w) of
        Inl x \<Rightarrow> (Inl x, w)
      | Inr n \<Rightarrow>
          (case Allowed snap client (nTarget n) of
             (_, Some x) \<Rightarrow> (Inl x, w)
           | (_, None) \<Rightarrow>
               if nStatus n \<noteq> ''failed'' then (Inl ErrState, w)
               else case take_quota quota client snap (wQuota w) of
                      (Some x, st) \<Rightarrow> (Inl x, w\<lparr>wQuota := st\<rparr>)
                    | (None, st) \<Rightarrow>
                        (case History K c v (nConfigRevision n) (wManager w) of
                           (Inl x, m) \<Rightarrow> (Inl x, w\<lparr>wQuota := st, wManager := m\<rparr>)
                         | (Inr old, m) \<Rightarrow>
                             (case map_of (snTargets old) (nTarget n) of
                                None \<Rightarrow> (Inl (Fail ''DEPENDENCY_UNAVAILABLE'' 503 ''historical config missing''),
                                         w\<lparr>wQuota := st, wManager := m\<rparr>)
                              | Some t \<Rightarrow>
                                  (case Store_ManualRetry J e2 n
                                          (rtMaxDuration (go_get zero_Retry (snRetries old) (tgRetryPolicy t))) (others (wDb w)) of
                                     (res, d) \<Rightarrow> (res, w\<lparr>wQuota := st, wManager := m, wDb := d\<rparr>))))))"

section \<open>The normal form is stable\<close>

definition header_ok :: "unicode \<Rightarrow> string \<times> string \<Rightarrow> bool" where
  "header_ok U h \<longleftrightarrow> ValidHeader (fst h) \<and> \<not> ForbiddenTransportHeader U (fst h)
     \<and> \<not> SensitiveHeader U (fst h) \<and> \<not> ContainsAny (snd h) ctl"

definition canonical_headers :: "(string \<times> string) list \<Rightarrow> (string \<times> string) list" where
  "canonical_headers hs = map (\<lambda>(k, v). (CanonicalHeaderKey k, v)) hs"

definition text_size :: "(string \<times> string) list \<Rightarrow> nat" where
  "text_size hs = sum_list (map (\<lambda>(k, v). length k + length v) hs)"

lemma norm_headers_iff:
  "norm_headers U hs acc len = Inr (acc', len') \<longleftrightarrow>
     list_all (header_ok U) hs \<and> distinct (map fst (canonical_headers hs))
     \<and> set (map fst (canonical_headers hs)) \<inter> fst ` set acc = {}
     \<and> acc' = acc @ canonical_headers hs \<and> len' = len + text_size (canonical_headers hs)"
  by (induction U hs acc len rule: norm_headers.induct)
    (auto simp: canonical_headers_def text_size_def header_ok_def Let_def)

lemma length_canonical: "length (canonical up s) = length s"
  by (induction up s rule: canonical.induct) auto

definition token_char :: "char \<Rightarrow> bool" where
  "token_char c \<longleftrightarrow> alnum c \<or> c \<in> set header_marks"

lemma token_upper: "token_char (upper_char c) = token_char c"
proof (cases "97 \<le> octet c \<and> octet c \<le> 122")
  case True
  then have "alnum (upper_char c)" "alnum c" by (auto simp: alnum_def in_range_def octet_upper)
  then show ?thesis by (simp add: token_char_def)
next
  case False
  then have "upper_char c = c" by (simp only: char_eq_octet octet_upper if_False)
  then show ?thesis by simp
qed

lemma token_lower: "token_char (lower_char c) = token_char c"
proof (cases "65 \<le> octet c \<and> octet c \<le> 90")
  case True
  then have "alnum (lower_char c)" "alnum c" by (auto simp: alnum_def in_range_def octet_lower)
  then show ?thesis by (simp add: token_char_def)
next
  case False
  then have "lower_char c = c" by (simp only: char_eq_octet octet_lower if_False)
  then show ?thesis by simp
qed

lemma canonical_valid: "list_all token_char (canonical up s) = list_all token_char s"
  by (induction up s rule: canonical.induct) (simp_all add: token_upper token_lower)

lemma ValidHeader_token: "ValidHeader s \<longleftrightarrow> s \<noteq> [] \<and> length s \<le> 128 \<and> list_all token_char s"
  by (simp add: ValidHeader_def list_all_iff token_char_def)

lemma ValidHeader_canonical: "ValidHeader (CanonicalHeaderKey k) = ValidHeader k"
  using length_canonical [of True k]
  by (auto simp: ValidHeader_token CanonicalHeaderKey_def canonical_valid)

lemma header_ascii: "ValidHeader k \<Longrightarrow> list_all ascii k"
  by (auto simp: ValidHeader_def list_all_iff alnum_def in_range_def ascii_def header_marks_def char_eq_octet)

lemma ToLower_canonical: "ValidHeader k \<Longrightarrow> ToLower U (CanonicalHeaderKey k) = ToLower U k"
  using header_ascii [of k] header_ascii [of "CanonicalHeaderKey k"]
  by (simp add: ToLower_def ValidHeader_canonical CanonicalHeaderKey_lower)

lemma header_ok_canonical: "header_ok U (k, v) \<Longrightarrow> header_ok U (CanonicalHeaderKey k, v)"
  by (auto simp: header_ok_def ValidHeader_canonical ForbiddenTransportHeader_def SensitiveHeader_def ToLower_canonical)

lemma canonical_headers_idem: "canonical_headers (canonical_headers hs) = canonical_headers hs"
  by (auto simp: canonical_headers_def CanonicalHeaderKey_idem)

lemma norm_headers_again:
  assumes "norm_headers U hs [] 0 = Inr (hs', len)"
  shows "norm_headers U hs' [] 0 = Inr (hs', len)"
proof -
  from assms have ok: "list_all (header_ok U) hs" and d: "distinct (map fst (canonical_headers hs))"
    and hs': "hs' = canonical_headers hs" "len = text_size hs'"
    by (auto simp: norm_headers_iff)
  have "list_all (header_ok U) hs'"
    using ok by (auto simp: hs' canonical_headers_def list_all_iff header_ok_canonical)
  with d hs' show ?thesis by (simp add: norm_headers_iff canonical_headers_idem)
qed

lemma normalize_body_again:
  assumes "normalize_body r = Inr (body, r1)"
  shows "normalize_body r1 = Inr (body, r1)"
    and "utf8_Valid body \<Longrightarrow> normalize_body (r1\<lparr>rBodyEncoding := ''utf8'', rBody := body\<rparr>)
      = Inr (body, r1\<lparr>rBodyEncoding := ''utf8'', rBody := body\<rparr>)"
  using assms by (auto simp: normalize_body_def Let_def b64_roundtrip split: if_splits option.splits)

lemma normalize_body_fields:
  "normalize_body r = Inr (body, r1) \<Longrightarrow> rPath r1 = rPath r \<and> rHeaders r1 = rHeaders r \<and> rQuery r1 = rQuery r
    \<and> rMethod r1 = rMethod r"
  by (auto simp: normalize_body_def Let_def split: if_splits option.splits)

lemma normalize_body_headers:
  "normalize_body (r\<lparr>rHeaders := hs\<rparr>) = map_sum id (\<lambda>(b, r'). (b, r'\<lparr>rHeaders := hs\<rparr>)) (normalize_body r)"
  by (simp add: normalize_body_def Let_def split: option.splits)

lemma normalize_again:
  assumes "normalize_request U r = Inr r'"
  shows "normalize_request U r' = Inr r'"
proof -
  from assms obtain body r1 hs len len' where
    path: "ValidatePath (rPath r) = None" and nb: "normalize_body r = Inr (body, r1)"
    and size: "\<not> length body > 1048576"
    and many: "\<not> (length (rHeaders r) > 64 \<or> length (rQuery r) > 128)"
    and nh: "norm_headers U (rHeaders r) [] 0 = Inr (hs, len)" and nq: "norm_query U (rQuery r) len = Inr len'"
    and total: "\<not> len' > 16384"
    and r': "r' = (if utf8_Valid body then r1\<lparr>rBodyEncoding := ''utf8'', rBody := body\<rparr> else r1)\<lparr>rHeaders := hs\<rparr>"
    using normalize_body_fields
    by (fastforce simp: normalize_request_def Let_def split: option.splits sum.splits prod.splits if_splits)
  let ?r2 = "if utf8_Valid body then r1\<lparr>rBodyEncoding := ''utf8'', rBody := body\<rparr> else r1"
  note f = normalize_body_fields [OF nb]
  have "normalize_body ?r2 = Inr (body, ?r2)" using normalize_body_again [OF nb] by simp
  then have "normalize_body r' = Inr (body, r')" unfolding r' normalize_body_headers by simp
  moreover have "rPath r' = rPath r" "rQuery r' = rQuery r" "rHeaders r' = hs" using f by (simp_all add: r')
  moreover have "length hs = length (rHeaders r)" using nh by (auto simp: norm_headers_iff canonical_headers_def)
  moreover have "(if utf8_Valid body then r'\<lparr>rBodyEncoding := ''utf8'', rBody := body\<rparr> else r') = r'"
    "r'\<lparr>rHeaders := hs\<rparr> = r'"
    by (simp_all add: r')
  ultimately show ?thesis
    using path size many norm_headers_again [OF nh] nq total by (simp add: normalize_request_def Let_def)
qed


definition ex_raw :: Request where
  "ex_raw = \<lparr>rMethod = ''POST'', rPath = ''/v1/a'', rQuery = [(''q'', ''1'')], rHeaders = [(''x-trace'', ''t'')],
     rBodyEncoding = ''base64'', rBody = ''aGk='' @ [CHR 0x0A]\<rparr>"

definition ex_normal :: Request where
  "ex_normal = ex_raw\<lparr>rHeaders := [(''X-Trace'', ''t'')], rBodyEncoding := ''utf8'', rBody := ''hi''\<rparr>"

lemma ex_normalize: "normalize_request ascii_only ex_raw = Inr ex_normal"
proof -
  have "ValidatePath (rPath ex_raw) = None" by code_simp
  moreover have "normalize_body ex_raw = Inr (''hi'', ex_raw\<lparr>rBody := ''aGk=''\<rparr>)" by code_simp
  moreover have "utf8_Valid ''hi''" by code_simp
  moreover have "norm_headers ascii_only (rHeaders ex_raw) [] 0 = Inr ([(''X-Trace'', ''t'')], 8)" by code_simp
  moreover have "norm_query ascii_only (rQuery ex_raw) 8 = Inr 10" by code_simp
  ultimately show ?thesis by (simp add: normalize_request_def Let_def ex_normal_def ex_raw_def)
qed


section \<open>What acceptance guarantees\<close>

text \<open>The one successful path of \<^const>\<open>Accept\<close> that writes.\<close>

lemma Accept_created:
  assumes "Accept U sha J v client sub batch snap w = (Inr (n, True), w')"
  obtains request encoded t st where
    "key_ok U (sKey sub)" "normalize_request U ((sRequest sub)\<lparr>rMethod := ToUpper U (rMethod (sRequest sub))\<rparr>) = Inr request"
    "sMode sub \<in> {[], ''async'', ''proxy''}"
    "marshal_Submission J (sub\<lparr>sRequest := request, sKey := []\<rparr>) = Some encoded"
    "Allowed snap client (sTarget sub) = (t, None)" "policy_error U t (sub\<lparr>sRequest := request, sKey := []\<rparr>) = None"
    "take_quota (vQuota v) client snap (wQuota w) = (None, st)"
    "Store_Accept J (vStore v) (new_notification (vNow v) (vFresh v) client (sKey sub) (sha encoded) batch snap t
       (sub\<lparr>sRequest := request, sKey := []\<rparr>)) (vMeanwhile v (wDb w)) = (Inr (n, True), wDb w')"
proof -
  have "\<exists>request encoded t st. key_ok U (sKey sub)
    \<and> normalize_request U ((sRequest sub)\<lparr>rMethod := ToUpper U (rMethod (sRequest sub))\<rparr>) = Inr request
    \<and> sMode sub \<in> {[], ''async'', ''proxy''}
    \<and> marshal_Submission J (sub\<lparr>sRequest := request, sKey := []\<rparr>) = Some encoded
    \<and> Allowed snap client (sTarget sub) = (t, None) \<and> policy_error U t (sub\<lparr>sRequest := request, sKey := []\<rparr>) = None
    \<and> take_quota (vQuota v) client snap (wQuota w) = (None, st)
    \<and> Store_Accept J (vStore v) (new_notification (vNow v) (vFresh v) client (sKey sub) (sha encoded) batch snap t
       (sub\<lparr>sRequest := request, sKey := []\<rparr>)) (vMeanwhile v (wDb w)) = (Inr (n, True), wDb w')"
    using assms unfolding Accept_def Let_def
    by (simp split: if_splits sum.splits option.splits prod.splits) auto
  then show thesis using that by blast
qed

lemma Store_Accept_created:
  assumes "Store_Accept J e n d = (Inr (m, True), d')"
  obtains b where "m = n" "marshal_Request J (nRequest n) = Some b" "tasks d' = tasks d @ [task_of n b]"
    "\<not> list_ex (\<lambda>r. tk_id r = nID n \<or> tk_client r = nClient n \<and> tk_key r = nKey n) (tasks d)"
proof -
  from assms obtain b d1 where b: "marshal_Request J (nRequest n) = Some b"
    and fresh: "\<not> list_ex (\<lambda>r. tk_id r = nID n \<or> tk_client r = nClient n \<and> tk_key r = nKey n) (tasks d)"
    and ev: "insertEvent J (io_fails e 4) (io_ids e 0) (io_clock e 0) (utc e 1) n ''dispatch'' (nNext n)
                   (d\<lparr>tasks := tasks d @ [task_of n b]\<rparr>) = Inr d1"
    and com: "commit e 5 d (n, True) d1 = (Inr (m, True), d')"
    by (auto simp: Store_Accept_def split: option.splits if_splits sum.splits)
  from com have m: "m = n" "d' = d1" by (simp_all add: commit_def split: if_splits)
  from ev have "tasks d' = tasks d @ [task_of n b]"
    unfolding m by (rule insertEvent_ok) (simp add: add_event_def)
  with b fresh m show thesis using that by blast
qed

lemma Allowed_None:
  "Allowed snap client target = (t, None) \<Longrightarrow> map_of (snTargets snap) target = Some t \<and> tgEnabled t
     \<and> (\<exists>c. map_of (snClients snap) client = Some c \<and> clEnabled c \<and> target \<in> set (clTargets c))"
  by (auto simp: Allowed_def split: option.splits if_splits)


text \<open>A submission to a small configuration.\<close>

definition ex_snap :: Snapshot where
  "ex_snap = \<lparr>snRevision = 7, snLoadedAt = 0, snTargets = [(''t'', ex_tool_target)],
     snClients = the (dcClients ex_tool_doc), snRetries = the (dcRetries ex_tool_doc),
     snQuotas = the (dcQuotas ex_tool_doc), snHooks = [], snIssuers = [], snPrograms = [], snKeys = []\<rparr>"

definition ex_sub :: Submission where
  "ex_sub = \<lparr>sKey = ''k1'', sTarget = ''t'', sMode = [], sRequest = ex_raw\<rparr>"

definition ex_env :: accept_env where
  "ex_env = \<lparr>vLookupFails = False, vMeanwhile = (\<lambda>d. d), vStore = ex_io second 1, vNow = second, vFresh = replicate 16 5, vQuota = None\<rparr>"

definition ex_world :: world where
  "ex_world = \<lparr>wDb = empty_db, wQuota = (New 5 5, ex_redis), wManager = NewManager, wAccepted = 0\<rparr>"

definition ex_sha :: "string \<Rightarrow> byte list" where
  "ex_sha s = replicate 32 9"

definition ex_codec2 :: codec where
  "ex_codec2 = ex_codec\<lparr>unmarshal_Request := (\<lambda>_. Some ex_normal)\<rparr>"

definition ex_accepted :: Notification where
  "ex_accepted = new_notification second (replicate 16 5) ''c'' ''k1'' (replicate 32 9) None ex_snap ex_tool_target
     (ex_sub\<lparr>sRequest := ex_normal, sKey := []\<rparr>)"

definition ex_world1 :: world where
  "ex_world1 = snd (Accept ascii_only ex_sha ex_codec2 ex_env ''c'' ex_sub None ex_snap ex_world)"

lemma ex_Accept:
  "Accept ascii_only ex_sha ex_codec2 ex_env ''c'' ex_sub None ex_snap ex_world = (Inr (ex_accepted, True), ex_world1)"
proof -
  have "key_ok ascii_only ''k1''" by code_simp
  moreover have "ToUpper ascii_only ''POST'' = ''POST''" by code_simp
  moreover have "policy_error ascii_only ex_tool_target (ex_sub\<lparr>sRequest := ex_normal, sKey := []\<rparr>) = None" by code_simp
  moreover have "Allowed ex_snap ''c'' ''t'' = (ex_tool_target, None)" by code_simp
  moreover have "normalize_request ascii_only (ex_raw\<lparr>rMethod := ''POST''\<rparr>) = Inr ex_normal"
  proof -
    have eq: "ex_raw\<lparr>rMethod := ''POST''\<rparr> = ex_raw" by (simp add: ex_raw_def)
    show ?thesis by (simp only: eq ex_normalize)
  qed
  moreover have "rMethod ex_raw = ''POST''" by (simp add: ex_raw_def)
  ultimately have "fst (Accept ascii_only ex_sha ex_codec2 ex_env ''c'' ex_sub None ex_snap ex_world) = Inr (ex_accepted, True)"
    by (simp add: Accept_def ex_sub_def ex_normalize ex_codec2_def ex_codec_def ByKey_def scan_def ex_world_def ex_env_def
        empty_db_def Let_def take_quota_def Store_Accept_def insertEvent_def commit_def ex_io_def ex_accepted_def ex_sha_def)
  then show ?thesis unfolding ex_world1_def by (metis prod.collapse)
qed


text \<open>
  C31: a submission can be replayed. After it was accepted, the same submission, whatever batch,
  configuration snapshot, quota and clock it meets the second time, returns the stored notification
  as not new, and changes neither the database nor the quota.
\<close>

theorem Accept_replay:
  assumes first: "Accept U sha J v client sub batch snap w = (Inr (n, True), w')"
    and codec: "\<And>b. marshal_Request J (nRequest n) = Some b \<Longrightarrow> unmarshal_Request J b = Some (nRequest n)"
    and up: "\<not> vLookupFails v'"
  shows "\<exists>old. Accept U sha J v' client sub batch' snap' w' = (Inr (old, False), w')
    \<and> nID old = nID n \<and> nHash old = nHash n \<and> nRequest old = nRequest n"
  using first
proof (rule Accept_created)
  fix request encoded t st
  let ?sub = "sub\<lparr>sRequest := request, sKey := []\<rparr>"
  let ?n = "new_notification (vNow v) (vFresh v) client (sKey sub) (sha encoded) batch snap t ?sub"
  assume path: "key_ok U (sKey sub)" "normalize_request U ((sRequest sub)\<lparr>rMethod := ToUpper U (rMethod (sRequest sub))\<rparr>) = Inr request"
    "sMode sub \<in> {[], ''async'', ''proxy''}" "marshal_Submission J ?sub = Some encoded"
    and acc: "Store_Accept J (vStore v) ?n (vMeanwhile v (wDb w)) = (Inr (n, True), wDb w')"
  from acc obtain b where n: "n = ?n" and b: "marshal_Request J (nRequest ?n) = Some b"
    and row: "tasks (wDb w') = tasks (vMeanwhile v (wDb w)) @ [task_of ?n b]"
    and fresh: "\<not> list_ex (\<lambda>r. tk_id r = nID ?n \<or> tk_client r = nClient ?n \<and> tk_key r = nKey ?n) (tasks (vMeanwhile v (wDb w)))"
    by (rule Store_Accept_created) blast
  have f: "nClient ?n = client" "nKey ?n = sKey sub" "nHash ?n = sha encoded"
    by (simp_all add: new_notification_def Let_def)
  have "find (\<lambda>r. tk_client r = client \<and> tk_key r = sKey sub) (tasks (vMeanwhile v (wDb w))) = None"
    using fresh f by (auto simp: find_None_iff list_ex_iff)
  then have "ByKey J (vLookupFails v') client (sKey sub) (wDb w') = Inr (Notification_of (task_of ?n b) (nRequest ?n))"
    using codec [of b] b up f n by (simp add: ByKey_def row find_append scan_def task_of_def)
  then have "Accept U sha J v' client sub batch' snap' w' =
      (Inr (Notification_of (task_of ?n b) (nRequest ?n), False), w')"
    using path f by (auto simp: Accept_def Let_def Notification_of_def task_of_def)
  then show ?thesis by (auto simp: n Notification_of_def task_of_def)
qed

theorem Accept_replay_witness:
  "\<exists>old. Accept ascii_only ex_sha ex_codec2 (ex_env\<lparr>vNow := hour\<rparr>) ''c'' ex_sub None (ex_snap\<lparr>snTargets := []\<rparr>) ex_world1
       = (Inr (old, False), ex_world1) \<and> nID old = nID ex_accepted"
proof -
  have "nRequest ex_accepted = ex_normal" by (simp add: ex_accepted_def new_notification_def Let_def)
  then have "\<And>b. unmarshal_Request ex_codec2 b = Some (nRequest ex_accepted)" by (simp add: ex_codec2_def)
  with Accept_replay [OF ex_Accept, of "ex_env\<lparr>vNow := hour\<rparr>" None "ex_snap\<lparr>snTargets := []\<rparr>"] show ?thesis
    by (auto simp: ex_env_def)
qed

end
