(* ===== verification/Payload.thy ===== *)
theory Payload
  imports RetryPolicy Validate
begin

text \<open>
  The JSON work of \<^verbatim>\<open>internal/target/http.go\<close>: putting the idempotency key into a body
  (\<^verbatim>\<open>injectJSON\<close>, \<^verbatim>\<open>setPointer\<close>) and taking secrets out of what is kept of a response
  (\<^verbatim>\<open>Redact\<close>, \<^verbatim>\<open>redactValue\<close>). Parsing and printing JSON are the parameters of \<^verbatim>\<open>json_lib\<close>.
\<close>

section \<open>strconv.Itoa\<close>

fun nat_digits :: "nat \<Rightarrow> string" where
  "nat_digits n = (if n < 10 then [char_of (48 + n)] else nat_digits (n div 10) @ [char_of (48 + n mod 10)])"

declare nat_digits.simps [simp del]

definition Itoa :: "int \<Rightarrow> string" where
  "Itoa i = (if i < 0 then CHR ''-'' # nat_digits (nat (- i)) else nat_digits (nat i))"

section \<open>Pointers\<close>

text \<open>Assignment to a key of a Go map.\<close>

fun map_put :: "string \<Rightarrow> 'v \<Rightarrow> (string \<times> 'v) list \<Rightarrow> (string \<times> 'v) list" where
  "map_put k v [] = [(k, v)]"
| "map_put k v ((k', v') # m) = (if k' = k then (k, v) # m else (k', v') # map_put k v m)"

lemma map_of_put [simp]: "map_of (map_put k v m) k' = (if k' = k then Some v else map_of m k')"
  by (induction k v m rule: map_put.induct) auto

text \<open>The index of an array a pointer segment names: a number in canonical form, in range.\<close>

definition array_index :: "string \<Rightarrow> 'a list \<Rightarrow> nat option" where
  "array_index p xs =
     (case ParseInt p of
        None \<Rightarrow> None
      | Some i \<Rightarrow> if i < 0 \<or> i \<ge> int (length xs) \<or> Itoa i \<noteq> p then None else Some (nat i))"

fun setPointer :: "json \<Rightarrow> string list \<Rightarrow> string \<Rightarrow> error + json" where
  "setPointer node [] val = Inr (JStr val)"
| "setPointer (JObj m) (p # ps) val =
     (let child = (case map_of m p of
          Some c \<Rightarrow> c
        | None \<Rightarrow> if ps \<noteq> [] then JObj [] else JNull)
      in case setPointer child ps val of
           Inl x \<Rightarrow> Inl x
         | Inr nxt \<Rightarrow> Inr (JObj (map_put p nxt m)))"
| "setPointer (JArr xs) (p # ps) val =
     (if p = ''-'' \<and> ps = [] then Inr (JArr (xs @ [JStr val]))
      else case array_index p xs of
             None \<Rightarrow> Inl (fails ''invalid JSON array pointer'')
           | Some i \<Rightarrow>
               (case setPointer (xs ! i) ps val of
                  Inl x \<Rightarrow> Inl x
                | Inr nxt \<Rightarrow> Inr (JArr (xs[i := nxt]))))"
| "setPointer node (p # ps) val = Inl (fails ''JSON pointer traverses scalar'')"

record json_lib =
  jDecode :: "string \<Rightarrow> (json \<times> string) option"
  jUnmarshal :: "string \<Rightarrow> json option"
  jMarshal :: "json \<Rightarrow> string option"

definition pointer_parts :: "string \<Rightarrow> string list" where
  "pointer_parts pointer =
     map (\<lambda>p. ReplaceAll (ReplaceAll p ''~1'' ''/'') ''~0'' ''~'') (Split (TrimPrefix pointer ''/'') (CHR ''/''))"

definition injectJSON :: "json_lib \<Rightarrow> string \<Rightarrow> string \<Rightarrow> string \<Rightarrow> error + string" where
  "injectJSON L body pointer key =
     (case jDecode L body of
        None \<Rightarrow> Inl (fails ''json'')
      | Some (root, rest) \<Rightarrow>
          if \<not> list_all json_space rest then Inl (fails ''invalid JSON'')
          else case setPointer root (pointer_parts pointer) key of
                 Inl x \<Rightarrow> Inl x
               | Inr root' \<Rightarrow> (case jMarshal L root' of None \<Rightarrow> Inl (fails ''json'') | Some b \<Rightarrow> Inr b))"

text \<open>Reading a document by a pointer.\<close>

fun getPointer :: "json \<Rightarrow> string list \<Rightarrow> json option" where
  "getPointer node [] = Some node"
| "getPointer (JObj m) (p # ps) = (case map_of m p of None \<Rightarrow> None | Some c \<Rightarrow> getPointer c ps)"
| "getPointer (JArr xs) (p # ps) = (case array_index p xs of None \<Rightarrow> None | Some i \<Rightarrow> getPointer (xs ! i) ps)"
| "getPointer node (p # ps) = None"

lemma array_index_update: "array_index p (xs[i := v]) = array_index p xs"
  by (simp add: array_index_def split: option.splits)

lemma array_index_less: "array_index p xs = Some i \<Longrightarrow> i < length xs"
  by (auto simp: array_index_def split: option.splits if_splits)

text \<open>Two pointers part ways: at some segment they differ, neither a prefix of the other.\<close>

fun diverge :: "string list \<Rightarrow> string list \<Rightarrow> bool" where
  "diverge (p # ps) (q # qs) \<longleftrightarrow> p \<noteq> q \<or> diverge ps qs"
| "diverge _ _ \<longleftrightarrow> False"

lemma array_index_inj: "array_index p xs = Some i \<Longrightarrow> array_index q xs = Some i \<Longrightarrow> p = q"
  by (auto simp: array_index_def split: option.splits if_splits) (metis int_nat_eq not_less)

lemma getPointer_object:
  assumes "diverge (p # ps) qs" and "getPointer (JObj m) qs \<noteq> None"
    and "\<And>c qs'. map_of m p = Some c \<Longrightarrow> diverge ps qs' \<Longrightarrow> getPointer c qs' \<noteq> None \<Longrightarrow> getPointer nxt qs' = getPointer c qs'"
  shows "getPointer (JObj (map_put p nxt m)) qs = getPointer (JObj m) qs"
proof (cases qs)
  case (Cons q qs')
  with assms show ?thesis by (cases "q = p") (auto split: option.splits)
qed (use assms in simp)

lemma getPointer_array:
  assumes "diverge (p # ps) qs" and "getPointer (JArr xs) qs \<noteq> None" and i: "array_index p xs = Some i"
    and "\<And>qs'. diverge ps qs' \<Longrightarrow> getPointer (xs ! i) qs' \<noteq> None \<Longrightarrow> getPointer nxt qs' = getPointer (xs ! i) qs'"
  shows "getPointer (JArr (xs[i := nxt])) qs = getPointer (JArr xs) qs"
proof (cases qs)
  case (Cons q qs')
  with assms(2) obtain j where j: "array_index q xs = Some j" "getPointer (xs ! j) qs' \<noteq> None"
    by (auto split: option.splits)
  have "q = p" if "j = i" using that array_index_inj i j(1) by blast
  with assms(1,4) j Cons array_index_less [OF i] show ?thesis
    by (cases "j = i") (auto simp: array_index_update)
qed (use assms in simp)

text \<open>
  An injected key is where the pointer says, and nothing else moves. Unless it appends to an
  array, what \<^const>\<open>setPointer\<close> writes is read back at the same pointer, and every other pointer that
  leads somewhere in the original document, and does not run through the written place, leads to the same value.
\<close>

theorem setPointer_get:
  assumes "setPointer node ps val = Inr node'" and "''-'' \<notin> set ps"
  shows "getPointer node' ps = Some (JStr val)
    \<and> (diverge ps qs \<longrightarrow> getPointer node qs \<noteq> None \<longrightarrow> getPointer node' qs = getPointer node qs)"
  using assms
proof (induction node ps val arbitrary: node' qs rule: setPointer.induct)
  case (2 m p ps val)
  let ?child = "case map_of m p of Some c \<Rightarrow> c | None \<Rightarrow> if ps \<noteq> [] then JObj [] else JNull"
  from 2(2) obtain nxt where nxt: "setPointer ?child ps val = Inr nxt" "node' = JObj (map_put p nxt m)"
    by (auto simp: Let_def split: sum.splits)
  note IH = 2(1) [OF refl nxt(1)]
  have "getPointer nxt qs' = getPointer c qs'"
    if "map_of m p = Some c" "diverge ps qs'" "getPointer c qs' \<noteq> None" for c qs'
    using IH [of qs'] that 2(3) by simp
  with getPointer_object [of p ps qs m nxt] IH 2(3) show ?case by (simp add: nxt(2))
next
  case (3 xs p ps val)
  from 3(2,3) obtain i nxt where i: "array_index p xs = Some i" and
    nxt: "setPointer (xs ! i) ps val = Inr nxt" "node' = JArr (xs[i := nxt])"
    by (auto split: option.splits sum.splits if_splits)
  have notm: "\<not> (p = ''-'' \<and> ps = [])" using 3(3) by auto
  note IH = 3(1) [OF notm i nxt(1)]
  from getPointer_array [OF _ _ i, of ps qs nxt] IH 3(3) i array_index_less [OF i] show ?case
    by (simp add: nxt(2) array_index_update)
qed auto

theorem setPointer_get_witness:
  "\<exists>j. setPointer (JObj [(''a'', JNum ''1'')]) [''m'', ''id''] ''k'' = Inr j
     \<and> getPointer j [''m'', ''id''] = Some (JStr ''k'') \<and> getPointer j [''a''] = Some (JNum ''1'')"
proof -
  let ?j = "JObj [(''a'', JNum ''1''), (''m'', JObj [(''id'', JStr ''k'')])]"
  have set: "setPointer (JObj [(''a'', JNum ''1'')]) [''m'', ''id''] ''k'' = Inr ?j" by simp
  from setPointer_get [OF set, of "[''a'']"] set show ?thesis by auto
qed

section \<open>Redaction\<close>

definition redacted :: string where
  "redacted = ''[REDACTED]''"

text \<open>
  The three places of \<^verbatim>\<open>redactValue\<close> that replace the secret in a string do the same: nothing when
  there is no secret.
\<close>

definition hide :: "string \<Rightarrow> string \<Rightarrow> string" where
  "hide secret s = (if secret \<noteq> [] then ReplaceAll s secret redacted else s)"

fun redactValue :: "unicode \<Rightarrow> string list \<Rightarrow> string \<Rightarrow> json \<Rightarrow> json" where
  "redactValue U names secret (JObj m) =
     JObj (map (\<lambda>(k, v). (k, if SensitiveHeader U k \<or> k \<in> set names then JStr redacted
                              else redactValue U names secret v)) m)"
| "redactValue U names secret (JArr xs) = JArr (map (redactValue U names secret) xs)"
| "redactValue U names secret (JStr s) = JStr (hide secret s)"
| "redactValue U names secret v = v"

definition Redact :: "unicode \<Rightarrow> json_lib \<Rightarrow> Decision \<Rightarrow> Target \<Rightarrow> string \<Rightarrow> Decision" where
  "Redact U L d t secret =
     (let preview = (case jUnmarshal L (dPreview d) of
            None \<Rightarrow> []
          | Some body \<Rightarrow>
              (case jMarshal L (redactValue U (tgSensitiveJSON t) secret body) of
                 None \<Rightarrow> dPreview d
               | Some b \<Rightarrow> take (nat (tgPreviewBytes t)) b));
          report = (if dReport d = [] then dReport d
            else case jUnmarshal L (dReport d) of
                   None \<Rightarrow> []
                 | Some r \<Rightarrow>
                     (case jMarshal L (redactValue U (tgSensitiveJSON t) secret r) of
                        None \<Rightarrow> []
                      | Some b \<Rightarrow> if length b \<le> 8192 then b else []))
      in d\<lparr>dPreview := preview, dReport := report,
           dHeaders := map (\<lambda>(k, v). (k, hide secret v)) (dHeaders d),
           dReason := (if secret \<noteq> [] \<and> Contains (dReason d) secret then ''redacted_reason'' else dReason d)\<rparr>)"

text \<open>The string values of a document, without the names of object members.\<close>

fun strings :: "json \<Rightarrow> string set" where
  "strings (JObj m) = (\<Union>(k, v)\<in>set m. strings v)"
| "strings (JArr xs) = (\<Union>v\<in>set xs. strings v)"
| "strings (JStr s) = {s}"
| "strings _ = {}"

text \<open>A secret that shares nothing with the replacement text can not reappear through it.\<close>

definition plain_secret :: "string \<Rightarrow> bool" where
  "plain_secret secret \<longleftrightarrow> secret \<noteq> [] \<and> CHR ''['' \<notin> set secret \<and> CHR '']'' \<notin> set secret
     \<and> \<not> Contains redacted secret"

lemma replaced_prefix:
  "HasPrefix (ReplaceAll s old redacted) t \<Longrightarrow> CHR ''['' \<notin> set t \<Longrightarrow> HasPrefix s t"
proof (induction s old redacted arbitrary: t rule: ReplaceAll.induct)
  case (2 c cs old)
  show ?case
  proof (cases "old \<noteq> [] \<and> HasPrefix (c # cs) old")
    case True
    with 2(3,4) have "t = []" by (cases t) (auto simp: redacted_def)
    then show ?thesis by simp
  next
    case False
    with 2 show ?thesis by (cases t) (auto split: if_splits)
  qed
qed simp

lemma hidden: "plain_secret old \<Longrightarrow> \<not> Contains (ReplaceAll s old redacted) old"
proof (induction s old redacted rule: ReplaceAll.induct)
  case (1 old)
  then show ?case by (simp add: plain_secret_def)
next
  case (2 c cs old)
  note plain = 2(3) [unfolded plain_secret_def]
  show ?case
  proof (cases "HasPrefix (c # cs) old")
    case True
    let ?x = "ReplaceAll (drop (length old) (c # cs)) old redacted"
    have x: "\<not> Contains ?x old" using 2(1) True plain 2(3) by auto
    have "\<not> Contains (redacted @ ?x) old"
    proof
      assume "Contains (redacted @ ?x) old"
      then obtain a b where ab: "redacted @ ?x = a @ old @ b" by (auto simp: Contains_iff)
      consider u where "a = redacted @ u" "?x = u @ old @ b" | u where "redacted = a @ u" "u @ ?x = old @ b"
        using ab by (auto simp: append_eq_append_conv2)
      then show False
      proof cases
        case (1 u)
        with x show False by (auto simp: Contains_iff)
      next
        case (2 u)
        show False
        proof (cases "length u \<le> length old")
          case True
          with 2(2) have "set u \<subseteq> set old" by (metis append_eq_append_conv_if set_take_subset)
          moreover have "u = [] \<or> CHR '']'' \<in> set u"
            using 2(1) by (metis append_is_Nil_conv in_set_conv_decomp last_appendR last_in_set redacted_def last.simps list.distinct(1))
          ultimately have "u = []" using plain by auto
          with 2(2) x show False by (auto simp: Contains_iff)
        next
          case False
          then obtain u' where u': "u = old @ u'" using 2(2) by (metis append_eq_append_conv2 append_Nil2 le_add1 length_append)
          then have "redacted = a @ old @ u'" using 2(1) by simp
          then have "Contains redacted old" by (auto simp: Contains_iff)
          with plain show False by blast
        qed
      qed
    qed
    with True plain show ?thesis by simp
  next
    case False
    then have step: "ReplaceAll (c # cs) old redacted = c # ReplaceAll cs old redacted" by simp
    have "\<not> HasPrefix (c # ReplaceAll cs old redacted) old"
      using replaced_prefix [of "c # cs" old old] False plain step by auto
    then show ?thesis using 2(2) False 2(3) step by auto
  qed
qed

lemma redact_strings:
  "s \<in> strings (redactValue U names secret v) \<Longrightarrow> plain_secret secret \<Longrightarrow> \<not> Contains s secret"
proof (induction U names secret v arbitrary: s rule: redactValue.induct)
  case (1 U names secret m)
  then show ?case
    by (fastforce simp: plain_secret_def split: if_splits)
next
  case (3 U names secret str)
  then show ?case using hidden [of secret str] by (simp add: hide_def plain_secret_def)
qed auto

text \<open>
  Redaction removes the secret. In a redacted document no string value contains the secret, at
  any depth, and every member whose name is sensitive or configured as such reads
  \<^verbatim>\<open>[REDACTED]\<close>. The names of members are kept as they are.
\<close>

theorem redactValue_hides:
  assumes "plain_secret secret"
  shows "(\<forall>s\<in>strings (redactValue U names secret v). \<not> Contains s secret)
    \<and> (\<forall>m k c. redactValue U names secret v = JObj m \<longrightarrow> (k, c) \<in> set m \<longrightarrow> SensitiveHeader U k \<or> k \<in> set names
         \<longrightarrow> c = JStr redacted)"
proof -
  have "c = JStr redacted" if "redactValue U names secret v = JObj m" "(k, c) \<in> set m"
    "SensitiveHeader U k \<or> k \<in> set names" for m k c
    using that by (cases v) auto
  with redact_strings assms show ?thesis by blast
qed

theorem redactValue_hides_witness:
  "plain_secret ''s3cr3t''
   \<and> redactValue ascii_only [''pin''] ''s3cr3t'' (JObj [(''pin'', JNum ''1''), (''msg'', JArr [JStr ''my s3cr3t!''])])
     = JObj [(''pin'', JStr redacted), (''msg'', JArr [JStr ''my [REDACTED]!''])]
   \<and> \<not> Contains ''my [REDACTED]!'' ''s3cr3t''"
proof -
  have "plain_secret ''s3cr3t''" by code_simp
  moreover have eq: "redactValue ascii_only [''pin''] ''s3cr3t'' (JObj [(''pin'', JNum ''1''), (''msg'', JArr [JStr ''my s3cr3t!''])])
     = JObj [(''pin'', JStr redacted), (''msg'', JArr [JStr ''my [REDACTED]!''])]" by code_simp
  moreover have "''my [REDACTED]!'' \<in> strings (JObj [(''pin'', JStr redacted), (''msg'', JArr [JStr ''my [REDACTED]!''])])"
    by simp
  ultimately show ?thesis
    using redactValue_hides [of "''s3cr3t''" ascii_only "[''pin'']" "JObj [(''pin'', JNum ''1''), (''msg'', JArr [JStr ''my s3cr3t!''])]"]
    unfolding eq by blast
qed

text \<open>
  What is kept of a decision after \<^const>\<open>Redact\<close>: no header value and not the reason contains the
  secret; a preview that is not JSON is dropped, one that is stays within the configured size, and a
  report stays within 8192 bytes.
\<close>

theorem Redact_bounds:
  assumes "plain_secret secret" and "\<not> Contains ''redacted_reason'' secret" and "\<And>v. jMarshal L v \<noteq> None"
  shows "(\<forall>h\<in>set (dHeaders (Redact U L d t secret)). \<not> Contains (snd h) secret)
    \<and> \<not> Contains (dReason (Redact U L d t secret)) secret
    \<and> int (length (dPreview (Redact U L d t secret))) \<le> max 0 (tgPreviewBytes t)
    \<and> (jUnmarshal L (dPreview d) = None \<longrightarrow> dPreview (Redact U L d t secret) = [])
    \<and> length (dReport (Redact U L d t secret)) \<le> 8192"
proof (intro conjI impI)
  let ?d = "Redact U L d t secret"
  have ne: "secret \<noteq> []" using assms(1) by (simp add: plain_secret_def)
  show "\<forall>h\<in>set (dHeaders ?d). \<not> Contains (snd h) secret"
    using hidden [OF assms(1)] ne by (auto simp: Redact_def hide_def)
  show "\<not> Contains (dReason ?d) secret"
    using assms(2) ne by (simp add: Redact_def Let_def del: Contains.simps)
  show "int (length (dPreview ?d)) \<le> max 0 (tgPreviewBytes t)"
  proof (cases "jUnmarshal L (dPreview d)")
    case (Some body)
    obtain b where "jMarshal L (redactValue U (tgSensitiveJSON t) secret body) = Some b" using assms(3) by auto
    with Some show ?thesis by (simp add: Redact_def)
  qed (simp add: Redact_def)
  show "jUnmarshal L (dPreview d) = None \<Longrightarrow> dPreview ?d = []" by (simp add: Redact_def)
  show "length (dReport ?d) \<le> 8192" by (auto simp: Redact_def Let_def split: option.splits)
qed

definition ex_json_lib :: json_lib where
  "ex_json_lib = \<lparr>jDecode = (\<lambda>_. None), jUnmarshal = (\<lambda>_. None), jMarshal = (\<lambda>_. Some ''{}'')\<rparr>"

theorem Redact_bounds_witness:
  "dPreview (Redact ascii_only ex_json_lib (ex_decision\<lparr>dPreview := ''plain s3cr3t''\<rparr>) ex_target ''s3cr3t'') = []
   \<and> dHeaders (Redact ascii_only ex_json_lib (ex_decision\<lparr>dHeaders := [(''h'', ''s3cr3t'')]\<rparr>) ex_target ''s3cr3t'')
       = [(''h'', redacted)]"
proof -
  have "plain_secret ''s3cr3t''" "\<not> Contains ''redacted_reason'' ''s3cr3t''" by code_simp+
  with Redact_bounds [of "''s3cr3t''" ex_json_lib ascii_only "ex_decision\<lparr>dPreview := ''plain s3cr3t''\<rparr>" ex_target]
  show ?thesis by (simp add: ex_json_lib_def) (simp add: Redact_def hide_def)
qed

text \<open>Member names are outside redaction: an object that uses the secret as a name keeps it.\<close>

lemma redact_keeps_names: "redactValue U names secret (JObj m) = JObj m' \<Longrightarrow> map fst m' = map fst m"
  by (auto simp: case_prod_unfold comp_def)

end
