(* ===== verification/NetPolicy.thy ===== *)
theory NetPolicy
  imports Validate
begin

text \<open>
  The network policy of \<^verbatim>\<open>internal/target/http.go\<close>: which addresses a delivery may connect to, the
  dialer that enforces it on every connection, and the cache of transports. An IPv4 or IPv6 address
  is its value; the parser of prefixes is a field of the toolkit.
\<close>

section \<open>Addresses\<close>

datatype addr = InvalidAddr | V4 nat | V6 nat string

text \<open>\<^verbatim>\<open>Unmap\<close>: the IPv4 address inside ::ffff:0:0/96.\<close>

definition Unmap :: "addr \<Rightarrow> addr" where
  "Unmap ip = (case ip of V6 a _ \<Rightarrow> if a div 2 ^ 32 = 0xffff then V4 (a mod 2 ^ 32) else ip | _ \<Rightarrow> ip)"

text \<open>A prefix contains an address of its family, without a zone, with the same leading bits.\<close>

definition prefix_Contains :: "prefix \<Rightarrow> addr \<Rightarrow> bool" where
  "prefix_Contains p ip = (case ip of
       InvalidAddr \<Rightarrow> False
     | V4 a \<Rightarrow> pfIs4 p \<and> pfBits p \<le> 32 \<and> a div 2 ^ (32 - pfBits p) = pfAddr p div 2 ^ (32 - pfBits p)
     | V6 a zone \<Rightarrow> \<not> pfIs4 p \<and> zone = [] \<and> pfBits p \<le> 128
         \<and> a div 2 ^ (128 - pfBits p) = pfAddr p div 2 ^ (128 - pfBits p))"

definition IsUnspecified :: "addr \<Rightarrow> bool" where
  "IsUnspecified ip \<longleftrightarrow> ip = V4 0 \<or> ip = V6 0 []"

definition IsMulticast :: "addr \<Rightarrow> bool" where
  "IsMulticast ip = (case ip of InvalidAddr \<Rightarrow> False | V4 a \<Rightarrow> a div 2 ^ 28 = 14 | V6 a _ \<Rightarrow> a div 2 ^ 120 = 0xff)"

definition IsLoopback :: "addr \<Rightarrow> bool" where
  "IsLoopback ip = (case ip of InvalidAddr \<Rightarrow> False | V4 a \<Rightarrow> a div 2 ^ 24 = 127 | V6 a _ \<Rightarrow> a = 1)"

definition IsLinkLocalUnicast :: "addr \<Rightarrow> bool" where
  "IsLinkLocalUnicast ip = (case ip of InvalidAddr \<Rightarrow> False | V4 a \<Rightarrow> a div 2 ^ 16 = 0xa9fe | V6 a _ \<Rightarrow> a div 2 ^ 118 = 0x3fa)"

definition IsPrivate :: "addr \<Rightarrow> bool" where
  "IsPrivate ip = (case ip of InvalidAddr \<Rightarrow> False
     | V4 a \<Rightarrow> a div 2 ^ 24 = 10 \<or> a div 2 ^ 20 = 0xac1 \<or> a div 2 ^ 16 = 0xc0a8
     | V6 a _ \<Rightarrow> a div 2 ^ 121 = 0x7e)"

definition IsGlobalUnicast :: "addr \<Rightarrow> bool" where
  "IsGlobalUnicast ip \<longleftrightarrow> ip \<noteq> InvalidAddr \<and> ip \<noteq> V4 0 \<and> ip \<noteq> V4 0xffffffff \<and> ip \<noteq> V6 0 []
     \<and> \<not> IsLoopback ip \<and> \<not> IsMulticast ip \<and> \<not> IsLinkLocalUnicast ip"

text \<open>
  The reserved blocks: 0.0.0.0/8, 100.64.0.0/10, 192.0.0.0/24, 192.0.2.0/24, 198.18.0.0/15,
  198.51.100.0/24, 203.0.113.0/24, 240.0.0.0/4, 2001:db8::/32, 64:ff9b::/96, 64:ff9b:1::/48,
  2002::/16 and 2001::/32.
\<close>

definition v4_block :: "nat \<Rightarrow> nat \<Rightarrow> nat \<Rightarrow> nat \<Rightarrow> nat \<Rightarrow> prefix" where
  "v4_block a b c d bits = \<lparr>pfIs4 = True, pfAddr = ((a * 256 + b) * 256 + c) * 256 + d, pfBits = bits\<rparr>"

definition v6_block :: "nat \<Rightarrow> nat \<Rightarrow> nat \<Rightarrow> nat \<Rightarrow> prefix" where
  "v6_block g1 g2 g3 bits = \<lparr>pfIs4 = False, pfAddr = (((g1 * 65536 + g2) * 65536 + g3)) * 2 ^ 80, pfBits = bits\<rparr>"

definition reserved :: "prefix list" where
  "reserved = [v4_block 0 0 0 0 8, v4_block 100 64 0 0 10, v4_block 192 0 0 0 24, v4_block 192 0 2 0 24,
     v4_block 198 18 0 0 15, v4_block 198 51 100 0 24, v4_block 203 0 113 0 24, v4_block 240 0 0 0 4,
     v6_block 0x2001 0xdb8 0 32, v6_block 0x64 0xff9b 0 96, v6_block 0x64 0xff9b 1 48, v6_block 0x2002 0 0 16,
     v6_block 0x2001 0 0 32]"

definition allowedIP :: "toolkit \<Rightarrow> addr \<Rightarrow> string list \<Rightarrow> bool" where
  "allowedIP K ip0 cidrs =
     (let ip = Unmap ip0 in
      if ip = InvalidAddr \<or> IsUnspecified ip \<or> IsMulticast ip then False
      else if list_ex (\<lambda>s. case tkParsePrefix K s of None \<Rightarrow> False | Some p \<Rightarrow> prefix_Contains p ip) cidrs then True
      else if \<not> IsGlobalUnicast ip \<or> IsPrivate ip \<or> IsLoopback ip \<or> IsLinkLocalUnicast ip then False
      else \<not> list_ex (\<lambda>p. prefix_Contains p ip) reserved)"

section \<open>The dialer\<close>

definition blocked :: error where
  "blocked = OtherError ''destination blocked by policy''"

text \<open>
  \<open>split\<close> is \<^verbatim>\<open>net.SplitHostPort\<close>, \<open>lookup\<close> the resolver, \<open>connect\<close> the connection attempt; a
  connection is known by the address it was made to.
\<close>

fun dial_each :: "(addr \<Rightarrow> string \<Rightarrow> bool) \<Rightarrow> addr list \<Rightarrow> string \<Rightarrow> error + addr" where
  "dial_each connect [] port = Inl (OtherError ''dial'')"
| "dial_each connect (ip # ips) port =
     (if connect (Unmap ip) port then Inr (Unmap ip) else dial_each connect ips port)"

definition DialContext ::
  "toolkit \<Rightarrow> (string \<Rightarrow> (string \<times> string) option) \<Rightarrow> (string \<Rightarrow> addr list option) \<Rightarrow> (addr \<Rightarrow> string \<Rightarrow> bool) \<Rightarrow>
    Endpoint \<Rightarrow> string \<Rightarrow> error + addr" where
  "DialContext K split lookup connect security address =
     (case split address of
        None \<Rightarrow> Inl (OtherError ''address'')
      | Some (host, port) \<Rightarrow>
          if ToLower (tkUnicode K) host \<notin> set (epHosts security) then Inl blocked
          else case lookup host of
                 None \<Rightarrow> Inl (OtherError ''lookup'')
               | Some ips \<Rightarrow>
                   if ips = [] then Inl (OtherError ''empty DNS answer'')
                   else if list_ex (\<lambda>ip. \<not> allowedIP K ip (epCIDRs security)) ips then Inl blocked
                   else dial_each connect ips port)"

lemma Unmap_idem: "Unmap (Unmap ip) = Unmap ip"
  by (auto simp: Unmap_def split: addr.splits)

lemma allowedIP_Unmap: "allowedIP K (Unmap ip) cidrs = allowedIP K ip cidrs"
  by (simp add: allowedIP_def Unmap_idem)

lemma dial_each_in: "dial_each connect ips port = Inr ip \<Longrightarrow> \<exists>i\<in>set ips. ip = Unmap i \<and> connect ip port"
  by (induction connect ips port rule: dial_each.induct) (auto split: if_splits)

text \<open>
  C36: every connection goes to a permitted address. If the dialer connects, the host is on the
  target's list and the address connected to is one the resolver returned and either lies in a
  prefix the target lists or is a public one: not loopback, private, link-local, multicast, unspecified
  or in a reserved block, also when written as an IPv4-mapped IPv6 address. One bad
  address in the answer refuses the whole answer.
\<close>

theorem DialContext_policy:
  assumes "DialContext K split lookup connect security address = Inr ip"
  shows "\<exists>host port ips. split address = Some (host, port) \<and> ToLower (tkUnicode K) host \<in> set (epHosts security)
    \<and> lookup host = Some ips \<and> ip \<in> Unmap ` set ips \<and> (\<forall>i\<in>set ips. allowedIP K i (epCIDRs security))
    \<and> ((\<exists>s\<in>set (epCIDRs security). \<exists>p. tkParsePrefix K s = Some p \<and> prefix_Contains p ip)
       \<or> IsGlobalUnicast ip \<and> \<not> IsPrivate ip \<and> \<not> IsLoopback ip \<and> \<not> IsLinkLocalUnicast ip
         \<and> (\<forall>p\<in>set reserved. \<not> prefix_Contains p ip))
    \<and> \<not> IsMulticast ip \<and> \<not> IsUnspecified ip"
proof -
  from assms obtain host port ips where
    h: "split address = Some (host, port)" "ToLower (tkUnicode K) host \<in> set (epHosts security)" "lookup host = Some ips"
    and all: "\<forall>i\<in>set ips. allowedIP K i (epCIDRs security)" and dial: "dial_each connect ips port = Inr ip"
    by (auto simp: DialContext_def list_ex_iff split: option.splits prod.splits if_splits)
  from dial_each_in [OF dial] obtain i where i: "i \<in> set ips" "ip = Unmap i" by blast
  have "allowedIP K ip (epCIDRs security)" using all i by (simp add: allowedIP_Unmap)
  moreover have "Unmap ip = ip" by (simp add: i Unmap_idem)
  ultimately show ?thesis
    using h all i
    by (auto simp: allowedIP_def Let_def list_ex_iff split: if_splits option.splits)
qed

definition ex_endpoint :: Endpoint where
  "ex_endpoint = tgEndpoint ex_tool_target"

theorem DialContext_policy_witness:
  "DialContext ex_tool (\<lambda>_. Some (''a'', ''443'')) (\<lambda>_. Some [V4 0x08080808]) (\<lambda>_ _. True) ex_endpoint ''a:443'' = Inr (V4 0x08080808)
   \<and> IsGlobalUnicast (V4 0x08080808)
   \<and> DialContext ex_tool (\<lambda>_. Some (''a'', ''443'')) (\<lambda>_. Some [V4 0x08080808, V6 0xffff7f000001 []]) (\<lambda>_ _. True) ex_endpoint ''a:443''
       = Inl blocked"
proof -
  have low: "ToLower (tkUnicode ex_tool) ''a'' \<in> set (epHosts ex_endpoint)" by code_simp
  have cidr: "epCIDRs ex_endpoint = []" by (simp add: ex_endpoint_def ex_tool_target_def)
  have ok: "allowedIP ex_tool (V4 0x08080808) []"
    by (simp add: allowedIP_def Unmap_def IsUnspecified_def IsMulticast_def IsGlobalUnicast_def IsPrivate_def
        IsLoopback_def IsLinkLocalUnicast_def reserved_def v4_block_def v6_block_def prefix_Contains_def)
  have bad: "\<not> allowedIP ex_tool (V6 0xffff7f000001 []) []"
    by (simp add: allowedIP_def Unmap_def IsUnspecified_def IsMulticast_def IsGlobalUnicast_def IsLoopback_def)
  have run: "DialContext ex_tool (\<lambda>_. Some (''a'', ''443'')) (\<lambda>_. Some [V4 0x08080808]) (\<lambda>_ _. True) ex_endpoint ''a:443''
      = Inr (V4 0x08080808)"
    using low ok by (simp add: DialContext_def cidr Unmap_def)
  have "DialContext ex_tool (\<lambda>_. Some (''a'', ''443'')) (\<lambda>_. Some [V4 0x08080808, V6 0xffff7f000001 []]) (\<lambda>_ _. True) ex_endpoint ''a:443''
      = Inl blocked"
    using low ok bad by (simp add: DialContext_def cidr)
  with DialContext_policy [OF run] run cidr show ?thesis by auto
qed

section \<open>The cache of transports\<close>

text \<open>
  A transport is the pair of endpoints its dialer and timeouts were made from. \<open>key\<close> is the
  JSON text of the pair; \<open>pick\<close> is the entry the random map iteration meets first.
\<close>

type_synonym transport = "Endpoint \<times> Endpoint"

definition evict :: "('k \<times> 'v) list \<Rightarrow> nat \<Rightarrow> ('k \<times> 'v) list" where
  "evict m i = take i m @ drop (i + 1) m"

definition transport ::
  "(Endpoint \<times> Endpoint \<Rightarrow> string) \<Rightarrow> nat \<Rightarrow> Endpoint \<Rightarrow> Endpoint \<Rightarrow> (string \<times> transport) list \<Rightarrow>
    transport \<times> (string \<times> transport) list" where
  "transport key pick behavior security m =
     (let k = key (behavior, security) in
      case map_of m k of
        Some t \<Rightarrow> (t, m)
      | None \<Rightarrow>
          let m1 = (if length m \<ge> 128 then evict m (pick mod length m) else m)
          in ((behavior, security), (k, (behavior, security)) # m1))"

definition cache_ok :: "(Endpoint \<times> Endpoint \<Rightarrow> string) \<Rightarrow> (string \<times> transport) list \<Rightarrow> bool" where
  "cache_ok key m \<longleftrightarrow> length m \<le> 128 \<and> distinct (map fst m) \<and> (\<forall>(k, t)\<in>set m. k = key t)"

lemma evict_facts:
  "i < length m \<Longrightarrow> length (evict m i) = length m - 1"
  "set (evict m i) \<subseteq> set m" "distinct (map fst m) \<Longrightarrow> distinct (map fst (evict m i))"
proof -
  show "i < length m \<Longrightarrow> length (evict m i) = length m - 1" by (simp add: evict_def)
  show "set (evict m i) \<subseteq> set m" using set_take_subset [of i m] set_drop_subset [of "i + 1" m] by (auto simp: evict_def)
  assume d: "distinct (map fst m)"
  have "set (take i (map fst m)) \<inter> set (drop (i + 1) (map fst m)) = {}"
    using d by (intro set_take_disj_set_drop_if_distinct) auto
  moreover have "distinct (take i (map fst m))" "distinct (drop (i + 1) (map fst m))" using d by simp_all
  ultimately show "distinct (map fst (evict m i))" by (simp add: evict_def take_map drop_map)
qed

text \<open>
  The cache never holds more than 128 transports and never mixes policies up: unless the JSON
  texts of two different pairs coincide, what it returns was made from exactly the endpoints asked
  for, so a change of the security endpoint takes effect with the next delivery.
\<close>

theorem transport_exact:
  assumes "cache_ok key m" and "\<And>x. x \<in> snd ` set m \<Longrightarrow> key x = key (behavior, security) \<Longrightarrow> x = (behavior, security)"
    and "transport key pick behavior security m = (t, m')"
  shows "t = (behavior, security) \<and> cache_ok key m'"
proof (cases "map_of m (key (behavior, security))")
  case (Some x)
  then have "(key (behavior, security), x) \<in> set m" by (rule map_of_SomeD)
  with assms(1) have "key (behavior, security) = key x" by (auto simp: cache_ok_def)
  then have "x = (behavior, security)"
    using assms(2) [of x] \<open>(key (behavior, security), x) \<in> set m\<close> by force
  with Some assms show ?thesis by (simp add: transport_def Let_def)
next
  case None
  let ?m = "if length m \<ge> 128 then evict m (pick mod length m) else m"
  have t: "t = (behavior, security)" "m' = (key (behavior, security), (behavior, security)) # ?m"
    using assms(3) None by (auto simp: transport_def Let_def)
  have sub: "set ?m \<subseteq> set m" using evict_facts(2) by auto
  have len: "length ?m \<le> 127"
    using assms(1) evict_facts(1) [of "pick mod length m" m] by (auto simp: cache_ok_def)
  have "distinct (map fst ?m)" using assms(1) evict_facts(3) by (auto simp: cache_ok_def)
  moreover have "key (behavior, security) \<notin> fst ` set ?m" using None sub by (auto simp: map_of_eq_None_iff)
  ultimately show ?thesis using assms(1) sub len t by (auto simp: cache_ok_def)
qed

theorem transport_exact_witness:
  "transport (\<lambda>(b, s). epBaseURL s) 0 ex_endpoint ex_endpoint [] = ((ex_endpoint, ex_endpoint), [(''https://a'', (ex_endpoint, ex_endpoint))])
   \<and> cache_ok (\<lambda>(b, s). epBaseURL s) [(''https://a'', (ex_endpoint, ex_endpoint))]"
proof -
  have t: "transport (\<lambda>(b, s). epBaseURL s) 0 ex_endpoint ex_endpoint [] = ((ex_endpoint, ex_endpoint), [(''https://a'', (ex_endpoint, ex_endpoint))])"
    by (simp add: transport_def ex_endpoint_def ex_tool_target_def)
  from transport_exact [OF _ _ t] t show ?thesis by (simp add: cache_ok_def)
qed

end
