(* ===== verification/Deliver.thy ===== *)
theory Deliver
  imports Payload NetPolicy HttpText
begin

text \<open>
  \<^verbatim>\<open>HTTP.Deliver\<close> of \<^verbatim>\<open>internal/target/http.go\<close>: the request a notification becomes, and the
  decision its outcome becomes. The HTTP client is the argument \<open>exchange\<close>, a function of the
  transport and the request; the URL keeps its query as a map, the text form being the client's.
\<close>

section \<open>The request\<close>

record http_request =
  hqMethod :: string
  hqScheme :: string
  hqHost :: string
  hqPath :: string
  hqQuery :: "(string \<times> string) list"
  hqHeaders :: "(string \<times> string) list"
  hqBody :: string

text \<open>\<^verbatim>\<open>Header.Set\<close>.\<close>

definition header_set :: "string \<Rightarrow> string \<Rightarrow> (string \<times> string) list \<Rightarrow> (string \<times> string) list" where
  "header_set k v hs = map_put (CanonicalHeaderKey k) v hs"

fun copy_headers :: "unicode \<Rightarrow> string \<Rightarrow> (string \<times> string) list \<Rightarrow> (string \<times> string) list \<Rightarrow> (string \<times> string) list option" where
  "copy_headers U auth [] headers = Some headers"
| "copy_headers U auth ((k, v) # hs) headers =
     (if ForbiddenTransportHeader U k \<or> SensitiveHeader U k \<or> EqualFold U k auth then None
      else copy_headers U auth hs (header_set k v headers))"

text \<open>The loop over the injections, on the headers, the query and the body.\<close>

fun inject :: "json_lib \<Rightarrow> string \<Rightarrow> Injection list \<Rightarrow> (string \<times> string) list \<times> (string \<times> string) list \<times> string \<Rightarrow>
    ((string \<times> string) list \<times> (string \<times> string) list \<times> string) option" where
  "inject L key [] st = Some st"
| "inject L key (ij # ijs) (headers, query, body) =
     (if ijLocation ij = ''header'' then inject L key ijs (header_set (ijKey ij) key headers, query, body)
      else if ijLocation ij = ''query'' then inject L key ijs (headers, map_put (ijKey ij) key query, body)
      else if ijLocation ij = ''body_json'' then
        (case injectJSON L body (ijPointer ij) key of
           Inl _ \<Rightarrow> None
         | Inr body' \<Rightarrow> inject L key ijs (header_set ''Content-Type'' ''application/json'' headers, query, body'))
      else inject L key ijs (headers, query, body))"

definition body_bytes :: "Request \<Rightarrow> string option" where
  "body_bytes r = (if rBodyEncoding r = ''base64'' then b64_decode (rBody r) else Some (rBody r))"

text \<open>
  Everything before the exchange; \<^const>\<open>Inl\<close> is the reason of a failure without one. \<open>buildable\<close> is
  whether \<^verbatim>\<open>http.NewRequestWithContext\<close> accepts the parts.
\<close>

definition prepare ::
  "toolkit \<Rightarrow> json_lib \<Rightarrow> bool \<Rightarrow> string \<Rightarrow> Notification \<Rightarrow> Target \<Rightarrow> Target \<Rightarrow> string \<Rightarrow> string + http_request" where
  "prepare K L buildable reqid n t current secret =
     (let U = tkUnicode K; r = nRequest n in
      if \<not> tgEnabled current \<or> rMethod r \<notin> set (epMethods (tgEndpoint current))
         \<or> \<not> PathAllowed (epPrefixes (tgEndpoint current)) (rPath r) \<or> ValidatePath (rPath r) \<noteq> None
      then Inl ''target_policy_blocked''
      else case tkParseURL K (epBaseURL (tgEndpoint t)) of
        None \<Rightarrow> Inl ''invalid_target''
      | Some u \<Rightarrow>
          (case tkParseURL K (epBaseURL (tgEndpoint current)) of
             None \<Rightarrow> Inl ''target_origin_changed''
           | Some latest \<Rightarrow>
               if uScheme u \<noteq> uScheme latest \<or> uHost u \<noteq> uHost latest then Inl ''target_origin_changed''
               else case body_bytes r of
                 None \<Rightarrow> Inl ''invalid_body''
               | Some body \<Rightarrow>
                   (case copy_headers U (auHeader (tgAuth current)) (rHeaders r) [] of
                      None \<Rightarrow> Inl ''invalid_header''
                    | Some headers \<Rightarrow>
                        (case (if idMode (tgIdempotency t) = ''supported''
                               then inject L (nKey n) (idInject (tgIdempotency t)) (headers, rQuery r, body)
                               else Some (headers, rQuery r, body)) of
                           None \<Rightarrow> Inl ''idempotency_injection_failed''
                         | Some (headers1, query, body1) \<Rightarrow>
                             if \<not> buildable then Inl ''request_build_failed''
                             else let headers2 = header_set ''User-Agent'' ''notifier/1''
                                        (header_set ''X-Request-ID'' reqid
                                          (header_set ''X-Notification-ID'' (ID_String (nID n)) headers1))
                               in if auType (tgAuth current) = ''static_header'' \<and> secret = []
                                  then Inl ''secret_unavailable''
                                  else Inr \<lparr>hqMethod = rMethod r, hqScheme = uScheme u, hqHost = uHost u,
                                         hqPath = rPath r, hqQuery = query,
                                         hqHeaders = (if auType (tgAuth current) = ''static_header''
                                            then header_set (auHeader (tgAuth current)) secret headers2 else headers2),
                                         hqBody = body1\<rparr>))))"

section \<open>The outcome\<close>

text \<open>What \<^verbatim>\<open>errors.Is\<close> and \<^verbatim>\<open>errors.As\<close> find in an error of the client.\<close>

record http_error =
  heBlocked :: bool
  heCanceled :: bool
  heEOF :: bool
  heReset :: bool
  heRefused :: bool
  hePipe :: bool
  heTimeout :: bool
  heTemporary :: bool

text \<open>A response: its body, and after how many bytes reading it fails, if it does.\<close>

record http_response =
  hrStatus :: int
  hrHeader :: "string \<Rightarrow> string"
  hrBody :: string
  hrBreaks :: "nat option"

type_synonym exchange = "transport \<Rightarrow> http_request \<Rightarrow> http_error + http_response"

definition zero_Decision :: Decision where
  "zero_Decision = \<lparr>dAction = [], dReason = [], dHTTPStatus = 0, dHeaders = [], dPreview = [], dBodyHash = [],
     dReport = [], dRetryAfter = [], dUncertain = False, dStarted = 0, dLatency = 0\<rparr>"

definition retryable :: "http_error \<Rightarrow> bool" where
  "retryable e \<longleftrightarrow> heCanceled e \<or> heEOF e \<or> heReset e \<or> heRefused e \<or> hePipe e \<or> heTimeout e \<or> heTemporary e"

definition status_action :: "int \<Rightarrow> string" where
  "status_action c =
     (if c \<ge> 200 \<and> c < 300 then ''success''
      else if c = 408 \<or> c = 429 \<or> (c \<ge> 500 \<and> c < 600) then ''retry'' else ''fail'')"

definition outcome :: "(string \<Rightarrow> byte list) \<Rightarrow> Target \<Rightarrow> http_error + http_response \<Rightarrow> Decision \<Rightarrow> Decision" where
  "outcome sha256 t res d =
     (case res of
        Inl e \<Rightarrow>
          if heBlocked e then d\<lparr>dReason := ''destination_blocked''\<rparr>
          else if retryable e then d\<lparr>dAction := ''retry'', dUncertain := True, dReason := ''network_error''\<rparr>
          else d\<lparr>dReason := ''permanent_transport_error''\<rparr>
      | Inr r \<Rightarrow>
          let limit = epMaxResponse (tgEndpoint t);
              d1 = d\<lparr>dHTTPStatus := hrStatus r, dRetryAfter := hrHeader r ''Retry-After'',
                     dHeaders := filter (\<lambda>(_, v). v \<noteq> []) (map (\<lambda>k. (k, hrHeader r k)) [''Content-Type'', ''Retry-After''])\<rparr>;
              raw = take (nat (limit + 1)) (hrBody r)
          in if (case hrBreaks r of None \<Rightarrow> False | Some k \<Rightarrow> k < nat (limit + 1))
             then d1\<lparr>dAction := ''retry'', dUncertain := True, dReason := ''response_read_error''\<rparr>
             else if int (length raw) > limit then d1\<lparr>dReason := ''response_too_large''\<rparr>
             else d1\<lparr>dBodyHash := sha256 raw, dPreview := take (nat (tgPreviewBytes t)) raw,
                     dAction := status_action (hrStatus r), dReason := ''http_'' @ Itoa (hrStatus r)\<rparr>)"

definition Deliver ::
  "toolkit \<Rightarrow> json_lib \<Rightarrow> (string \<Rightarrow> byte list) \<Rightarrow> (Endpoint \<times> Endpoint \<Rightarrow> string) \<Rightarrow> nat \<Rightarrow> bool \<Rightarrow> string \<Rightarrow> exchange \<Rightarrow>
    gotime \<Rightarrow> gotime \<Rightarrow> Notification \<Rightarrow> Target \<Rightarrow> Target \<Rightarrow> string \<Rightarrow> (string \<times> transport) list \<Rightarrow>
    Decision \<times> (string \<times> transport) list" where
  "Deliver K L sha256 key pick buildable reqid exchange started ended n t current secret m =
     (let d = zero_Decision\<lparr>dAction := ''fail'', dStarted := started\<rparr>;
          latency = time_sub ended started
      in case prepare K L buildable reqid n t current secret of
           Inl reason \<Rightarrow> (d\<lparr>dReason := reason, dLatency := latency\<rparr>, m)
         | Inr req \<Rightarrow>
             (case transport key pick (tgEndpoint t) (tgEndpoint current) m of
                (tr, m') \<Rightarrow> ((outcome sha256 t (exchange tr req) d)\<lparr>dLatency := latency\<rparr>, m')))"

section \<open>What is sent\<close>

lemma header_set_get: "map_of (header_set k v hs) k' = (if k' = CanonicalHeaderKey k then Some v else map_of hs k')"
  by (simp add: header_set_def)

lemma inject_header:
  "inject L key ijs (hs, qs, b) = Some (hs', qs', b') \<Longrightarrow> c \<noteq> ''Content-Type'' \<Longrightarrow>
    map_of hs c = Some key \<or> (\<exists>ij\<in>set ijs. ijLocation ij = ''header'' \<and> CanonicalHeaderKey (ijKey ij) = c) \<Longrightarrow>
    map_of hs' c = Some key"
proof (induction L key ijs "(hs, qs, b)" arbitrary: hs qs b rule: inject.induct)
  case (2 L key ij ijs headers query body)
  have ct: "CanonicalHeaderKey ''Content-Type'' = ''Content-Type''" by code_simp
  show ?case
    using 2 ct by (auto simp: header_set_get split: if_splits sum.splits)
qed simp


definition ex_exchange :: exchange where
  "ex_exchange tr req = Inr \<lparr>hrStatus = 204, hrHeader = (\<lambda>_. []), hrBody = [], hrBreaks = None\<rparr>"

definition ex_job :: Notification where
  "ex_job = ex_note\<lparr>nKey := ''k'', nRequest := ex_request\<lparr>rPath := ''/v1/a''\<rparr>\<rparr>"

definition ex_req :: http_request where
  "ex_req = \<lparr>hqMethod = ''POST'', hqScheme = ''https'', hqHost = ''a'', hqPath = ''/v1/a'', hqQuery = [],
     hqHeaders = [(''X-Id'', ''k''), (CanonicalHeaderKey ''X-Notification-ID'', ID_String (nID ex_note)),
       (CanonicalHeaderKey ''X-Request-ID'', ''q''), (''User-Agent'', ''notifier/1'')], hqBody = []\<rparr>"

lemma ex_prepare: "prepare ex_tool ex_json_lib True ''q'' ex_job ex_tool_target ex_tool_target [] = Inr ex_req"
proof -
  have v: "ValidatePath ''/v1/a'' = None" by code_simp
  have c: "CanonicalHeaderKey ''X-Id'' = ''X-Id''" "CanonicalHeaderKey ''User-Agent'' = ''User-Agent''"
    "CanonicalHeaderKey ''X-Notification-ID'' = ''X-Notification-Id''" "CanonicalHeaderKey ''X-Request-ID'' = ''X-Request-Id''"
    by code_simp+
  show ?thesis
    by (simp add: prepare_def v c header_set_def ex_job_def ex_note_def ex_request_def ex_tool_target_def ex_tool_def
        ex_url_def ex_req_def body_bytes_def zero_Target_def PathAllowed_def)
qed


section \<open>What is decided\<close>

text \<open>
  A decision says what happened. Success means the target answered the request with a 2xx status
  and a complete body within the limit, whose hash is recorded; a result is called uncertain only
  with a retry after the request was handed to the client; and whatever was refused before
  that is a definite failure.
\<close>

theorem Deliver_truthful:
  assumes "Deliver K L sha key pick buildable reqid exchange started ended n t current secret m = (d, m')"
    and "0 < epMaxResponse (tgEndpoint t)"
  shows "dAction d \<in> {''success'', ''retry'', ''fail''}
    \<and> (dAction d = ''success'' \<longrightarrow> (\<exists>req tr r. prepare K L buildable reqid n t current secret = Inr req
         \<and> exchange tr req = Inr r \<and> 200 \<le> hrStatus r \<and> hrStatus r < 300 \<and> dHTTPStatus d = hrStatus r
         \<and> int (length (hrBody r)) \<le> epMaxResponse (tgEndpoint t) \<and> dBodyHash d = sha (hrBody r)))
    \<and> (dUncertain d \<longrightarrow> dAction d = ''retry'' \<and> (\<exists>req. prepare K L buildable reqid n t current secret = Inr req))
    \<and> (\<forall>reason. prepare K L buildable reqid n t current secret = Inl reason \<longrightarrow>
         dAction d = ''fail'' \<and> dReason d = reason \<and> m' = m)"
proof (cases "prepare K L buildable reqid n t current secret")
  case (Inl reason)
  then show ?thesis using assms(1) by (auto simp: Deliver_def zero_Decision_def)
next
  case (Inr req)
  obtain tr where tr: "transport key pick (tgEndpoint t) (tgEndpoint current) m = (tr, m')"
    using assms(1) Inr by (auto simp: Deliver_def split: prod.splits)
  have d: "d = (outcome sha t (exchange tr req) (zero_Decision\<lparr>dAction := ''fail'', dStarted := started\<rparr>))
      \<lparr>dLatency := time_sub ended started\<rparr>"
    using assms(1) Inr tr by (simp add: Deliver_def)
  show ?thesis
  proof (cases "exchange tr req")
    case (Inl e)
    then show ?thesis unfolding d using Inr by (simp add: outcome_def zero_Decision_def)
  next
    case r: (Inr r)
    obtain ep1 ep2 where tr': "tr = (ep1, ep2)" by (cases tr)
    show ?thesis
    proof (cases "int (length (hrBody r)) \<le> epMaxResponse (tgEndpoint t)")
      case True
      then have raw: "take (nat (epMaxResponse (tgEndpoint t) + 1)) (hrBody r) = hrBody r" by simp
      from True r Inr show ?thesis unfolding d
        by (auto simp: outcome_def zero_Decision_def Let_def status_action_def raw tr' split: if_splits)
    next
      case False
      then have "int (length (take (nat (epMaxResponse (tgEndpoint t) + 1)) (hrBody r))) > epMaxResponse (tgEndpoint t)"
        using assms(2) by simp
      with r Inr show ?thesis unfolding d
        by (auto simp: outcome_def zero_Decision_def Let_def split: if_splits)
    qed
  qed
qed

theorem Deliver_truthful_witness:
  "dAction (fst (Deliver ex_tool ex_json_lib (\<lambda>_. replicate 32 0) (\<lambda>_. ''k'') 0 True ''q'' ex_exchange 0 second ex_job
     ex_tool_target ex_tool_target [] [])) = ''success''"
proof -
  obtain d m' where run: "Deliver ex_tool ex_json_lib (\<lambda>_. replicate 32 0) (\<lambda>_. ''k'') 0 True ''q'' ex_exchange 0 second
      ex_job ex_tool_target ex_tool_target [] [] = (d, m')" by fastforce
  have mx: "epMaxResponse (tgEndpoint ex_tool_target) = 1000" by (simp add: ex_tool_target_def)
  from Deliver_truthful [OF run] have "dAction d \<in> {''success'', ''retry'', ''fail''}" by (simp add: mx)
  moreover have "dAction d = ''success''"
    using run by (auto simp: Deliver_def ex_prepare transport_def ex_exchange_def outcome_def status_action_def
        mx Let_def)
  ultimately show ?thesis using run by simp
qed

end
