(* ===== verification/Hook.thy ===== *)
theory Hook
  imports Payload
begin

text \<open>
  \<^verbatim>\<open>hook.Evaluate\<close> of \<^verbatim>\<open>internal/hook/evaluate.go\<close>: a CEL program of the configuration may
  overrule how a complete response is judged. The compiled program is a function of its variables;
  \<open>late\<close> says that its 20 ms ran out.
\<close>

definition reasonPattern :: "string \<Rightarrow> bool" where
  "reasonPattern s \<longleftrightarrow> s \<noteq> [] \<and> length s \<le> 64 \<and> list_all (\<lambda>c. alnum c \<or> c \<in> set ''_.-'') s"

text \<open>What a program must return, as \<^verbatim>\<open>config.Decode\<close> reads it from JSON without unknown members.\<close>

record hook_output =
  hoAction :: string
  hoReason :: string
  hoReport :: string

definition hook_variables :: "json_lib \<Rightarrow> Notification \<Rightarrow> Decision \<Rightarrow> hook_input" where
  "hook_variables L n d =
     \<lparr>hiStatus = dHTTPStatus d, hiHeaders = dHeaders d, hiBody = dPreview d,
      hiJson = (case jUnmarshal L (dPreview d) of None \<Rightarrow> JNull | Some parsed \<Rightarrow> parsed),
      hiNotification = [(''id'', ID_String (nID n)), (''client_id'', nClient n), (''target_id'', nTarget n)],
      hiAttempt = nAttempts n\<rparr>"

definition hook_invalid :: "Decision \<Rightarrow> Decision" where
  "hook_invalid d = d\<lparr>dAction := ''fail'', dReason := ''hook_evaluation_failed''\<rparr>"

definition apply_output :: "hook_output \<Rightarrow> Decision \<Rightarrow> Decision" where
  "apply_output out d =
     (if hoReason out \<noteq> [] \<and> \<not> reasonPattern (hoReason out) then hook_invalid d
      else if hoAction out \<in> set [''success'', ''retry'', ''fail'']
      then d\<lparr>dAction := hoAction out, dReason := (if hoReason out \<noteq> [] then hoReason out else dReason d),
             dReport := hoReport out\<rparr>
      else if hoAction out = ''report'' then d\<lparr>dReport := hoReport out\<rparr>
      else hook_invalid d)"

definition Evaluate ::
  "json_lib \<Rightarrow> (string \<Rightarrow> (hook_output \<times> string) option) \<Rightarrow> bool \<Rightarrow> Notification \<Rightarrow> Snapshot \<Rightarrow> Decision \<Rightarrow> Decision" where
  "Evaluate L decode late n s d =
     (let t = go_get zero_Target (snTargets s) (nTarget n) in
      case map_of (snPrograms s) (tgHook t) of
        None \<Rightarrow> d
      | Some program \<Rightarrow>
          if length (dBodyHash d) \<noteq> 32 then d
          else case (if late then None else program (hook_variables L n d)) of
            None \<Rightarrow> hook_invalid d
          | Some CelOther \<Rightarrow> hook_invalid d
          | Some (CelMap native) \<Rightarrow>
              (case jMarshal L (JObj native) of
                 None \<Rightarrow> hook_invalid d
               | Some b \<Rightarrow>
                   if length b > 8192 then hook_invalid d
                   else case Decode decode b of
                          Inl _ \<Rightarrow> hook_invalid d
                        | Inr out \<Rightarrow> apply_output out d))"

section \<open>What a hook cannot do\<close>

text \<open>The evidence of a decision: everything but the verdict, its reason and the report.\<close>

definition same_evidence :: "Decision \<Rightarrow> Decision \<Rightarrow> bool" where
  "same_evidence d d' \<longleftrightarrow> dHTTPStatus d' = dHTTPStatus d \<and> dHeaders d' = dHeaders d \<and> dPreview d' = dPreview d
     \<and> dBodyHash d' = dBodyHash d \<and> dRetryAfter d' = dRetryAfter d \<and> dUncertain d' = dUncertain d
     \<and> dStarted d' = dStarted d \<and> dLatency d' = dLatency d"

lemma Evaluate_cases:
  obtains "Evaluate L decode late n s d = d"
  | "Evaluate L decode late n s d = hook_invalid d" "length (dBodyHash d) = 32"
  | native b out where "Evaluate L decode late n s d = apply_output out d" "length (dBodyHash d) = 32"
      "jMarshal L (JObj native) = Some b" "length b \<le> 8192" "Decode decode b = Inr out"
proof (cases "map_of (snPrograms s) (tgHook (go_get zero_Target (snTargets s) (nTarget n)))")
  case None
  then show thesis using that(1) by (simp add: Evaluate_def)
next
  case (Some program)
  show thesis
  proof (cases "length (dBodyHash d) = 32")
    case False
    then show thesis using that(1) Some by (simp add: Evaluate_def)
  next
    case True
    have "Evaluate L decode late n s d = hook_invalid d
      \<or> (\<exists>native b out. Evaluate L decode late n s d = apply_output out d
          \<and> jMarshal L (JObj native) = Some b \<and> length b \<le> 8192 \<and> Decode decode b = Inr out)"
      using True Some by (auto simp: Evaluate_def split: option.split cel_value.split sum.split)
    with that(2,3) True show thesis by blast
  qed
qed

text \<open>
  A hook judges responses and nothing else. Without a complete response, which the 32 bytes of its
  hash stand for, the decision stays as it is, so no hook turns a transport or policy failure into a
  success; with one, the verdict is one of the three the worker knows, the evidence is untouched, a
  new reason is short and plain, the report is bounded, and a program that fails or
  returns nonsense makes the delivery fail.
\<close>

theorem Evaluate_confined:
  assumes "Evaluate L decode late n s d = d'" and "dAction d \<in> {''success'', ''retry'', ''fail''}"
    and report: "\<And>b out rest. decode b = Some (out, rest) \<Longrightarrow> length (hoReport out) \<le> length b"
  shows "(length (dBodyHash d) \<noteq> 32 \<longrightarrow> d' = d) \<and> same_evidence d d'
    \<and> dAction d' \<in> {''success'', ''retry'', ''fail''}
    \<and> (dReason d' = dReason d \<or> reasonPattern (dReason d'))
    \<and> (dReport d' = dReport d \<or> length (dReport d') \<le> 8192)"
proof (cases rule: Evaluate_cases [of L decode late n s d])
  case 1
  then show ?thesis using assms(1,2) by (simp add: same_evidence_def)
next
  case 2
  have "reasonPattern ''hook_evaluation_failed''" by code_simp
  with 2 show ?thesis using assms(1) by (auto simp: same_evidence_def hook_invalid_def)
next
  case (3 native b out)
  have "reasonPattern ''hook_evaluation_failed''" by code_simp
  moreover have "length (hoReport out) \<le> 8192"
    using 3(4,5) report [of b out] by (fastforce simp: Decode_def split: option.splits if_splits)
  moreover have d': "d' = apply_output out d" using 3(1) assms(1) by simp
  ultimately show ?thesis
    using assms(2) 3(2) by (auto simp: d' apply_output_def same_evidence_def hook_invalid_def)
qed

definition ex_hook_snap :: "program \<Rightarrow> Snapshot" where
  "ex_hook_snap p = \<lparr>snRevision = 1, snLoadedAt = 0, snTargets = [(''t'', zero_Target\<lparr>tgHook := ''h''\<rparr>)], snClients = [],
     snRetries = [], snQuotas = [], snHooks = [], snIssuers = [], snPrograms = [(''h'', p)], snKeys = []\<rparr>"

text \<open>A program that answers \<^verbatim>\<open>retry\<close> whenever the body is not empty.\<close>

definition ex_program :: program where
  "ex_program v = Some (CelMap [(''action'', JStr (if hiBody v = [] then ''success'' else ''retry''))])"

definition ex_hook_lib :: json_lib where
  "ex_hook_lib = \<lparr>jDecode = (\<lambda>_. None), jUnmarshal = (\<lambda>_. None),
     jMarshal = (\<lambda>v. case v of JObj [(_, JStr a)] \<Rightarrow> Some a | _ \<Rightarrow> None)\<rparr>"

definition ex_hook_decode :: "string \<Rightarrow> (hook_output \<times> string) option" where
  "ex_hook_decode b = Some (\<lparr>hoAction = b, hoReason = [], hoReport = []\<rparr>, [])"

definition ex_hook_decision :: Decision where
  "ex_hook_decision = \<lparr>dAction = ''success'', dReason = ''http_200'', dHTTPStatus = 200, dHeaders = [], dPreview = ''busy'',
     dBodyHash = replicate 32 1, dReport = [], dRetryAfter = [], dUncertain = False, dStarted = 0, dLatency = 0\<rparr>"

theorem Evaluate_confined_witness:
  "\<exists>d'. Evaluate ex_hook_lib ex_hook_decode False (ex_note) (ex_hook_snap ex_program) ex_hook_decision = d'
     \<and> dAction d' = ''retry'' \<and> same_evidence ex_hook_decision d'"
proof -
  let ?n = "ex_note"
  let ?d = "Evaluate ex_hook_lib ex_hook_decode False ?n (ex_hook_snap ex_program) ex_hook_decision"
  have "dAction ?d = ''retry''"
    by (simp add: Evaluate_def ex_note_def ex_hook_snap_def go_get_def ex_hook_decision_def ex_program_def hook_variables_def
        ex_hook_lib_def ex_hook_decode_def Decode_def apply_output_def)
  with Evaluate_confined [of ex_hook_lib ex_hook_decode False ?n "ex_hook_snap ex_program" ex_hook_decision, OF refl]
  show ?thesis by (simp add: ex_hook_decode_def) (simp add: ex_hook_decision_def)
qed

end
