(* ===== verification/Lock.thy ===== *)
theory Lock
  imports Domain
begin

text \<open>
  The advisory lock of \<^verbatim>\<open>internal/lock/redis.go\<close>: \<^verbatim>\<open>SET NX\<close> with a lifetime of 60 seconds and a
  compare-and-delete script. Times are milliseconds of the Redis clock; a call either answers
  (\<open>None\<close>) or fails, applied or not.
\<close>

section \<open>The lock\<close>

record lock_entry =
  leToken :: string
  leUntil :: int

type_synonym locks = "string \<Rightarrow> lock_entry option"

definition lock_at :: "locks \<Rightarrow> int \<Rightarrow> string \<Rightarrow> lock_entry option" where
  "lock_at s ms k = (case s k of None \<Rightarrow> None | Some v \<Rightarrow> if ms > leUntil v then None else Some v)"

definition SetNX :: "string \<Rightarrow> string \<Rightarrow> int \<Rightarrow> locks \<Rightarrow> bool \<times> locks" where
  "SetNX k token ms s =
     (case lock_at s ms k of
        None \<Rightarrow> (True, s(k \<mapsto> \<lparr>leToken = token, leUntil = ms + 60000\<rparr>))
      | Some _ \<Rightarrow> (False, s))"

definition unlock :: "string \<Rightarrow> string \<Rightarrow> int \<Rightarrow> locks \<Rightarrow> locks" where
  "unlock k token ms s =
     (case lock_at s ms k of None \<Rightarrow> s | Some v \<Rightarrow> if leToken v = token then s(k := None) else s)"

definition lock_key :: "ID \<Rightarrow> string" where
  "lock_key u = ''notify:lock:'' @ ID_String u"

text \<open>The release that a successful acquisition returns: the key and the token it captured.\<close>

type_synonym unlocker = "string \<times> string"

definition lock_error :: error where
  "lock_error = OtherError ''redis''"

definition Lock_Acquire ::
  "bool option \<Rightarrow> int \<Rightarrow> ID \<Rightarrow> ID \<Rightarrow> locks \<Rightarrow> (error + unlocker option) \<times> locks" where
  "Lock_Acquire fault ms fresh u s =
     (let key = lock_key u; token = ID_String fresh; (ok, s') = SetNX key token ms s in
      case fault of
        Some applied \<Rightarrow> (Inl lock_error, if applied then s' else s)
      | None \<Rightarrow> (Inr (if ok then Some (key, token) else None), s'))"

definition Lock_Release :: "bool option \<Rightarrow> int \<Rightarrow> unlocker \<Rightarrow> locks \<Rightarrow> locks" where
  "Lock_Release fault ms rel s =
     (case fault of
        Some False \<Rightarrow> s
      | _ \<Rightarrow> unlock (fst rel) (snd rel) ms s)"

section \<open>Mutual exclusion\<close>

text \<open>What the other processes may do: try the lock, or run a release of their own.\<close>

datatype lock_call = Try "bool option" int ID ID | Give "bool option" int unlocker

fun lock_calls :: "lock_call list \<Rightarrow> locks \<Rightarrow> (error + unlocker option) list \<times> locks" where
  "lock_calls [] s = ([], s)"
| "lock_calls (Try fault ms fresh u # cs) s =
     (case Lock_Acquire fault ms fresh u s of (res, s1) \<Rightarrow>
        (case lock_calls cs s1 of (rs, s2) \<Rightarrow> (res # rs, s2)))"
| "lock_calls (Give fault ms rel # cs) s = lock_calls cs (Lock_Release fault ms rel s)"

definition foreign :: "unlocker \<Rightarrow> int \<Rightarrow> lock_call \<Rightarrow> bool" where
  "foreign rel until c =
     (case c of Try _ ms _ _ \<Rightarrow> ms \<le> until
      | Give _ ms r \<Rightarrow> ms \<le> until \<and> r \<noteq> rel)"

lemma SetNX_held: "s k = Some v \<Longrightarrow> ms \<le> leUntil v \<Longrightarrow> SetNX k token ms s = (False, s)"
  by (simp add: SetNX_def lock_at_def)

lemma SetNX_other: "k \<noteq> k' \<Longrightarrow> snd (SetNX k' token ms s) k = s k"
  by (auto simp: SetNX_def split: option.splits)

lemma SetNX_same: "SetNX k token ms s = (b, s') \<Longrightarrow> b \<Longrightarrow> s' k = Some \<lparr>leToken = token, leUntil = ms + 60000\<rparr>"
  by (auto simp: SetNX_def split: option.splits)

lemma unlock_keeps:
  assumes "s k = Some v" and "(k', token) \<noteq> (k, leToken v)"
  shows "unlock k' token ms s k = Some v"
  using assms by (auto simp: unlock_def lock_at_def split: option.splits if_splits)

lemma Lock_Release_keeps:
  assumes "s k = Some v" and "rel \<noteq> (k, leToken v)"
  shows "Lock_Release fault ms rel s k = Some v"
  using assms unlock_keeps [of s k v "fst rel" "snd rel" ms]
  by (auto simp: Lock_Release_def split: option.splits bool.splits)

lemma Lock_Acquire_keeps:
  assumes "s k = Some v" and "ms \<le> leUntil v"
  shows "snd (Lock_Acquire fault ms fresh u s) k = Some v"
proof (cases "lock_key u = k")
  case True
  then show ?thesis using assms SetNX_held [of s k v ms]
    by (auto simp: Lock_Acquire_def Let_def split: option.splits)
next
  case False
  then show ?thesis using assms SetNX_other [of k "lock_key u"]
    by (auto simp: Lock_Acquire_def Let_def split: option.splits prod.splits)
      (metis snd_conv)+
qed

lemma lock_calls_held:
  assumes "s k = Some v" and "list_all (foreign (k, leToken v) (leUntil v)) cs"
    and "lock_calls cs s = (rs, s')"
  shows "s' k = Some v \<and> (\<forall>ks tok. Inr (Some (ks, tok)) \<in> set rs \<longrightarrow> ks \<noteq> k)"
  using assms
proof (induction cs s arbitrary: rs rule: lock_calls.induct)
  case (2 fault ms fresh u cs s)
  obtain res s1 where acq: "Lock_Acquire fault ms fresh u s = (res, s1)" by fastforce
  obtain rs2 where rest: "lock_calls cs s1 = (rs2, s')" and rs: "rs = res # rs2"
    using 2(4) acq by (auto split: prod.splits)
  have ms: "ms \<le> leUntil v" using 2(3) by (simp add: foreign_def)
  have "s1 k = Some v" using Lock_Acquire_keeps [of s k v ms fault fresh u] 2(2) ms acq by simp
  then have IH: "s' k = Some v \<and> (\<forall>ks tok. Inr (Some (ks, tok)) \<in> set rs2 \<longrightarrow> ks \<noteq> k)"
    using 2(1) [OF acq [symmetric] _ _ rest] 2(3) by simp
  have "ks \<noteq> k" if "res = Inr (Some (ks, tok))" for ks tok
    using acq that SetNX_held [of s k v ms] 2(2) ms
    by (auto simp: Lock_Acquire_def Let_def split: option.splits prod.splits if_splits)
  with IH show ?case unfolding rs by auto
next
  case (3 fault ms rel cs s)
  have "rel \<noteq> (k, leToken v)" using 3(3) by (simp add: foreign_def)
  with Lock_Release_keeps [of s k v rel fault ms] 3 show ?case by simp
qed simp

text \<open>
  The lock excludes. From the moment one process acquires the lock of a notification, for 60
  seconds of the Redis clock no other acquisition of that lock succeeds and the entry stays, whatever
  the other processes try or release, unless the holder's own release runs.
\<close>

theorem lock_excludes:
  assumes "Lock_Acquire fault ms fresh u s = (Inr (Some rel), s')"
    and "list_all (foreign rel (ms + 60000)) cs" and "lock_calls cs s' = (rs, s'')"
  shows "rel = (lock_key u, ID_String fresh) \<and> s'' (lock_key u) \<noteq> None
    \<and> (\<forall>tok. Inr (Some (lock_key u, tok)) \<notin> set rs)"
proof -
  from assms(1) have rel: "rel = (lock_key u, ID_String fresh)"
    and s': "s' (lock_key u) = Some \<lparr>leToken = ID_String fresh, leUntil = ms + 60000\<rparr>"
    by (auto simp: Lock_Acquire_def Let_def split: option.splits prod.splits if_splits dest: SetNX_same)
  from lock_calls_held [of s' "lock_key u", OF s' _ assms(3)] assms(2) rel show ?thesis by auto
qed

theorem lock_excludes_witness:
  "\<exists>s'. Lock_Acquire None 0 (replicate 16 1) (replicate 16 7) (\<lambda>_. None) =
       (Inr (Some (lock_key (replicate 16 7), ID_String (replicate 16 1))), s')
     \<and> Inr (Some (lock_key (replicate 16 7), ID_String (replicate 16 2))) \<notin>
         set (fst (lock_calls [Try None 59000 (replicate 16 2) (replicate 16 7)] s'))"
proof -
  define s' where "s' = snd (Lock_Acquire None 0 (replicate 16 1) (replicate 16 7) (\<lambda>_. None))"
  have acq: "Lock_Acquire None 0 (replicate 16 1) (replicate 16 7) (\<lambda>_. None) =
      (Inr (Some (lock_key (replicate 16 7), ID_String (replicate 16 1))), s')"
    by (simp add: s'_def Lock_Acquire_def SetNX_def lock_at_def Let_def)
  obtain rs s'' where run: "lock_calls [Try None 59000 (replicate 16 2) (replicate 16 7)] s' = (rs, s'')"
    by (cases "lock_calls [Try None 59000 (replicate 16 2) (replicate 16 7)] s'")
  have "list_all (foreign (lock_key (replicate 16 7), ID_String (replicate 16 1)) (0 + 60000))
      [Try None 59000 (replicate 16 2) (replicate 16 7)]" by (simp add: foreign_def)
  from lock_excludes [OF acq this run] acq run show ?thesis by simp
qed

end
