(* ===== verification/Interference.thy ===== *)
theory Interference
  imports Guarantees
begin

text \<open>
  What the parts of the program do to the database between two instants, as a bounded number of calls
  on the store. The goroutines and processes interleave at their store calls, so each of them may
  assume this of all others and has to promise it itself.
\<close>

text \<open>At most \<open>m\<close> calls lead from \<open>d\<close> to \<open>d'\<close>, given that the caller holds the copies \<open>C\<close> of leased rows.\<close>

definition db_via :: "codec \<Rightarrow> Notification set \<Rightarrow> nat \<Rightarrow> db \<Rightarrow> db \<Rightarrow> bool" where
  "db_via J C m d d' \<longleftrightarrow> (\<forall>S. C \<subseteq> S \<longrightarrow> (\<exists>S' i. S \<subseteq> S' \<and> i \<le> m \<and> (store_call J ^^ i) (d, S) (d', S')))"

abbreviation db_path :: "codec \<Rightarrow> nat \<Rightarrow> db \<Rightarrow> db \<Rightarrow> bool" where
  "db_path J \<equiv> db_via J {}"

lemma db_via_refl [simp, intro]: "db_via J C m d d"
  unfolding db_via_def by (metis le0 order_refl relpowp_0_I)

lemma db_via_trans:
  assumes "db_via J C m d d'" and "db_via J C k d' d''"
  shows "db_via J C (m + k) d d''"
  unfolding db_via_def
proof (intro allI impI)
  fix S assume C: "C \<subseteq> S"
  from assms(1) [unfolded db_via_def, rule_format, OF C] obtain S1 i where
    1: "S \<subseteq> S1" "i \<le> m" "(store_call J ^^ i) (d, S) (d', S1)" by blast
  have "C \<subseteq> S1" using C 1(1) by (rule order_trans)
  from assms(2) [unfolded db_via_def, rule_format, OF this] obtain S2 j where
    2: "S1 \<subseteq> S2" "j \<le> k" "(store_call J ^^ j) (d', S1) (d'', S2)" by blast
  have "(store_call J ^^ (i + j)) (d, S) (d'', S2)" using 1(3) 2(3) by (rule relpowp_trans)
  with 1(1,2) 2(1,2) show "\<exists>S' i. S \<subseteq> S' \<and> i \<le> m + k \<and> (store_call J ^^ i) (d, S) (d'', S')"
    by (intro exI [of _ S2] exI [of _ "i + j"]) auto
qed

lemma db_via_mono: "db_via J C m d d' \<Longrightarrow> m \<le> k \<Longrightarrow> db_via J C k d d'"
  unfolding db_via_def by (meson order_trans)

lemma db_path_via: "db_path J m d d' \<Longrightarrow> db_via J C m d d'"
  by (simp add: db_via_def)

lemma db_via_call: "(\<And>S. C \<subseteq> S \<Longrightarrow> store_call J (d, S) (d', S)) \<Longrightarrow> db_via J C 1 d d'"
  unfolding db_via_def by (metis order_refl relpowp_1)

text \<open>A call that hands out copies, and a path that may use them.\<close>

lemma db_path_listed:
  assumes "\<And>S. store_call J (d, S) (d1, S \<union> C)" and "db_via J C m d1 d2"
  shows "db_path J (m + 1) d d2"
  unfolding db_via_def
proof (intro allI impI)
  fix S
  from assms(2) obtain S1 i where 1: "S \<union> C \<subseteq> S1" "i \<le> m" "(store_call J ^^ i) (d1, S \<union> C) (d2, S1)"
    unfolding db_via_def by (meson Un_upper2)
  from assms(1) [of S] 1(3) have "(store_call J ^^ Suc i) (d, S) (d2, S1)" by (rule relpowp_Suc_I2)
  with 1 show "\<exists>S' i. S \<subseteq> S' \<and> i \<le> m + 1 \<and> (store_call J ^^ i) (d, S) (d2, S')"
    by (intro exI [of _ S1] exI [of _ "Suc i"]) simp
qed

lemma db_path_claimed:
  assumes "\<And>S. store_call J (d, S) (d1, S \<union> set ns)" and "db_path J m d1 d2"
    and "\<And>S. set ns \<subseteq> S \<Longrightarrow> store_call J (d2, S) (d3, S)"
  shows "db_path J (m + 2) d d3"
proof -
  have "db_via J (set ns) (m + 1) d1 d3"
    using db_path_via [OF assms(2)] db_via_call [OF assms(3)] by (rule db_via_trans)
  from db_path_listed [OF assms(1) this] show ?thesis by (rule db_via_mono) simp
qed

lemmas db_path_trans = db_via_trans [where C = "{}"]
lemmas db_path_mono = db_via_mono [where C = "{}"]

lemmas db_path_simple =
  call_batch [THEN db_via_call [where C = "{}"]] call_accept [THEN db_via_call [where C = "{}"]]
  call_defer [THEN db_via_call [where C = "{}"]] call_recover_outbox [THEN db_via_call [where C = "{}"]]
  call_reconcile [THEN db_via_call [where C = "{}"]] call_retry [THEN db_via_call [where C = "{}"]]
  call_claim_outbox [THEN db_via_call [where C = "{}"]] call_published [THEN db_via_call [where C = "{}"]]
  call_release [THEN db_via_call [where C = "{}"]] call_claim_error [THEN db_via_call [where C = "{}"]]

lemma db_path_claim: "Claim J e u g d = (res, d') \<Longrightarrow> db_path J 1 d d'"
proof (cases res)
  case (Inr n)
  assume "Claim J e u g d = (res, d')"
  with Inr have "store_call J (d, S) (d', S \<union> {n})" for S by (simp add: call_claim)
  from db_path_listed [OF this db_via_refl [of J "{n}" 0]] show ?thesis by simp
qed (simp only: db_path_simple)

text \<open>Whatever is on a path from a reachable state is reachable.\<close>

lemma db_path_runs:
  assumes "runs J k (d, S)" and "db_path J m d d'"
  obtains k' S' where "runs J k' (d', S')" "k' \<le> k + m" "S \<subseteq> S'"
proof -
  from assms(2) obtain S' i where "S \<subseteq> S'" "i \<le> m" "(store_call J ^^ i) (d, S) (d', S')"
    unfolding db_via_def by blast
  with that [of "k + i" S'] runs_more [OF assms(1)] show thesis by simp
qed

end
