(* ===== verification/Worker.thy ===== *)
theory Worker
  imports Application Deliver Hook Lock Interference
begin

text \<open>
  \<^verbatim>\<open>Worker.Process\<close> of \<^verbatim>\<open>internal/delivery/worker.go\<close>: one delivery, from the message that names a
  notification and a generation to the stored result. The worker shares the database, the manager,
  the quota, the locks and the transports with the other goroutines and processes: before each
  operation on them \<open>jvMeanwhile\<close> says what these did since the last one.
\<close>

section \<open>State and environment\<close>

record wstate =
  sDb :: db
  sManager :: Manager
  sQuota :: quota_state
  sLocks :: locks
  sTransports :: "(string \<times> transport) list"
  sDelivered :: nat
  sFailed :: nat
  sRetried :: nat

text \<open>The fixed parts: libraries, and which of the optional dependencies the worker was given.\<close>

record deps =
  dpTool :: toolkit
  dpLib :: json_lib
  dpCodec :: codec
  dpSha :: "string \<Rightarrow> byte list"
  dpKey :: "Endpoint \<times> Endpoint \<Rightarrow> string"
  dpHookDecode :: "string \<Rightarrow> (hook_output \<times> string) option"
  dpParseTime :: "string \<Rightarrow> gotime option"
  dpLock :: bool
  dpGate :: bool
  dpDecide :: bool
  dpSchedule :: bool

text \<open>
  What one call meets: the faults of its store calls, the readings of the clock in order, the control
  database, Redis, the HTTP client, and the other goroutines.
\<close>

record job_env =
  jvLoad :: io
  jvClaim :: io
  jvFinish :: io
  jvDefer :: io
  jvNow :: "nat \<Rightarrow> gotime"
  jvControl :: control_db
  jvHistory :: history_env
  jvLock :: "bool option \<times> int \<times> ID"
  jvUnlock :: "bool option \<times> int"
  jvGate :: "bool option \<times> int \<times> ID"
  jvUngate :: "bool option"
  jvBuildable :: bool
  jvReqid :: string
  jvExchange :: exchange
  jvPick :: nat
  jvStarted :: gotime
  jvEnded :: gotime
  jvLate :: bool
  jvMeanwhile :: "nat \<Rightarrow> wstate \<Rightarrow> wstate"

section \<open>After the claim\<close>

text \<open>The delivery proper; beside the decision, the secret that has to be taken out of it.\<close>

definition attempt_delivery ::
  "deps \<Rightarrow> job_env \<Rightarrow> Notification \<Rightarrow> Target \<Rightarrow> Target \<Rightarrow> error option \<Rightarrow> Snapshot \<Rightarrow> wstate \<Rightarrow> Decision \<times> string \<times> wstate" where
  "attempt_delivery D e n t current policyErr historical st =
     (let d = zero_Decision\<lparr>dAction := ''fail'', dReason := ''target_policy_blocked'', dStarted := jvNow e 2\<rparr> in
      if policyErr \<noteq> None then (d, [], st)
      else case (if auType (tgAuth current) = ''static_header'' then Secret (sManager st) (auSecretRef (tgAuth current))
                 else Inr []) of
        Inl _ \<Rightarrow> (d\<lparr>dReason := ''secret_unavailable''\<rparr>, [], st)
      | Inr secret \<Rightarrow>
          if \<not> jvNow e 3 < nDeadline n then (d\<lparr>dReason := ''retry_deadline_exceeded''\<rparr>, secret, st)
          else case Deliver (dpTool D) (dpLib D) (dpSha D) (dpKey D) (jvPick e) (jvBuildable e) (jvReqid e) (jvExchange e)
                      (jvStarted e) (jvEnded e) n t current secret (sTransports st) of
            (d1, m) \<Rightarrow>
              ((if dpDecide D then Evaluate (dpLib D) (dpHookDecode D) (jvLate e) n historical d1 else d1),
               secret, st\<lparr>sTransports := m\<rparr>))"

definition plan_retry :: "deps \<Rightarrow> job_env \<Rightarrow> Notification \<Rightarrow> Target \<Rightarrow> Snapshot \<Rightarrow> Decision \<Rightarrow> (gotime \<times> string) \<times> Decision" where
  "plan_retry D e n t historical d =
     (if dAction d = ''retry'' then
        (if dpSchedule D
         then Schedule (tkUnicode (dpTool D)) (dpParseTime D) (jvNow e 4) n t
                (go_get zero_Retry (snRetries historical) (tgRetryPolicy t)) d
         else ((0, ''dispatch''), d\<lparr>dAction := ''fail'', dReason := ''retry_unavailable''\<rparr>))
      else ((0, ''dispatch''), d))"

definition count_result :: "Decision \<Rightarrow> wstate \<Rightarrow> wstate" where
  "count_result d st =
     (if dAction d = ''success'' then st\<lparr>sDelivered := uint64_inc (sDelivered st)\<rparr>
      else if dAction d = ''retry'' then st\<lparr>sRetried := uint64_inc (sRetried st)\<rparr>
      else st\<lparr>sFailed := uint64_inc (sFailed st)\<rparr>)"

definition settle_result ::
  "deps \<Rightarrow> job_env \<Rightarrow> Notification \<Rightarrow> Target \<Rightarrow> Snapshot \<Rightarrow> Decision \<Rightarrow> string \<Rightarrow> wstate \<Rightarrow> error option \<times> wstate" where
  "settle_result D e n t historical d secret st0 =
     (let d1 = Redact (tkUnicode (dpTool D)) (dpLib D) d t secret;
          ((nxt, route), d2) = plan_retry D e n t historical d1;
          st = jvMeanwhile e 4 st0
      in case Finish (dpCodec D) (jvFinish e) n d2 nxt route (sDb st) of
           (Inl x, db) \<Rightarrow> (if x = ErrState then None else Some x, st\<lparr>sDb := db\<rparr>)
         | (Inr _, db) \<Rightarrow> (None, count_result d2 (st\<lparr>sDb := db\<rparr>)))"

definition run_claimed ::
  "deps \<Rightarrow> job_env \<Rightarrow> ID \<Rightarrow> nat \<Rightarrow> Target \<Rightarrow> Target \<Rightarrow> error option \<Rightarrow> Snapshot \<Rightarrow> wstate \<Rightarrow> error option \<times> wstate" where
  "run_claimed D e u generation t current policyErr historical st0 =
     (let st = jvMeanwhile e 2 st0 in
      case Claim (dpCodec D) (jvClaim e) u generation (sDb st) of
        (Inl x, db) \<Rightarrow> (if x = ErrState then None else Some x, st\<lparr>sDb := db\<rparr>)
      | (Inr n, db) \<Rightarrow>
          (case attempt_delivery D e n t current policyErr historical (jvMeanwhile e 3 (st\<lparr>sDb := db\<rparr>)) of
             (d, secret, st1) \<Rightarrow> settle_result D e n t historical d secret st1))"

section \<open>Lock and gate\<close>

definition through_gate ::
  "deps \<Rightarrow> job_env \<Rightarrow> ID \<Rightarrow> nat \<Rightarrow> Notification \<Rightarrow> Target \<Rightarrow> Target \<Rightarrow> error option \<Rightarrow> Snapshot \<Rightarrow> Snapshot \<Rightarrow>
    wstate \<Rightarrow> error option \<times> wstate" where
  "through_gate D e u generation n t current policyErr historical latest st0 =
     (let st = jvMeanwhile e 1 st0;
          body = run_claimed D e u generation t current policyErr historical
      in if dpGate D \<and> policyErr = None \<and> jvNow e 1 < nDeadline n then
           (case jvGate e of (fault, us, fresh) \<Rightarrow>
              (case Acquire fault us fresh n (go_get zero_Quota (snQuotas latest) (tgQuota current)) (sQuota st) of
                 (Inr (Some rel), q) \<Rightarrow>
                   (case body (st\<lparr>sQuota := q\<rparr>) of
                      (res, st1) \<Rightarrow>
                        let st2 = jvMeanwhile e 5 st1
                        in (res, st2\<lparr>sQuota := snd (Release (jvUngate e) rel False (sQuota st2))\<rparr>))
               | (_, q) \<Rightarrow>
                   let st1 = jvMeanwhile e 2 (st\<lparr>sQuota := q\<rparr>) in
                   (case DeferPending (dpCodec D) (jvDefer e) n (5 * second) (sDb st1) of
                      (Inl x, db) \<Rightarrow> (Some x, st1\<lparr>sDb := db\<rparr>)
                    | (Inr _, db) \<Rightarrow> (None, st1\<lparr>sDb := db\<rparr>))))
         else body st)"

definition under_lock :: "deps \<Rightarrow> job_env \<Rightarrow> ID \<Rightarrow> (wstate \<Rightarrow> error option \<times> wstate) \<Rightarrow> wstate \<Rightarrow> error option \<times> wstate" where
  "under_lock D e u body st =
     (if \<not> dpLock D then body st
      else case jvLock e of (fault, ms, fresh) \<Rightarrow>
        (case Lock_Acquire fault ms fresh u (sLocks st) of
           (Inl _, l) \<Rightarrow> body (st\<lparr>sLocks := l\<rparr>)
         | (Inr None, l) \<Rightarrow> (None, st\<lparr>sLocks := l\<rparr>)
         | (Inr (Some rel), l) \<Rightarrow>
             (case body (st\<lparr>sLocks := l\<rparr>) of
                (res, st1) \<Rightarrow>
                  let st2 = jvMeanwhile e 6 st1
                  in (res, st2\<lparr>sLocks := Lock_Release (fst (jvUnlock e)) (snd (jvUnlock e)) rel (sLocks st2)\<rparr>))))"

definition Process :: "deps \<Rightarrow> job_env \<Rightarrow> ID \<Rightarrow> nat \<Rightarrow> wstate \<Rightarrow> error option \<times> wstate" where
  "Process D e u generation st =
     (case Load (dpCodec D) (jvLoad e) u (sDb st) of
        Inl x \<Rightarrow> (if x = ErrNotFound then None else Some x, st)
      | Inr n \<Rightarrow>
          if nGeneration n \<noteq> generation \<or> nStatus n \<noteq> ''pending'' then (None, st)
          else if jvNow e 0 < nNext n then (None, st)
          else let st1 = jvMeanwhile e 0 st in
            case History (dpTool D) (jvControl e) (jvHistory e) (nConfigRevision n) (sManager st1) of
              (Inl x, m) \<Rightarrow> (Some x, st1\<lparr>sManager := m\<rparr>)
            | (Inr historical, m) \<Rightarrow>
                (case map_of (snTargets historical) (nTarget n) of
                   None \<Rightarrow> (Some (fails ''historical target missing''), st1\<lparr>sManager := m\<rparr>)
                 | Some t \<Rightarrow>
                     (case mCurrent m of
                        None \<Rightarrow> (Some (fails ''configuration unavailable''), st1\<lparr>sManager := m\<rparr>)
                      | Some latest \<Rightarrow>
                          (case Allowed latest (nClient n) (nTarget n) of
                             (current, policyErr) \<Rightarrow>
                               under_lock D e u (through_gate D e u generation n t current policyErr historical latest)
                                 (st1\<lparr>sManager := m\<rparr>)))))"

section \<open>The worker as one of many\<close>

text \<open>What the worker assumes of all others: at most \<open>N\<close> store calls between two of its own operations.\<close>

definition others_ok :: "codec \<Rightarrow> nat \<Rightarrow> job_env \<Rightarrow> bool" where
  "others_ok J N e \<longleftrightarrow> (\<forall>k st. db_path J N (sDb st) (sDb (jvMeanwhile e k st)))"

lemma others_okD: "others_ok J N e \<Longrightarrow> db_path J N (sDb st) (sDb (jvMeanwhile e k st))"
  by (simp add: others_ok_def)

lemma attempt_delivery_keeps:
  "attempt_delivery D e n t current pe h st = (d, secret, st') \<Longrightarrow>
    sDb st' = sDb st \<and> sQuota st' = sQuota st \<and> sLocks st' = sLocks st \<and> sManager st' = sManager st"
  by (auto simp: attempt_delivery_def Let_def split: if_splits sum.splits prod.splits)

lemma count_result_db [simp]: "sDb (count_result d st) = sDb st" "sQuota (count_result d st) = sQuota st"
  by (simp_all add: count_result_def)

lemma settle_result_call:
  assumes "settle_result D e n t h d secret st0 = (res, st')"
  obtains dec nxt route r where "Finish (dpCodec D) (jvFinish e) n dec nxt route (sDb (jvMeanwhile e 4 st0)) = (r, sDb st')"
    "sQuota st' = sQuota (jvMeanwhile e 4 st0)"
  using assms that by (auto simp: settle_result_def Let_def split: prod.splits sum.splits)

lemma run_claimed_path:
  assumes "others_ok (dpCodec D) N e" and "run_claimed D e u g t current pe h st0 = (res, st')"
  shows "db_path (dpCodec D) (3 * N + 2) (sDb st0) (sDb st')"
proof -
  let ?J = "dpCodec D" and ?st = "jvMeanwhile e 2 st0"
  have first: "db_path ?J N (sDb st0) (sDb ?st)" using assms(1) by (rule others_okD)
  obtain r db where claim: "Claim ?J (jvClaim e) u g (sDb ?st) = (r, db)" by fastforce
  have "db_path ?J (N + N + 2) (sDb ?st) (sDb st')"
  proof (cases r)
    case (Inl x)
    then have "sDb st' = db" using assms(2) claim by (auto simp: run_claimed_def Let_def)
    with db_path_claim [OF claim] show ?thesis by (auto intro: db_path_mono)
  next
    case (Inr n)
    obtain d secret st1 where att: "attempt_delivery D e n t current pe h (jvMeanwhile e 3 (?st\<lparr>sDb := db\<rparr>)) = (d, secret, st1)"
      by (rule prod_cases3)
    with assms(2) claim Inr have "settle_result D e n t h d secret st1 = (res, st')"
      by (simp add: run_claimed_def Let_def)
    then obtain dec nxt route r where
      fin: "Finish ?J (jvFinish e) n dec nxt route (sDb (jvMeanwhile e 4 st1)) = (r, sDb st')"
      by (rule settle_result_call)
    have "db_path ?J (N + N) db (sDb (jvMeanwhile e 4 st1))"
      using others_okD [OF assms(1), of "?st\<lparr>sDb := db\<rparr>" 3] others_okD [OF assms(1), of st1 4]
        attempt_delivery_keeps [OF att] by (auto intro: db_path_trans)
    from db_path_claimed [where ns = "[n]", OF _ this] claim Inr fin show ?thesis
      by (auto intro: call_claim call_finish)
  qed
  from db_path_trans [OF first this] show ?thesis by (rule db_path_mono) simp
qed

lemma through_gate_path:
  assumes "others_ok (dpCodec D) N e" and "through_gate D e u g n t current pe h latest st0 = (res, st')"
  shows "db_path (dpCodec D) (5 * N + 2) (sDb st0) (sDb st')"
proof -
  let ?J = "dpCodec D" and ?st = "jvMeanwhile e 1 st0"
  have first: "db_path ?J N (sDb st0) (sDb ?st)" using assms(1) by (rule others_okD)
  have "db_path ?J (4 * N + 2) (sDb ?st) (sDb st')"
  proof (cases "dpGate D \<and> pe = None \<and> jvNow e 1 < nDeadline n")
    case False
    with assms(2) have "run_claimed D e u g t current pe h ?st = (res, st')" by (auto simp: through_gate_def Let_def)
    from run_claimed_path [OF assms(1) this] show ?thesis by (rule db_path_mono) simp
  next
    case True
    obtain fault us fresh where gt: "jvGate e = (fault, us, fresh)" by (rule prod_cases3)
    obtain r q where acq: "Acquire fault us fresh n (go_get zero_Quota (snQuotas latest) (tgQuota current)) (sQuota ?st) = (r, q)"
      by (rule prod.exhaust)
    show ?thesis
    proof (cases "\<exists>rel. r = Inr (Some rel)")
      case rel: True
      then obtain rel where rel: "r = Inr (Some rel)" by blast
      obtain res1 st1 where run: "run_claimed D e u g t current pe h (?st\<lparr>sQuota := q\<rparr>) = (res1, st1)" by fastforce
      have "sDb st' = sDb (jvMeanwhile e 5 st1)"
        using assms(2) True gt acq rel run by (auto simp: through_gate_def Let_def)
      moreover have "db_path ?J (3 * N + 2 + N) (sDb (?st\<lparr>sQuota := q\<rparr>)) (sDb (jvMeanwhile e 5 st1))"
        using run_claimed_path [OF assms(1) run] others_okD [OF assms(1)] by (rule db_path_trans)
      ultimately show ?thesis by (auto intro: db_path_mono)
    next
      case False
      let ?st1 = "jvMeanwhile e 2 (?st\<lparr>sQuota := q\<rparr>)"
      obtain r' db where df: "DeferPending ?J (jvDefer e) n (5 * second) (sDb ?st1) = (r', db)" by fastforce
      have "sDb st' = db"
        using assms(2) True gt acq False df
        by (auto simp: through_gate_def Let_def split: sum.splits option.splits)
      moreover have "db_path ?J N (sDb ?st) (sDb ?st1)"
        using others_okD [OF assms(1), of "?st\<lparr>sQuota := q\<rparr>" 2] by simp
      ultimately have "db_path ?J (N + 1) (sDb ?st) (sDb st')"
        using db_path_simple(3) [OF df] by (metis db_path_trans)
      then show ?thesis by (rule db_path_mono) simp
    qed
  qed
  from db_path_trans [OF first this] show ?thesis by (rule db_path_mono) simp
qed

lemma under_lock_path:
  assumes "others_ok J N e" and "under_lock D e u body st = (res, st')"
    and body: "\<And>s r s'. body s = (r, s') \<Longrightarrow> db_path J m (sDb s) (sDb s')"
  shows "db_path J (m + N) (sDb st) (sDb st')"
proof (cases "dpLock D")
  case False
  with assms(2) have "body st = (res, st')" by (simp add: under_lock_def)
  from body [OF this] show ?thesis by (rule db_path_mono) simp
next
  case True
  obtain fault ms fresh where lk: "jvLock e = (fault, ms, fresh)" by (rule prod_cases3)
  obtain r l where acq: "Lock_Acquire fault ms fresh u (sLocks st) = (r, l)" by (rule prod.exhaust)
  obtain res1 st1 where run: "body (st\<lparr>sLocks := l\<rparr>) = (res1, st1)" by (rule prod.exhaust)
  have "db_path J m (sDb st) (sDb st1)" using body [OF run] by simp
  moreover have "db_path J N (sDb st1) (sDb (jvMeanwhile e 6 st1))" using assms(1) by (rule others_okD)
  moreover have "sDb st' \<in> {sDb st, sDb st1, sDb (jvMeanwhile e 6 st1)}"
    using assms(2) True lk acq run by (auto simp: under_lock_def Let_def split: sum.splits option.splits)
  ultimately show ?thesis by (auto intro: db_path_trans db_path_mono)
qed

lemma Process_path:
  assumes "others_ok (dpCodec D) N e" and "Process D e u g st = (res, st')"
  shows "db_path (dpCodec D) (7 * N + 2) (sDb st) (sDb st')"
proof -
  let ?J = "dpCodec D" and ?st = "jvMeanwhile e 0 st"
  have first: "db_path ?J N (sDb st) (sDb ?st)" using assms(1) by (rule others_okD)
  consider "st' = st" | m where "st' = ?st\<lparr>sManager := m\<rparr>"
    | m n t current pe h latest where
        "under_lock D e u (through_gate D e u g n t current pe h latest) (?st\<lparr>sManager := m\<rparr>) = (res, st')"
    using assms(2) by (auto simp: Process_def Let_def split: sum.splits if_splits prod.splits option.splits)
  then show ?thesis
  proof cases
    case 1
    then show ?thesis by simp
  next
    case 2
    with first show ?thesis by (auto intro: db_path_mono)
  next
    case (3 m n t current pe h latest)
    from under_lock_path [OF assms(1) this through_gate_path [OF assms(1)]]
    have "db_path ?J (5 * N + 2 + N) (sDb ?st) (sDb st')" by simp
    from db_path_trans [OF first this] show ?thesis by (rule db_path_mono) simp
  qed
qed

section \<open>Permits\<close>

text \<open>
  The permits the others took and still hold, by the operation of the worker before which they did:
  whatever is in use, the others only add to it.
\<close>

definition others_take :: "(nat \<Rightarrow> permit multiset) \<Rightarrow> job_env \<Rightarrow> bool" where
  "others_take Q e \<longleftrightarrow> (\<forall>k st ps. lim_ok (fst (sQuota st)) ps \<longrightarrow>
     lim_ok (fst (sQuota (jvMeanwhile e k st))) (ps + Q k))"

lemma others_takeD:
  "others_take Q e \<Longrightarrow> lim_ok (fst (sQuota st)) ps \<Longrightarrow> lim_ok (fst (sQuota (jvMeanwhile e k st))) (ps + Q k)"
  by (simp add: others_take_def)

lemma run_claimed_permits:
  assumes "others_take Q e" and "run_claimed D e u g t current pe h st0 = (res, st')" and "lim_ok (fst (sQuota st0)) ps"
  shows "\<exists>ks. lim_ok (fst (sQuota st')) (ps + sum_list (map Q ks))"
proof -
  let ?st = "jvMeanwhile e 2 st0"
  have ok: "lim_ok (fst (sQuota ?st)) (ps + Q 2)" using assms(1,3) by (rule others_takeD)
  obtain r db where claim: "Claim (dpCodec D) (jvClaim e) u g (sDb ?st) = (r, db)" by (rule prod.exhaust)
  show ?thesis
  proof (cases r)
    case (Inl x)
    then have "sQuota st' = sQuota ?st" using assms(2) claim by (auto simp: run_claimed_def Let_def)
    with ok show ?thesis by (intro exI [of _ "[2]"]) simp
  next
    case (Inr n)
    let ?st3 = "jvMeanwhile e 3 (?st\<lparr>sDb := db\<rparr>)"
    obtain d secret st1 where att: "attempt_delivery D e n t current pe h ?st3 = (d, secret, st1)"
      by (rule prod_cases3)
    with assms(2) claim Inr have "settle_result D e n t h d secret st1 = (res, st')"
      by (simp add: run_claimed_def Let_def)
    then have "sQuota st' = sQuota (jvMeanwhile e 4 st1)" by (elim settle_result_call)
    moreover have "lim_ok (fst (sQuota ?st3)) (ps + Q 2 + Q 3)"
      using others_takeD [OF assms(1), of "?st\<lparr>sDb := db\<rparr>" "ps + Q 2" 3] ok by simp
    then have "lim_ok (fst (sQuota st1)) (ps + Q 2 + Q 3)" using attempt_delivery_keeps [OF att] by simp
    from others_takeD [OF assms(1) this, of 4] have "lim_ok (fst (sQuota (jvMeanwhile e 4 st1))) (ps + Q 2 + Q 3 + Q 4)" .
    ultimately show ?thesis by (intro exI [of _ "[2, 3, 4]"]) (simp add: algebra_simps)
  qed
qed

lemma through_gate_permits:
  assumes "others_take Q e" and "through_gate D e u g n t current pe h latest st0 = (res, st')"
    and "lim_ok (fst (sQuota st0)) ps"
  shows "\<exists>ks. lim_ok (fst (sQuota st')) (ps + sum_list (map Q ks))"
proof -
  let ?st = "jvMeanwhile e 1 st0"
  have ok: "lim_ok (fst (sQuota ?st)) (ps + Q 1)" using assms(1,3) by (rule others_takeD)
  show ?thesis
  proof (cases "dpGate D \<and> pe = None \<and> jvNow e 1 < nDeadline n")
    case False
    with assms(2) have "run_claimed D e u g t current pe h ?st = (res, st')" by (auto simp: through_gate_def Let_def)
    from run_claimed_permits [OF assms(1) this ok] obtain ks where "lim_ok (fst (sQuota st')) (ps + Q 1 + sum_list (map Q ks))"
      by blast
    then show ?thesis by (intro exI [of _ "1 # ks"]) (simp add: algebra_simps)
  next
    case True
    obtain fault us fresh where gt: "jvGate e = (fault, us, fresh)" by (rule prod_cases3)
    obtain r q where acq: "Acquire fault us fresh n (go_get zero_Quota (snQuotas latest) (tgQuota current)) (sQuota ?st) = (r, q)"
      by (rule prod.exhaust)
    show ?thesis
    proof (cases "\<exists>rel. r = Inr (Some rel)")
      case rel: True
      then obtain rel where rel: "r = Inr (Some rel)" by blast
      obtain res1 st1 where run: "run_claimed D e u g t current pe h (?st\<lparr>sQuota := q\<rparr>) = (res1, st1)" by (rule prod.exhaust)
      have "lim_ok (fst q) (add_mset (permit_of rel) (ps + Q 1))"
        using quota_gate.acquired [OF ok, of "(fault, us, fresh, n, go_get zero_Quota (snQuotas latest) (tgQuota current))" rel q]
          acq rel by simp
      then have "lim_ok (fst (sQuota (?st\<lparr>sQuota := q\<rparr>))) (add_mset (permit_of rel) (ps + Q 1))" by simp
      from run_claimed_permits [OF assms(1) run this] obtain ks where
        "lim_ok (fst (sQuota st1)) (add_mset (permit_of rel) (ps + Q 1) + sum_list (map Q ks))" by blast
      from others_takeD [OF assms(1) this, of 5]
      have "lim_ok (fst (sQuota (jvMeanwhile e 5 st1))) (add_mset (permit_of rel) (ps + Q 1 + sum_list (map Q ks) + Q 5))" by simp
      from quota_gate.released [OF this, of "jvUngate e"]
      have "lim_ok (fst (sQuota st')) (ps + Q 1 + sum_list (map Q ks) + Q 5)"
        using assms(2) True gt acq rel run by (auto simp: through_gate_def Let_def)
      then show ?thesis by (intro exI [of _ "1 # 5 # ks"]) (simp add: algebra_simps)
    next
      case False
      let ?st1 = "jvMeanwhile e 2 (?st\<lparr>sQuota := q\<rparr>)"
      have "lim_ok (fst q) (ps + Q 1)"
        using Acquire_ok [OF ok acq] False by (auto split: sum.splits option.splits)
      then have "lim_ok (fst (sQuota ?st1)) (ps + Q 1 + Q 2)"
        using others_takeD [OF assms(1), of "?st\<lparr>sQuota := q\<rparr>"] by simp
      moreover have "sQuota st' = sQuota ?st1"
        using assms(2) True gt acq False
        by (auto simp: through_gate_def Let_def split: sum.splits option.splits prod.splits)
      ultimately show ?thesis by (intro exI [of _ "[1, 2]"]) (simp add: algebra_simps)
    qed
  qed
qed

lemma under_lock_permits:
  assumes "others_take Q e" and "under_lock D e u body st = (res, st')" and "lim_ok (fst (sQuota st)) ps"
    and body: "\<And>s r s'. body s = (r, s') \<Longrightarrow> lim_ok (fst (sQuota s)) ps \<Longrightarrow>
      \<exists>ks. lim_ok (fst (sQuota s')) (ps + sum_list (map Q ks))"
  shows "\<exists>ks. lim_ok (fst (sQuota st')) (ps + sum_list (map Q ks))"
proof (cases "dpLock D")
  case False
  with assms(2) have "body st = (res, st')" by (simp add: under_lock_def)
  from body [OF this assms(3)] show ?thesis .
next
  case True
  obtain fault ms fresh where lk: "jvLock e = (fault, ms, fresh)" by (rule prod_cases3)
  obtain r l where acq: "Lock_Acquire fault ms fresh u (sLocks st) = (r, l)" by (rule prod.exhaust)
  obtain res1 st1 where run: "body (st\<lparr>sLocks := l\<rparr>) = (res1, st1)" by (rule prod.exhaust)
  from body [OF run] assms(3) obtain ks where ks: "lim_ok (fst (sQuota st1)) (ps + sum_list (map Q ks))" by auto
  from others_takeD [OF assms(1) ks, of 6]
  have "lim_ok (fst (sQuota (jvMeanwhile e 6 st1))) (ps + sum_list (map Q (6 # ks)))" by (simp add: algebra_simps)
  moreover have "lim_ok (fst (sQuota st)) (ps + sum_list (map Q []))" using assms(3) by simp
  moreover have "sQuota st' \<in> {sQuota st, sQuota st1, sQuota (jvMeanwhile e 6 st1)}"
    using assms(2) True lk acq run by (auto simp: under_lock_def Let_def split: sum.splits option.splits)
  ultimately show ?thesis using ks by (metis empty_iff insert_iff)
qed

lemma Process_permits_kept:
  assumes "others_take Q e" and "Process D e u g st = (res, st')" and "lim_ok (fst (sQuota st)) ps"
  shows "\<exists>ks. lim_ok (fst (sQuota st')) (ps + sum_list (map Q ks))"
proof -
  let ?st = "jvMeanwhile e 0 st"
  have ok: "lim_ok (fst (sQuota ?st)) (ps + Q 0)" using assms(1,3) by (rule others_takeD)
  consider "st' = st" | m where "st' = ?st\<lparr>sManager := m\<rparr>"
    | m n t current pe h latest where
        "under_lock D e u (through_gate D e u g n t current pe h latest) (?st\<lparr>sManager := m\<rparr>) = (res, st')"
    using assms(2) by (auto simp: Process_def Let_def split: sum.splits if_splits prod.splits option.splits)
  then show ?thesis
  proof cases
    case 1
    with assms(3) show ?thesis by (intro exI [of _ "[]"]) simp
  next
    case 2
    with ok show ?thesis by (intro exI [of _ "[0]"]) simp
  next
    case (3 m n t current pe h latest)
    have "\<exists>ks. lim_ok (fst (sQuota st')) (ps + Q 0 + sum_list (map Q ks))"
      by (rule under_lock_permits [OF assms(1) 3]) (use ok in simp, erule (1) through_gate_permits [OF assms(1)])
    then obtain ks where "lim_ok (fst (sQuota st')) (ps + Q 0 + sum_list (map Q ks))" by blast
    then show ?thesis by (intro exI [of _ "0 # ks"]) (simp add: algebra_simps)
  qed
qed

section \<open>Duplicates\<close>

text \<open>A claim that is refused whatever happened before it: the delivery is not reached.\<close>

lemma run_claimed_refused:
  assumes "\<And>e'. \<exists>x db. Claim (dpCodec D) e' u g (sDb (jvMeanwhile e 2 st0)) = (Inl x, db)"
  shows "run_claimed D (e\<lparr>jvExchange := x\<rparr>) u g t current pe h st0 = run_claimed D e u g t current pe h st0"
  using assms [of "jvClaim e"] by (auto simp: run_claimed_def Let_def)

lemma run_claimed_duplicate:
  assumes "others_ok (dpCodec D) N e" and "runs (dpCodec D) k (sDb st0, S)" and "k + N < 2 ^ 57" and "n \<in> S"
  shows "run_claimed D (e\<lparr>jvExchange := x\<rparr>) (nID n) (nGeneration n) t current pe h st0 =
    run_claimed D e (nID n) (nGeneration n) t current pe h st0"
proof (rule run_claimed_refused)
  fix e'
  from others_okD [OF assms(1)] assms(2) obtain k' S' where
    "runs (dpCodec D) k' (sDb (jvMeanwhile e 2 st0), S')" "k' \<le> k + N" "S \<subseteq> S'"
    by (metis db_path_runs)
  with assms(3,4) claimed_refused [of "dpCodec D" k' _ S' n e']
  show "\<exists>x db. Claim (dpCodec D) e' (nID n) (nGeneration n) (sDb (jvMeanwhile e 2 st0)) = (Inl x, db)" by force
qed

lemma through_gate_duplicate:
  assumes "others_ok (dpCodec D) N e" and "runs (dpCodec D) k (sDb st0, S)" and "k + 2 * N < 2 ^ 57" and "n \<in> S"
  shows "through_gate D (e\<lparr>jvExchange := x\<rparr>) (nID n) (nGeneration n) m t current pe h latest st0 =
    through_gate D e (nID n) (nGeneration n) m t current pe h latest st0"
proof -
  from others_okD [OF assms(1)] assms(2) obtain k' S' where
    r: "runs (dpCodec D) k' (sDb (jvMeanwhile e 1 st0), S')" "k' \<le> k + N" "S \<subseteq> S'"
    by (metis db_path_runs)
  have "run_claimed D (e\<lparr>jvExchange := x\<rparr>) (nID n) (nGeneration n) t current pe h s =
    run_claimed D e (nID n) (nGeneration n) t current pe h s" if "sDb s = sDb (jvMeanwhile e 1 st0)" for s pe
    using run_claimed_duplicate [OF assms(1), of k' s S' n] r assms(3,4) that by auto
  then show ?thesis by (simp add: through_gate_def Let_def split: prod.split sum.split option.split)
qed

text \<open>
  C10: a message that comes twice delivers once. Once a generation was claimed, by whatever process and
  however its delivery ended, a worker that is handed the same generation again does not
  use the HTTP client: what it does and returns is the same for every behaviour of the targets,
  whatever the other processes do meanwhile and whichever calls fail.
\<close>

theorem Process_duplicate_silent:
  assumes "others_ok (dpCodec D) N e" and "runs (dpCodec D) k (sDb st, S)" and "k + 3 * N < 2 ^ 57" and "n \<in> S"
  shows "Process D (e\<lparr>jvExchange := x\<rparr>) (nID n) (nGeneration n) st = Process D e (nID n) (nGeneration n) st"
proof -
  from others_okD [OF assms(1)] assms(2) obtain k' S' where
    r: "runs (dpCodec D) k' (sDb (jvMeanwhile e 0 st), S')" "k' \<le> k + N" "S \<subseteq> S'"
    by (metis db_path_runs)
  have "through_gate D (e\<lparr>jvExchange := x\<rparr>) (nID n) (nGeneration n) m t current pe h latest s =
    through_gate D e (nID n) (nGeneration n) m t current pe h latest s"
    if "sDb s = sDb (jvMeanwhile e 0 st)" for m t current pe h latest s
    using through_gate_duplicate [OF assms(1), of k' s S' n] r assms(3,4) that by auto
  then have "under_lock D (e\<lparr>jvExchange := x\<rparr>) (nID n) (through_gate D (e\<lparr>jvExchange := x\<rparr>) (nID n) (nGeneration n) m t current pe h latest) s =
    under_lock D e (nID n) (through_gate D e (nID n) (nGeneration n) m t current pe h latest) s"
    if "sDb s = sDb (jvMeanwhile e 0 st)" for m t current pe h latest s
    using that by (simp add: under_lock_def Let_def split: prod.split sum.split option.split)
  then show ?thesis by (simp add: Process_def Let_def split: sum.split prod.split option.split)
qed

section \<open>What a success means\<close>

lemma Deliver_response:
  assumes "Deliver K L sha key pick buildable reqid exchange started ended n t current secret m = (d, m')"
    and "0 < epMaxResponse (tgEndpoint t)" and "dAction d = ''success'' \<or> dBodyHash d \<noteq> []"
  obtains req tr r where "prepare K L buildable reqid n t current secret = Inr req" "exchange tr req = Inr r"
    "int (length (hrBody r)) \<le> epMaxResponse (tgEndpoint t)" "dBodyHash d = sha (hrBody r)" "dHTTPStatus d = hrStatus r"
    "dAction d = status_action (hrStatus r)"
proof (cases "prepare K L buildable reqid n t current secret")
  case (Inl reason)
  then show thesis using assms(1,3) by (auto simp: Deliver_def zero_Decision_def)
next
  case (Inr req)
  obtain tr where tr: "transport key pick (tgEndpoint t) (tgEndpoint current) m = (tr, m')"
    and d: "d = (outcome sha t (exchange tr req) (zero_Decision\<lparr>dAction := ''fail'', dStarted := started\<rparr>))\<lparr>dLatency := time_sub ended started\<rparr>"
    using assms(1) Inr by (auto simp: Deliver_def split: prod.splits)
  have "\<exists>r. exchange tr req = Inr r \<and> int (length (hrBody r)) \<le> epMaxResponse (tgEndpoint t)
      \<and> dBodyHash d = sha (hrBody r) \<and> dHTTPStatus d = hrStatus r \<and> dAction d = status_action (hrStatus r)"
  proof (cases "exchange tr req")
    case (Inl e)
    then show ?thesis using assms(3) by (auto simp: d outcome_def zero_Decision_def split: if_splits)
  next
    case (Inr r)
    let ?raw = "take (nat (epMaxResponse (tgEndpoint t) + 1)) (hrBody r)"
    have "int (length ?raw) \<le> epMaxResponse (tgEndpoint t)" and dd: "dBodyHash d = sha ?raw" "dHTTPStatus d = hrStatus r"
      "dAction d = status_action (hrStatus r)"
      using assms(3) Inr by (auto simp: d outcome_def zero_Decision_def Let_def split: if_splits)
    then have short: "int (length (hrBody r)) \<le> epMaxResponse (tgEndpoint t)"
      using assms(2) by (simp add: min_def split: if_splits)
    then have "?raw = hrBody r" by simp
    with Inr short dd show ?thesis by simp
  qed
  with Inr that show thesis by blast
qed


text \<open>
  The worker keeps the rules of the store. Whatever it meets, its own calls together with those the
  others make meanwhile take a reachable state of the database to a reachable one, by at most
  two calls of its own, so every guarantee about reachable states holds while workers run.
\<close>

theorem Process_keeps_store:
  assumes "others_ok (dpCodec D) N e" and "Process D e u g st = (res, st')"
    and "runs (dpCodec D) k (sDb st, S)" and "k + 7 * N + 2 < 2 ^ 57"
  shows "wf_db (sDb st') \<and> (\<exists>k' S'. runs (dpCodec D) k' (sDb st', S') \<and> k' \<le> k + (7 * N + 2) \<and> S \<subseteq> S')"
proof -
  from db_path_runs [OF assms(3) Process_path [OF assms(1,2)]] obtain k' S' where
    r: "runs (dpCodec D) k' (sDb st', S')" "k' \<le> k + (7 * N + 2)" "S \<subseteq> S'" by blast
  then have "wf_db (sDb st')" using runs_good [OF r(1)] assms(4) by (simp add: good_def)
  with r show ?thesis by blast
qed


section \<open>A delivery from beginning to end\<close>

definition ex_open_target :: Target where
  "ex_open_target = ex_tool_target\<lparr>tgEndpoint := (tgEndpoint ex_tool_target)\<lparr>epPrefixes := [''/'']\<rparr>\<rparr>"

definition ex_live_snap :: Snapshot where
  "ex_live_snap = ex_snap\<lparr>snRevision := 1, snTargets := [(''t'', ex_open_target)]\<rparr>"

definition ex_deps :: deps where
  "ex_deps = \<lparr>dpTool = ex_tool, dpLib = ex_json_lib, dpCodec = ex_codec, dpSha = (\<lambda>_. replicate 32 3),
     dpKey = (\<lambda>_. ''k''), dpHookDecode = (\<lambda>_. None), dpParseTime = (\<lambda>_. None), dpLock = True, dpGate = True,
     dpDecide = True, dpSchedule = True\<rparr>"

definition ex_jobs :: job_env where
  "ex_jobs = \<lparr>jvLoad = ex_io (10 * second) 2, jvClaim = ex_io (10 * second) 2, jvFinish = ex_io (20 * second) 3,
     jvDefer = ex_io (20 * second) 3, jvNow = (\<lambda>_. 10 * second), jvControl = \<lparr>cdRevision = None, cdDocument = (\<lambda>_. None)\<rparr>,
     jvHistory = \<lparr>hvFails = True, hvEnv = True, hvNow = 0, hvPick = 0\<rparr>, jvLock = (None, 0, replicate 16 4),
     jvUnlock = (None, 1), jvGate = (None, 0, replicate 16 5), jvUngate = None, jvBuildable = True, jvReqid = ''q'',
     jvExchange = ex_exchange, jvPick = 0, jvStarted = 10 * second, jvEnded = 11 * second, jvLate = False,
     jvMeanwhile = (\<lambda>_ st. st)\<rparr>"

definition ex_wstate :: wstate where
  "ex_wstate = \<lparr>sDb = ex_db1, sManager = NewManager\<lparr>mCurrent := Some ex_live_snap\<rparr>, sQuota = (New 2 2, ex_redis),
     sLocks = (\<lambda>_. None), sTransports = [], sDelivered = 0, sFailed = 0, sRetried = 0\<rparr>"

lemma ex_others: "others_ok J 0 ex_jobs" "others_take (\<lambda>_. {#}) ex_jobs"
  by (simp_all add: others_ok_def others_take_def ex_jobs_def)

lemma ex_others_x: "others_ok J 0 (ex_jobs\<lparr>jvExchange := x\<rparr>)"
  by (simp add: others_ok_def ex_jobs_def)

theorem Process_duplicate_silent_witness:
  "Process ex_deps (ex_jobs\<lparr>jvExchange := \<lambda>_ _. Inl \<lparr>heBlocked = True, heCanceled = False, heEOF = False, heReset = False,
       heRefused = False, hePipe = False, heTimeout = False, heTemporary = False\<rparr>\<rparr>)
     (nID ex_claimed) (nGeneration ex_claimed) (ex_wstate\<lparr>sDb := ex_db2\<rparr>) =
   Process ex_deps ex_jobs (nID ex_claimed) (nGeneration ex_claimed) (ex_wstate\<lparr>sDb := ex_db2\<rparr>)"
proof -
  have "runs (dpCodec ex_deps) 2 (sDb (ex_wstate\<lparr>sDb := ex_db2\<rparr>), {ex_claimed})" using ex_runs2 by (simp add: ex_deps_def)
  from Process_duplicate_silent [OF ex_others(1) this] show ?thesis by simp
qed

lemma ex_path_ok: "ValidatePath ''/a'' = None" by code_simp

lemma ex_header_keys:
  "CanonicalHeaderKey ''X-Id'' = ''X-Id''" "CanonicalHeaderKey ''User-Agent'' = ''User-Agent''"
  "CanonicalHeaderKey ''X-Notification-ID'' = ''X-Notification-Id''" "CanonicalHeaderKey ''X-Request-ID'' = ''X-Request-Id''"
  by code_simp+

definition ex_done :: Decision where
  "ex_done = zero_Decision\<lparr>dAction := ''success'', dReason := ''http_204'', dHTTPStatus := 204, dBodyHash := replicate 32 3,
     dStarted := 10 * second, dLatency := second\<rparr>"

lemma ex_attempt:
  "\<exists>st'. attempt_delivery ex_deps ex_jobs ex_claimed ex_open_target ex_open_target None ex_live_snap st = (ex_done, [], st')
     \<and> sDb st' = sDb st \<and> sQuota st' = sQuota st"
proof -
  have "\<exists>req. prepare ex_tool ex_json_lib True ''q'' ex_claimed ex_open_target ex_open_target [] = Inr req"
    by (simp add: prepare_def ex_path_ok ex_header_keys header_set_def ex_claimed_def Notification_of_def claim_set_def task_of_def
        ex_pending_def ex_note_def ex_request_def ex_open_target_def ex_tool_target_def ex_tool_def ex_url_def body_bytes_def
        zero_Target_def PathAllowed_def)
  then obtain req where req: "prepare ex_tool ex_json_lib True ''q'' ex_claimed ex_open_target ex_open_target [] = Inr req" ..
  have auth: "auType (tgAuth ex_open_target) = ''none''" "epMaxResponse (tgEndpoint ex_open_target) = 1000"
    by (simp_all add: ex_open_target_def ex_tool_target_def)
  have "10 * second < nDeadline ex_claimed"
    by (simp add: ex_claimed_def Notification_of_def claim_set_def task_of_def ex_pending_def ex_note_def go_simps datetime6_def)
  moreover have "Itoa 204 = ''204''" "time_sub (11 * second) (10 * second) = second" by code_simp+
  ultimately show ?thesis
    using req auth by (simp add: attempt_delivery_def ex_deps_def ex_jobs_def Deliver_def transport_def ex_exchange_def outcome_def
        status_action_def Evaluate_def ex_live_snap_def ex_snap_def Let_def ex_done_def zero_Decision_def split: prod.split)
qed


text \<open>The message about the accepted notification: claimed, sent, answered with 204, stored as delivered.\<close>

lemma ex_run_claimed:
  assumes "sDb st = ex_db1"
  shows "\<exists>st'. run_claimed ex_deps ex_jobs (nID ex_note) 1 ex_open_target ex_open_target None ex_live_snap st = (None, st')
    \<and> phase (sDb st') (nID ex_note) = Some (''delivered'', 1) \<and> sQuota st' = sQuota st"
proof -
  have claim: "Claim (dpCodec ex_deps) (jvClaim ex_jobs) (nID ex_note) 1 (sDb st) = (Inr ex_claimed, ex_db2)"
    using ex_Claim assms by (simp add: ex_deps_def ex_jobs_def)
  from ex_attempt [of "st\<lparr>sDb := ex_db2\<rparr>"] obtain st1 where
    att: "attempt_delivery ex_deps ex_jobs ex_claimed ex_open_target ex_open_target None ex_live_snap (st\<lparr>sDb := ex_db2\<rparr>) = (ex_done, [], st1)"
    and st1: "sDb st1 = ex_db2" "sQuota st1 = sQuota st" by auto
  have red: "Redact ascii_only ex_json_lib ex_done ex_open_target [] = ex_done"
    by (simp add: Redact_def ex_done_def ex_json_lib_def zero_Decision_def Let_def)
  have fin: "\<exists>d'. Finish ex_codec (ex_io (20 * second) 3) ex_claimed ex_done 0 ''dispatch'' ex_db2 = (Inr (), d')
      \<and> phase d' (nID ex_note) = Some (''delivered'', 1)"
    by (simp add: phase_def ex_done_def zero_Decision_def ex_finish_defs go_simps)
  then obtain d' where fin: "Finish ex_codec (ex_io (20 * second) 3) ex_claimed ex_done 0 ''dispatch'' ex_db2 = (Inr (), d')"
    "phase d' (nID ex_note) = Some (''delivered'', 1)" by blast
  have now: "jvMeanwhile ex_jobs k s = s" for k s by (simp add: ex_jobs_def)
  have act: "dAction ex_done = ''success''" by (simp add: ex_done_def)
  have "settle_result ex_deps ex_jobs ex_claimed ex_open_target ex_live_snap ex_done [] st1 = (None, count_result ex_done (st1\<lparr>sDb := d'\<rparr>))"
    using red fin(1) st1 act
    by (simp add: settle_result_def plan_retry_def now) (simp add: ex_deps_def ex_tool_def ex_jobs_def)
  with claim att fin(2) st1 show ?thesis by (auto simp: run_claimed_def Let_def now)
qed

lemma ex_gate:
  "\<exists>rel q. Acquire None 0 (replicate 16 5) n (zero_Quota\<lparr>qFailMode := ''closed''\<rparr>) (New 2 2, ex_redis) = (Inr (Some rel), q)"
  by (simp add: Acquire_def Limiter_local_def counter_def New_def run_script_def egressScript_def egress_rate_keys_def
      egress_slot_keys_def zero_Quota_def rate_full_def ex_redis_def slot_prune_def rate_bump_def slot_add_def Let_def)

lemma ex_Process:
  "\<exists>st'. Process ex_deps ex_jobs (nID ex_note) 1 ex_wstate = (None, st') \<and> phase (sDb st') (nID ex_note) = Some (''delivered'', 1)"
proof -
  define n where "n = Notification_of (task_of ex_pending ''r'') ex_request"
  have n: "nGeneration n = 1" "nStatus n = ''pending''" "nNext n = second" "nConfigRevision n = 1" "nTarget n = ''t''"
    "nClient n = ''c''" "nDeadline n = 100 * hour"
    by (simp_all add: n_def Notification_of_def task_of_def ex_pending_def ex_note_def datetime6_def go_simps)
  have load: "Load ex_codec (ex_io (10 * second) 2) (nID ex_note) ex_db1 = Inr n"
    by (simp add: Load_def n_def ex_store_defs go_simps)
  have allowed: "Allowed ex_live_snap ''c'' ''t'' = (ex_open_target, None)" by code_simp
  have quota: "go_get zero_Quota (snQuotas ex_live_snap) (tgQuota ex_open_target) = zero_Quota\<lparr>qFailMode := ''closed''\<rparr>" by code_simp
  have tg: "map_of (snTargets ex_live_snap) ''t'' = Some ex_open_target" "snRevision ex_live_snap = 1"
    by (simp_all add: ex_live_snap_def)
  obtain rel q where acq: "Acquire None 0 (replicate 16 5) n (zero_Quota\<lparr>qFailMode := ''closed''\<rparr>) (New 2 2, ex_redis) = (Inr (Some rel), q)"
    using ex_gate by blast
  define l where "l = snd (Lock_Acquire None 0 (replicate 16 4) (nID ex_note) (\<lambda>_. None))"
  have lock: "Lock_Acquire None 0 (replicate 16 4) (nID ex_note) (\<lambda>_. None) = (Inr (Some (lock_key (nID ex_note), ID_String (replicate 16 4))), l)"
    by (simp add: l_def Lock_Acquire_def SetNX_def lock_at_def Let_def)
  let ?st = "ex_wstate\<lparr>sLocks := l, sQuota := q\<rparr>"
  have "sDb ?st = ex_db1" by (simp add: ex_wstate_def)
  from ex_run_claimed [OF this] obtain st1 where
    run: "run_claimed ex_deps ex_jobs (nID ex_note) 1 ex_open_target ex_open_target None ex_live_snap ?st = (None, st1)"
      "phase (sDb st1) (nID ex_note) = Some (''delivered'', 1)" by blast
  have now: "jvMeanwhile ex_jobs k s = s" for k s by (simp add: ex_jobs_def)
  have e: "jvLoad ex_jobs = ex_io (10 * second) 2" "jvNow ex_jobs k = 10 * second" "jvGate ex_jobs = (None, 0, replicate 16 5)"
    "jvLock ex_jobs = (None, 0, replicate 16 4)" for k by (simp_all add: ex_jobs_def)
  have D: "dpCodec ex_deps = ex_codec" "dpGate ex_deps" "dpLock ex_deps" by (simp_all add: ex_deps_def)
  have hist: "History (dpTool ex_deps) (jvControl ex_jobs) (jvHistory ex_jobs) 1 (sManager ex_wstate) = (Inr ex_live_snap, sManager ex_wstate)"
    by (simp add: History_def history_lookup_def ex_wstate_def tg)
  have st: "ex_wstate\<lparr>sManager := sManager ex_wstate\<rparr> = ex_wstate" "sLocks ex_wstate = (\<lambda>_. None)" "sDb ex_wstate = ex_db1"
    "mCurrent (sManager ex_wstate) = Some ex_live_snap" "sQuota ex_wstate = (New 2 2, ex_redis)"
    by (simp_all add: ex_wstate_def)
  have cond: "10 * second < 100 * hour" "\<not> 10 * second < second" by (simp_all add: go_simps)
  have gate: "through_gate ex_deps ex_jobs (nID ex_note) 1 n ex_open_target ex_open_target None ex_live_snap ex_live_snap (ex_wstate\<lparr>sLocks := l\<rparr>) =
      (None, st1\<lparr>sQuota := snd (Release (jvUngate ex_jobs) rel False (sQuota st1))\<rparr>)"
    using acq run(1) by (simp add: through_gate_def now e D n cond quota st Let_def del: One_nat_def)
  show ?thesis
    using run(2) by (simp add: Process_def load e D st n cond now hist tg allowed under_lock_def lock gate Let_def del: One_nat_def)
qed

theorem Process_keeps_store_witness:
  "\<exists>st'. Process ex_deps ex_jobs (nID ex_note) 1 ex_wstate = (None, st')
     \<and> phase (sDb st') (nID ex_note) = Some (''delivered'', 1) \<and> wf_db (sDb st')"
proof -
  from ex_Process obtain st' where p: "Process ex_deps ex_jobs (nID ex_note) 1 ex_wstate = (None, st')"
    "phase (sDb st') (nID ex_note) = Some (''delivered'', 1)" by blast
  have "runs (dpCodec ex_deps) 1 (sDb ex_wstate, {})" using ex_runs1 by (simp add: ex_deps_def ex_wstate_def)
  from Process_keeps_store [OF ex_others(1) p(1) this] p show ?thesis by simp
qed


end
