(* ===== verification/Tenancy.thy ===== *)
theory Tenancy
  imports Worker
begin

text \<open>
  What a request or a delivery does to the rows of other clients: nothing. The worker's part is proved
  once for any relation between databases that its three store calls respect (locale
  \<open>store_rely\<close>), and used for the rows of other clients and for the contents of notifications.
\<close>

section \<open>The rely\<close>

definition others_keep :: "(db \<Rightarrow> db \<Rightarrow> bool) \<Rightarrow> job_env \<Rightarrow> bool" where
  "others_keep keeps e \<longleftrightarrow> (\<forall>k st. keeps (sDb st) (sDb (jvMeanwhile e k st)))"

lemma others_keepD: "others_keep keeps e \<Longrightarrow> keeps (sDb st) (sDb (jvMeanwhile e k st))"
  by (simp add: others_keep_def)

lemma scan_row: "scan J failed (Some r) = Inr n \<Longrightarrow> nID n = tk_id r \<and> nClient n = tk_client r"
  by (auto simp: scan_def Notification_of_def split: if_splits option.splits)

lemma scan_None [simp]: "scan J failed None \<noteq> Inr n"
  by (simp add: scan_def)

lemma Get_own: "Get J e u client d = Inr n \<Longrightarrow> nID n = u \<and> nClient n = client \<and> u \<in> tk_id ` set (tasks d)"
  unfolding Get_def by (cases "find (\<lambda>r. tk_id r = u \<and> tk_client r = client) (tasks d)") (auto dest!: scan_row simp: find_Some_iff)

lemma Load_ID: "Load J e u d = Inr n \<Longrightarrow> nID n = u"
  unfolding Load_def by (cases "find (\<lambda>r. tk_id r = u) (tasks d)") (auto dest!: scan_row simp: find_Some_iff)

lemma Claim_ID:
  assumes "Claim J e u g d = (Inr n, d')"
  shows "nID n = u"
proof -
  from assms obtain ts failed where "scan J failed (find (\<lambda>r. tk_id r = u) ts) = Inr n"
    by (auto simp: Claim_def commit_def split: sum.splits if_splits)
  then show ?thesis by (cases "find (\<lambda>r. tk_id r = u) ts") (auto dest!: scan_row simp: find_Some_iff)
qed

locale store_rely =
  fixes keeps :: "db \<Rightarrow> db \<Rightarrow> bool" and mine :: "ID \<Rightarrow> db \<Rightarrow> bool"
  assumes keeps_refl: "keeps d d" and keeps_trans: "keeps d d' \<Longrightarrow> keeps d' d'' \<Longrightarrow> keeps d d''"
    and mine_keeps: "mine u d \<Longrightarrow> keeps d d' \<Longrightarrow> mine u d'"
    and keeps_claim: "mine u d \<Longrightarrow> Claim J e u g d = (res, d') \<Longrightarrow> keeps d d'"
    and keeps_finish: "mine (nID n) d \<Longrightarrow> Finish J e n dec nxt route d = (res', d') \<Longrightarrow> keeps d d'"
    and keeps_defer: "mine (nID n) d \<Longrightarrow> DeferPending J e n delay d = (res', d') \<Longrightarrow> keeps d d'"
begin

lemma then_others:
  assumes "others_keep keeps e" and "mine u (sDb st)" and "\<And>st1. st1 = jvMeanwhile e k st \<Longrightarrow> mine u (sDb st1) \<Longrightarrow> keeps (sDb st1) d'"
  shows "keeps (sDb st) d'"
  using keeps_trans [OF others_keepD [OF assms(1)] assms(3)] mine_keeps [OF assms(2) others_keepD [OF assms(1)]] by blast

lemma settle_result_keeps:
  assumes "others_keep keeps e" and "mine (nID n) (sDb st)" and "settle_result D e n t h d secret st = (res, st')"
  shows "keeps (sDb st) (sDb st')"
proof (rule then_others [OF assms(1,2), of 4])
  fix st1 assume "st1 = jvMeanwhile e 4 st" "mine (nID n) (sDb st1)"
  with assms(3) show "keeps (sDb st1) (sDb st')"
    by (auto simp: settle_result_def Let_def intro: keeps_finish split: prod.splits sum.splits)
qed

lemma run_claimed_keeps:
  assumes ok: "others_keep keeps e" and "mine u (sDb st0)" and run: "run_claimed D e u g t c p h st0 = (res, st')"
  shows "keeps (sDb st0) (sDb st')"
proof (rule then_others [OF ok assms(2), of 2])
  fix st assume st: "st = jvMeanwhile e 2 st0" and mine: "mine u (sDb st)"
  obtain r db where cl: "Claim (dpCodec D) (jvClaim e) u g (sDb st) = (r, db)" by (rule prod.exhaust)
  note k1 = keeps_claim [OF mine cl]
  show "keeps (sDb st) (sDb st')"
  proof (cases r)
    case (Inl x)
    with run cl k1 show ?thesis by (auto simp: run_claimed_def Let_def simp flip: st)
  next
    case (Inr n)
    have id: "nID n = u" using Claim_ID [OF cl [unfolded Inr]] .
    obtain d secret st1 where a: "attempt_delivery D e n t c p h (jvMeanwhile e 3 (st\<lparr>sDb := db\<rparr>)) = (d, secret, st1)"
      by (rule prod_cases3)
    then have db1: "sDb st1 = sDb (jvMeanwhile e 3 (st\<lparr>sDb := db\<rparr>))" using attempt_delivery_keeps [OF a] by simp
    have "settle_result D e n t h d secret st1 = (res, st')"
      using run cl Inr a by (simp add: run_claimed_def Let_def flip: st)
    moreover have "keeps db (sDb st1)" using others_keepD [OF ok, of "st\<lparr>sDb := db\<rparr>" 3] by (simp add: db1)
    moreover have "mine u db" using mine_keeps [OF mine k1] .
    moreover from this have "mine (nID n) (sDb st1)" using mine_keeps \<open>keeps db (sDb st1)\<close> id by simp
    ultimately show ?thesis using keeps_trans [OF keeps_trans [OF k1]] settle_result_keeps [OF ok] by simp
  qed
qed

lemma through_gate_keeps:
  assumes ok: "others_keep keeps e" and mine: "mine u (sDb st0)" and id: "nID n = u"
    and run: "through_gate D e u g n t c p h l st0 = (res, st')"
  shows "keeps (sDb st0) (sDb st')"
proof (rule then_others [OF ok mine, of 1])
  fix st assume st: "st = jvMeanwhile e 1 st0" and mine: "mine u (sDb st)"
  obtain fault us fresh where g: "jvGate e = (fault, us, fresh)" by (rule prod_cases3)
  obtain r q where aq: "Acquire fault us fresh n (go_get zero_Quota (snQuotas l) (tgQuota c)) (sQuota st) = (r, q)"
    by (rule prod.exhaust)
  consider (direct) "run_claimed D e u g t c p h st = (res, st')"
    | (gated) st1 where "run_claimed D e u g t c p h (st\<lparr>sQuota := q\<rparr>) = (res, st1)" "sDb st' = sDb (jvMeanwhile e 5 st1)"
    | (deferred) r' where "DeferPending (dpCodec D) (jvDefer e) n (5 * second) (sDb (jvMeanwhile e 2 (st\<lparr>sQuota := q\<rparr>))) = (r', sDb st')"
    using run g aq unfolding through_gate_def Let_def st [symmetric]
    by (auto split: if_splits prod.splits sum.splits option.splits)
  then show "keeps (sDb st) (sDb st')"
  proof cases
    case direct
    then show ?thesis by (rule run_claimed_keeps [OF ok mine])
  next
    case gated
    have "keeps (sDb (st\<lparr>sQuota := q\<rparr>)) (sDb st1)" by (rule run_claimed_keeps [OF ok _ gated(1)]) (simp add: mine)
    then show ?thesis using keeps_trans others_keepD [OF ok, of st1 5] gated(2) by simp
  next
    case deferred
    have "keeps (sDb (st\<lparr>sQuota := q\<rparr>)) (sDb st')"
      by (rule then_others [OF ok, of u _ 2]) (use mine deferred keeps_defer id in \<open>auto\<close>)
    then show ?thesis by simp
  qed
qed

lemma under_lock_keeps:
  assumes ok: "others_keep keeps e" and run: "under_lock D e u body st = (res, st')"
    and body: "\<And>l r s. body (st\<lparr>sLocks := l\<rparr>) = (r, s) \<Longrightarrow> keeps (sDb st) (sDb s)" "\<And>r s. body st = (r, s) \<Longrightarrow> keeps (sDb st) (sDb s)"
  shows "keeps (sDb st) (sDb st')"
proof -
  have *: "keeps (sDb st) (sDb (jvMeanwhile e 6 s))" if "body (st\<lparr>sLocks := l\<rparr>) = (r, s)" for l r s
    by (rule keeps_trans [OF body(1) [OF that] others_keepD [OF ok]])
  show ?thesis
    using run body *
    by (auto simp: under_lock_def Let_def intro: keeps_refl split: if_splits prod.splits sum.splits option.splits)
qed

lemma Process_keeps:
  assumes ok: "others_keep keeps e" and mine: "mine u (sDb st)" and run: "Process D e u g st = (res, st')"
  shows "keeps (sDb st) (sDb st')"
proof (cases "sDb st' = sDb st \<or> sDb st' = sDb (jvMeanwhile e 0 st)")
  case True
  with keeps_refl others_keepD [OF ok, of st 0] show ?thesis by auto
next
  case False
  show ?thesis
  proof (rule then_others [OF ok mine, of 0])
    fix st1 assume st1: "st1 = jvMeanwhile e 0 st" and mine: "mine u (sDb st1)"
    obtain n m t c p h l where n: "nID n = u"
      and body: "under_lock D e u (through_gate D e u g n t c p h l) (st1\<lparr>sManager := m\<rparr>) = (res, st')"
      using run False unfolding Process_def Let_def st1 [symmetric]
      by (auto dest: Load_ID split: if_splits prod.splits sum.splits option.splits)
    have "keeps (sDb (st1\<lparr>sManager := m\<rparr>)) (sDb st')"
      by (rule under_lock_keeps [OF ok body])
        (drule through_gate_keeps [OF ok _ n, rotated]; simp add: mine)+
    then show "keeps (sDb st1) (sDb st')" by simp
  qed
qed

end

section \<open>The rows of other clients\<close>

definition foreign_tasks :: "string \<Rightarrow> db \<Rightarrow> task list" where
  "foreign_tasks client d = filter (\<lambda>r. tk_client r \<noteq> client) (tasks d)"

definition foreign :: "string \<Rightarrow> db \<Rightarrow> task list \<times> attempt list" where
  "foreign client d =
     (foreign_tasks client d, filter (\<lambda>a. at_task a \<in> tk_id ` set (foreign_tasks client d)) (attempts d))"

definition no_foreign :: "string \<Rightarrow> ID \<Rightarrow> db \<Rightarrow> bool" where
  "no_foreign client u d \<longleftrightarrow> u \<notin> tk_id ` set (foreign_tasks client d)"

lemma foreign_cong:
  "tasks d' = tasks d \<Longrightarrow> attempts d' = attempts d \<Longrightarrow> foreign client d' = foreign client d"
  by (simp add: foreign_def foreign_tasks_def)

lemma foreign_commit:
  "commit e k d v d1 = (res, d') \<Longrightarrow> foreign client d1 = foreign client d \<Longrightarrow> foreign client d' = foreign client d"
  by (auto simp: commit_def split: if_splits)

lemma foreign_event:
  assumes "insertEvent J failed eid now ts n route av d = Inr d'"
  shows "foreign client d' = foreign client d"
  using assms by (rule insertEvent_ok) (auto simp: add_event_def intro: foreign_cong)

lemma foreign_event_commit:
  assumes "event_commit J e k c n route av d d1 = (res, d')" and "foreign client d1 = foreign client d"
  shows "foreign client d' = foreign client d"
  using assms foreign_event foreign_commit by (fastforce simp: event_commit_def split: sum.splits)

lemma no_foreign_client: "no_foreign client u d \<Longrightarrow> r \<in> set (tasks d) \<Longrightarrow> tk_id r = u \<Longrightarrow> tk_client r = client"
  by (force simp: no_foreign_def foreign_tasks_def)

lemma update_one_foreign:
  assumes "update_one e P f d = Inr ts"
    and "\<And>r. r \<in> set (tasks d) \<Longrightarrow> P r \<Longrightarrow> tk_client r = client" and "\<And>r. tk_client (f r) = tk_client r"
  shows "filter (\<lambda>r. tk_client r \<noteq> client) ts = foreign_tasks client d"
proof -
  from assms(1) have ts: "ts = map (\<lambda>r. if P r then f r else r) (tasks d)"
    by (auto simp: update_one_def sql_update_def split: if_splits option.splits)
  have "filter (\<lambda>r. tk_client r \<noteq> client) (map (\<lambda>r. if P r then f r else r) rs) = filter (\<lambda>r. tk_client r \<noteq> client) rs"
    if "set rs \<subseteq> set (tasks d)" for rs
    using that by (induction rs) (auto simp: assms(2,3))
  then show ?thesis by (simp add: ts foreign_tasks_def)
qed

lemma update_foreign:
  assumes "update_one e P f d = Inr ts"
    and "\<And>r. r \<in> set (tasks d) \<Longrightarrow> P r \<Longrightarrow> tk_client r = client" and "\<And>r. tk_client (f r) = tk_client r"
  shows "foreign client (d\<lparr>tasks := ts\<rparr>) = foreign client d"
  using update_one_foreign [OF assms] by (simp add: foreign_def foreign_tasks_def)

lemma foreign_attempts_append:
  "no_foreign client (at_task a) d \<Longrightarrow> foreign client (d\<lparr>attempts := attempts d @ [a]\<rparr>) = foreign client d"
  by (simp add: foreign_def foreign_tasks_def no_foreign_def)

lemma foreign_attempts_map:
  assumes "no_foreign client u d" and "\<And>a. P a \<Longrightarrow> at_task a = u" and "\<And>a. at_task (f a) = at_task a"
  shows "foreign client (d\<lparr>attempts := map (\<lambda>a. if P a then f a else a) (attempts d)\<rparr>) = foreign client d"
proof -
  have "filter (\<lambda>a. at_task a \<in> S) (map (\<lambda>a. if P a then f a else a) as) = filter (\<lambda>a. at_task a \<in> S) as"
    if "u \<notin> S" for S as
    using that by (induction as) (auto simp: assms(3) dest: assms(2))
  with assms(1) show ?thesis by (simp add: foreign_def foreign_tasks_def no_foreign_def)
qed

lemma Claim_foreign:
  assumes u: "no_foreign client u d" and run: "Claim J e u g d = (res, d')"
  shows "foreign client d' = foreign client d"
proof (cases "update_one e (claim_where e u g) (claim_set e) d")
  case (Inr ts)
  have ts: "foreign client (d\<lparr>tasks := ts\<rparr>) = foreign client d"
    by (rule update_foreign [OF Inr]) (auto simp: claim_where_def claim_set_def dest: no_foreign_client [OF u])
  then have "no_foreign client u (d\<lparr>tasks := ts\<rparr>)" using u by (simp add: foreign_def no_foreign_def)
  then have "foreign client (d\<lparr>tasks := ts, attempts := attempts d @ [started_attempt e u n]\<rparr>) = foreign client d" for n
    using foreign_attempts_append [of client "started_attempt e u n" "d\<lparr>tasks := ts\<rparr>"] ts
    by (simp add: started_attempt_def)
  with run Inr show ?thesis
    by (auto simp: Claim_def split: sum.splits if_splits intro: foreign_commit)
qed (use run in \<open>simp add: Claim_def\<close>)

lemma Finish_foreign:
  assumes u: "no_foreign client (nID n) d" and run: "Finish J e n dec nxt route d = (res, d')"
  shows "foreign client d' = foreign client d"
proof (cases "update_one e (finish_where e n) (finish_set e n dec nxt) d")
  case (Inr ts)
  have ts: "foreign client (d\<lparr>tasks := ts\<rparr>) = foreign client d"
    by (rule update_foreign [OF Inr]) (auto simp: finish_where_def finish_set_def dest: no_foreign_client [OF u])
  then have u': "no_foreign client (nID n) (d\<lparr>tasks := ts\<rparr>)" using u by (simp add: foreign_def no_foreign_def)
  have "foreign client (d\<lparr>tasks := ts, attempts := map (\<lambda>a. if own_attempt n a then finish_attempt e dec h a else a)
      (attempts d)\<rparr>) = foreign client d" for h
    using foreign_attempts_map [OF u', of "own_attempt n" "finish_attempt e dec h"] ts
    by (simp add: own_attempt_def finish_attempt_def)
  with run Inr show ?thesis
    by (auto simp: Finish_def Let_def split: option.splits if_splits intro: foreign_commit foreign_event_commit)
qed (use run in \<open>simp add: Finish_def\<close>)

lemma DeferPending_foreign:
  assumes u: "no_foreign client (nID n) d" and run: "DeferPending J e n delay d = (res, d')"
  shows "foreign client d' = foreign client d"
proof (cases "update_one e (defer_where n) (defer_set e (io_clock e 0 + delay)) d")
  case (Inr ts)
  have "foreign client (d\<lparr>tasks := ts\<rparr>) = foreign client d"
    by (rule update_foreign [OF Inr]) (auto simp: defer_where_def defer_set_def dest: no_foreign_client [OF u])
  with run Inr show ?thesis by (auto simp: DeferPending_def Let_def intro: foreign_event_commit)
qed (use run in \<open>simp add: DeferPending_def\<close>)

lemma ManualRetry_foreign:
  assumes run: "Store_ManualRetry J e n dur d = (res, d')"
  shows "foreign (nClient n) d' = foreign (nClient n) d"
proof (cases "update_one e (retry_where n) (retry_set e dur) d")
  case (Inr ts)
  have "foreign (nClient n) (d\<lparr>tasks := ts\<rparr>) = foreign (nClient n) d"
    by (rule update_foreign [OF Inr]) (auto simp: retry_where_def retry_set_def)
  with run Inr show ?thesis by (auto simp: Store_ManualRetry_def intro: foreign_event_commit)
qed (use run in \<open>simp add: Store_ManualRetry_def\<close>)

lemma foreign_new_task:
  "nClient n = client \<Longrightarrow> foreign client (d\<lparr>tasks := tasks d @ [task_of n b]\<rparr>) = foreign client d"
  by (simp add: foreign_def foreign_tasks_def task_of_def)

lemma Accept_foreign:
  assumes "nClient n = client" and "Store_Accept J e n d = (res, d')"
  shows "foreign client d' = foreign client d"
  using assms(2) foreign_event foreign_commit foreign_new_task [OF assms(1)]
  by (fastforce simp: Store_Accept_def split: option.splits if_splits sum.splits)

lemma foreign_batches [simp]: "foreign client (d\<lparr>batches := b\<rparr>) = foreign client d"
  by (simp add: foreign_def foreign_tasks_def)

lemma CreateBatch_foreign: "CreateBatch e u c k d = (res, d') \<Longrightarrow> foreign client d' = foreign client d"
  by (auto simp: CreateBatch_def split: if_splits dest: foreign_commit)

lemma no_foreign_keeps: "no_foreign client u d \<Longrightarrow> foreign client d' = foreign client d \<Longrightarrow> no_foreign client u d'"
  by (simp add: foreign_def no_foreign_def)

interpretation tenant: store_rely "\<lambda>d d'. foreign client d' = foreign client d" "\<lambda>u d. no_foreign client u d" for client
  by unfold_locales
    (simp, simp, erule (1) no_foreign_keeps, erule (1) Claim_foreign, erule (1) Finish_foreign, erule (1) DeferPending_foreign)

section \<open>Contents never change\<close>

lemma same_core_refl [simp]: "same_core r r"
  by (simp add: same_core_def)

lemma same_core_trans: "same_core r r' \<Longrightarrow> same_core r' r'' \<Longrightarrow> same_core r r''"
  by (simp add: same_core_def)

definition cores_kept :: "db \<Rightarrow> db \<Rightarrow> bool" where
  "cores_kept d d' \<longleftrightarrow> (\<forall>r\<in>set (tasks d). \<exists>r'\<in>set (tasks d'). same_core r r')"

lemma cores_kept_trans: "cores_kept d d' \<Longrightarrow> cores_kept d' d'' \<Longrightarrow> cores_kept d d''"
  unfolding cores_kept_def using same_core_trans by blast

lemma cores_kept_put:
  assumes "distinct (map tk_id (tasks d))" and "r \<in> set (tasks d)" and "same_core r r'"
    and "tasks d' = put (tk_id r) (\<lambda>_. r') (tasks d)"
  shows "cores_kept d d'"
proof -
  have "\<exists>y\<in>set (tasks d'). same_core x y" if x: "x \<in> set (tasks d)" for x
  proof (cases "tk_id x = tk_id r")
    case True
    then have "x = r" using distinct_map_eqD [OF assms(1) x assms(2)] by simp
    with assms(2,3,4) show ?thesis by (force simp: put_def)
  next
    case False
    with x assms(4) have "x \<in> set (tasks d')" by (force simp: put_def)
    then show ?thesis by (intro bexI [of _ x]) simp
  qed
  then show ?thesis by (simp add: cores_kept_def)
qed

lemma step_cores: "db_step d d' \<Longrightarrow> wf_db d \<Longrightarrow> cores_kept d d'"
proof (induction rule: db_step.induct)
  case (accept d t w)
  then show ?case by (force simp: cores_kept_def add_event_def)
qed (auto simp: wf_db_def tasks_ok_def add_event_def intro: cores_kept_put, auto simp: cores_kept_def intro!: bexI)

lemma steps_cores: "(db_step ^^ k) d d' \<Longrightarrow> wf_db d \<Longrightarrow> cores_kept d d'"
proof (induction k arbitrary: d')
  case 0
  then show ?case by (auto simp: cores_kept_def intro!: bexI)
next
  case (Suc k)
  then obtain x where x: "(db_step ^^ k) d x" "db_step x d'" by auto
  with Suc cores_kept_trans step_cores relpowp_wf show ?case by blast
qed

lemma calls_cores:
  assumes "runs J k s" and "(store_call J ^^ m) s s'" and "k + m < 2 ^ 57"
  shows "cores_kept (fst s) (fst s')"
  using assms(2,3)
proof (induction m arbitrary: s')
  case 0
  then show ?case by (auto simp: cores_kept_def intro!: bexI)
next
  case (Suc m)
  from Suc.prems(1) obtain x where x: "(store_call J ^^ m) s x" "store_call J x s'" by auto
  have good: "good x \<and> gens_below (100 * (k + m) + 2) (fst x)"
    using runs_good [OF runs_more [OF assms(1) x(1)]] Suc.prems(2) by simp
  have "gens_below (2 ^ 64 - 1) (fst x)"
    by (rule gens_below_mono [OF conjunct2 [OF good]]) (use Suc.prems(2) in simp)
  from call_steps [OF x(2) conjunct1 [OF good] this] obtain i where "(db_step ^^ i) (fst x) (fst s')"
    by (auto simp: steps_le_def)
  from steps_cores [OF this] good have "cores_kept (fst x) (fst s')" by (simp add: good_def)
  with Suc x(1) cores_kept_trans show ?case by simp blast
qed

lemma db_path_cores:
  assumes "runs J k (d, S)" and "db_path J m d d'" and "k + m < 2 ^ 57"
  shows "cores_kept d d'"
proof -
  from assms(2) obtain S' i where "i \<le> m" "(store_call J ^^ i) (d, S) (d', S')" unfolding db_via_def by blast
  with calls_cores [OF assms(1), of i "(d', S')"] assms(3) show ?thesis by simp
qed

text \<open>
  C7: nothing accepted is ever lost or altered. A notification that exists in one reachable state exists in
  every later one with the same client, key, hash, target, request, mode, batch and configuration
  revisions, and its generation has not gone back.
\<close>

theorem contents_immutable:
  assumes "runs J k s" and "(store_call J ^^ m) s s'" and "k + m < 2 ^ 57" and "r \<in> set (tasks (fst s))"
  shows "\<exists>r'\<in>set (tasks (fst s')). same_core r r' \<and> tk_gen r \<le> tk_gen r'"
proof -
  from calls_cores [OF assms(1-3)] assms(4) obtain r' where r': "r' \<in> set (tasks (fst s'))" "same_core r r'"
    unfolding cores_kept_def by blast
  have wf: "wf_db (fst s)" "wf_db (fst s')"
    using runs_good [OF assms(1)] runs_good [OF runs_more [OF assms(1,2)]] assms(3) by (simp_all add: good_def)
  have p: "phase (fst x) (tk_id y) = Some (tk_status y, tk_gen y)" if "wf_db (fst x)" "y \<in> set (tasks (fst x))" for x :: "db \<times> Notification set" and y
    using that by (auto simp: phase_def wf_db_def tasks_ok_def find_row)
  from phase_steps_mono [OF later_phase [OF assms(1-3)] p [OF wf(1) assms(4)]] p [OF wf(2) r'(1)] r'
  show ?thesis by (auto simp: same_core_def)
qed

theorem contents_immutable_witness:
  "\<exists>r\<in>set (tasks ex_db1). \<exists>r'\<in>set (tasks ex_db2). same_core r r' \<and> tk_gen r \<le> tk_gen r'"
proof -
  have "\<exists>r. r \<in> set (tasks ex_db1)" by (auto simp: ex_store_defs go_simps)
  then obtain r where r: "r \<in> set (tasks ex_db1)" by blast
  from contents_immutable [OF ex_runs1 one_call [OF ex_call2] _ ] r show ?thesis by fastforce
qed

end
