(* ===== verification/Acceptance.thy ===== *)
theory Acceptance
  imports Tenancy
begin

text \<open>
  Submissions that race. The lookup by key and the insert of \<^verbatim>\<open>Accept\<close> are two calls on the store, and
  anything may happen between them: the same submission may be accepted by another request or another
  process, which the unique key of the table decides.
\<close>

section \<open>What the two calls of the service do to the database\<close>

lemma new_notification_client [simp]: "nClient (new_notification now u client key h b s t sub) = client"
  "nKey (new_notification now u client key h b s t sub) = key"
  "nStatus (new_notification now u client key h b s t sub) = ''pending''"
  "nGeneration (new_notification now u client key h b s t sub) = 1"
  by (simp_all add: new_notification_def Let_def)

lemma Accept_db:
  assumes "Accept U sha J v client sub b snap w = (res, w')"
  shows "wDb w' = wDb w \<or> (\<exists>n r. nClient n = client \<and> nStatus n = ''pending'' \<and> nGeneration n = 1
    \<and> Store_Accept J (vStore v) n (vMeanwhile v (wDb w)) = (r, wDb w'))"
  using assms new_notification_client unfolding Accept_def Let_def
  by (fastforce split: if_splits sum.splits option.splits prod.splits)

lemma Retry_db:
  assumes "Retry_Service K J c v e1 others e2 quota client u snap w = (res, w')"
  shows "wDb w' = wDb w \<or> (\<exists>n dur. nClient n = client \<and> Store_ManualRetry J e2 n dur (others (wDb w)) = (res, wDb w'))"
  using assms Get_own unfolding Retry_Service_def
  by (fastforce split: if_splits sum.splits option.splits prod.splits)

lemma Accept_path:
  assumes "Accept U sha J v client sub b snap w = (res, w')" and others: "db_path J N (wDb w) (vMeanwhile v (wDb w))"
  shows "db_path J (N + 1) (wDb w) (wDb w')"
  using Accept_db [OF assms(1)]
proof (elim disjE exE conjE)
  fix n r assume "Store_Accept J (vStore v) n (vMeanwhile v (wDb w)) = (r, wDb w')" "nStatus n = ''pending''" "nGeneration n = 1"
  from db_path_trans [OF others db_path_simple(2) [OF this]] show ?thesis .
qed simp

lemma Retry_path:
  assumes "Retry_Service K J c v e1 others e2 quota client u snap w = (res, w')" and path: "db_path J N (wDb w) (others (wDb w))"
  shows "db_path J (N + 1) (wDb w) (wDb w')"
  using Retry_db [OF assms(1)]
proof (elim disjE exE conjE)
  fix n dur assume "Store_ManualRetry J e2 n dur (others (wDb w)) = (res, wDb w')"
  from db_path_trans [OF path db_path_simple(6) [OF this]] show ?thesis .
qed simp

section \<open>The notification of a key\<close>

text \<open>The database has the notification \<open>u\<close> with the content hash \<open>h\<close> for a client's key.\<close>

definition keyed :: "string \<Rightarrow> string \<Rightarrow> ID \<Rightarrow> byte list \<Rightarrow> db \<Rightarrow> bool" where
  "keyed client key u h d \<longleftrightarrow>
     (\<exists>r\<in>set (tasks d). tk_client r = client \<and> tk_key r = key \<and> tk_id r = u \<and> tk_hash r = h)"

lemma keyed_unique:
  assumes "wf_db d" and "keyed client key u h d" and "keyed client key u' h' d"
  shows "u' = u \<and> h' = h"
proof -
  have inj: "inj_on (\<lambda>r. (tk_client r, tk_key r)) (set (tasks d))"
    using assms(1) by (simp only: wf_db_def tasks_ok_def distinct_map)
  from assms(2,3) obtain r r' where "r \<in> set (tasks d)" "r' \<in> set (tasks d)" "tk_client r' = tk_client r" "tk_key r' = tk_key r"
    and r: "tk_id r = u" "tk_hash r = h" "tk_id r' = u'" "tk_hash r' = h'"
    unfolding keyed_def by metis
  with inj_onD [OF inj, of r' r] have "r' = r" by simp
  with r show ?thesis by simp
qed

lemma keyed_kept: "keyed client key u h d \<Longrightarrow> cores_kept d d' \<Longrightarrow> keyed client key u h d'"
  unfolding keyed_def cores_kept_def same_core_def by metis

lemma keyed_path:
  assumes "keyed client key u h d" and "runs J k (d, S)" and "db_path J m d d'" and "k + m < 2 ^ 57"
  shows "keyed client key u h d'"
  using assms(1) db_path_cores [OF assms(2-4)] by (rule keyed_kept)

lemma ByKey_keyed: "ByKey J failed client key d = Inr n \<Longrightarrow> keyed client key (nID n) (nHash n) d"
  by (auto simp: ByKey_def scan_def keyed_def find_Some_iff Notification_of_def split: if_splits option.splits
      intro!: bexI [OF _ nth_mem])

lemma Store_Accept_keyed:
  assumes "Store_Accept J e n d = (Inr (m, created), d')"
  shows "keyed (nClient n) (nKey n) (nID m) (nHash m) d'"
proof (cases created)
  case True
  with assms have "Store_Accept J e n d = (Inr (m, True), d')" by simp
  then show ?thesis by (rule Store_Accept_created) (simp add: keyed_def task_of_def)
next
  case False
  with assms have "d' = d" "\<exists>failed. ByKey J failed (nClient n) (nKey n) d = Inr m"
    by (auto simp: Store_Accept_def commit_def split: option.splits if_splits sum.splits)
  with ByKey_keyed show ?thesis by blast
qed

lemma Store_Accept_taken:
  assumes "Store_Accept J e n d = (Inr (m, created), d')" and "keyed (nClient n) (nKey n) u h d"
  shows "\<not> created \<and> d' = d"
  using assms by (auto simp: Store_Accept_def keyed_def list_ex_iff split: option.splits if_splits sum.splits)

text \<open>How a successful \<^const>\<open>Accept\<close> came about: by its lookup, or by the insert after what the others did.\<close>

lemma Accept_cases:
  assumes "Accept U sha J v client sub batch snap w = (Inr (n, created), w')"
  obtains (found) "w' = w" "\<not> created" "keyed client (sKey sub) (nID n) (nHash n) (wDb w)"
    | (inserted) m where "nClient m = client" "nKey m = sKey sub"
        "Store_Accept J (vStore v) m (vMeanwhile v (wDb w)) = (Inr (n, created), wDb w')"
proof -
  have "(w' = w \<and> \<not> created \<and> keyed client (sKey sub) (nID n) (nHash n) (wDb w)) \<or>
    (\<exists>m. nClient m = client \<and> nKey m = sKey sub \<and> Store_Accept J (vStore v) m (vMeanwhile v (wDb w)) = (Inr (n, created), wDb w'))"
    using assms new_notification_client ByKey_keyed unfolding Accept_def Let_def
    by (fastforce split: if_splits sum.splits option.splits prod.splits)
  then show thesis using found inserted by blast
qed

lemma Accept_keyed:
  assumes "Accept U sha J v client sub batch snap w = (Inr (n, created), w')"
  shows "keyed client (sKey sub) (nID n) (nHash n) (wDb w')"
  using assms by (rule Accept_cases) (auto dest: Store_Accept_keyed)

section \<open>Racing submissions\<close>

text \<open>
  C32: an idempotency key names one notification however submissions race. Suppose a request has not yet
  inserted its notification when another one with the same key is accepted, by this or another process,
  with any number of store calls of others around it. If the first request then succeeds as well, it
  returns the notification of the second, with the same content hash, and creates nothing.
\<close>

theorem Accept_race:
  assumes reach: "runs J k (wDb w, S)" and before: "db_path J m1 (wDb w) (wDb x)"
    and inner: "Accept U sha J vx client subx batchx snapx x = (Inr (nx, cx), x')"
      "db_path J m2 (wDb x) (vMeanwhile vx (wDb x))"
    and after: "db_path J m3 (wDb x') (vMeanwhile v (wDb w))"
    and outer: "Accept U sha J v client sub batch snap w = (Inr (n, c), w')"
    and key: "sKey subx = sKey sub" and bound: "k + m1 + m2 + m3 + 1 < 2 ^ 57"
  shows "nID n = nID nx \<and> nHash n = nHash nx \<and> \<not> c \<and> (wDb w' = wDb w \<or> wDb w' = vMeanwhile v (wDb w))"
proof -
  obtain k1 S1 where r1: "runs J k1 (wDb x, S1)" "k1 \<le> k + m1" by (rule db_path_runs [OF reach before])
  have p: "db_path J (m2 + 1) (wDb x) (wDb x')" using Accept_path [OF inner] .
  obtain k2 S2 where r2: "runs J k2 (wDb x', S2)" "k2 \<le> k1 + (m2 + 1)" by (rule db_path_runs [OF r1(1) p])
  obtain k3 S3 where r3: "runs J k3 (vMeanwhile v (wDb w), S3)" "k3 \<le> k2 + m3" by (rule db_path_runs [OF r2(1) after])
  have wf: "wf_db (vMeanwhile v (wDb w))" using runs_good [OF r3(1)] r1(2) r2(2) r3(2) bound by (simp add: good_def)
  have here: "keyed client (sKey sub) (nID nx) (nHash nx) (vMeanwhile v (wDb w))"
    using keyed_path [OF Accept_keyed [OF inner(1)] r2(1) after] r1(2) r2(2) bound by (simp add: key)
  have all: "db_path J (m1 + (m2 + 1) + m3) (wDb w) (vMeanwhile v (wDb w))"
    by (rule db_path_trans [OF db_path_trans [OF before p] after])
  from outer show ?thesis
  proof (cases rule: Accept_cases)
    case found
    from keyed_path [OF found(3) reach all] bound have "keyed client (sKey sub) (nID n) (nHash n) (vMeanwhile v (wDb w))" by simp
    with keyed_unique [OF wf here] found show ?thesis by blast
  next
    case (inserted m)
    from inserted here have "\<not> c \<and> wDb w' = vMeanwhile v (wDb w)" by (metis Store_Accept_taken)
    with Store_Accept_keyed [OF inserted(3)] inserted keyed_unique [OF wf here] show ?thesis by metis
  qed
qed

lemma Accept_rerun:
  assumes "Accept U sha J v client sub batch snap w = (Inr (n, True), w')"
    and "Store_Accept J (vStore v) n (f (wDb w)) = (Inr (m, c), d)"
  shows "\<exists>x. Accept U sha J (v\<lparr>vMeanwhile := f\<rparr>) client sub batch snap w = (Inr (m, c), x)"
proof -
  have same: "Store_Accept J e n' d1 = (Inr (n, True), d2) \<Longrightarrow> n' = n" for e n' d1 d2 by (elim Store_Accept_created) simp
  from assms show ?thesis unfolding Accept_def Let_def
    by (simp split: if_splits sum.splits option.splits prod.splits) (auto dest!: same)
qed

text \<open>The same submission arrives twice, and the second copy is accepted between the two steps of the first.\<close>

lemma ex_Accept_late:
  "\<exists>n w'. Accept ascii_only ex_sha ex_codec2 (ex_env\<lparr>vMeanwhile := \<lambda>_. wDb ex_world1\<rparr>) ''c'' ex_sub None ex_snap ex_world = (Inr (n, False), w')"
proof -
  let ?v = "ex_env\<lparr>vMeanwhile := \<lambda>_. wDb ex_world1\<rparr>"
  from ex_Accept obtain b where b: "tasks (wDb ex_world1) = [task_of ex_accepted b]"
    by (elim Accept_created Store_Accept_created) (auto simp: ex_env_def ex_world_def empty_db_def)
  have "nID ex_accepted = replicate 16 5" "nClient ex_accepted = ''c''" "nKey ex_accepted = ''k1''" "nHash ex_accepted = replicate 32 9"
    by (simp_all add: ex_accepted_def new_notification_def Let_def)
  then have "fst (Store_Accept ex_codec2 (vStore ?v) ex_accepted (vMeanwhile ?v (wDb ex_world)))
      = Inr (Notification_of (task_of ex_accepted b) ex_normal, False)"
    by (simp add: Store_Accept_def b ByKey_def scan_def ex_codec2_def ex_codec_def ex_env_def ex_io_def Notification_of_def
        task_of_def ex_store_defs)
  then have "Store_Accept ex_codec2 (vStore ex_env) ex_accepted (wDb ex_world1)
      = (Inr (Notification_of (task_of ex_accepted b) ex_normal, False), snd (Store_Accept ex_codec2 (vStore ex_env) ex_accepted (wDb ex_world1)))"
    by (simp add: prod_eq_iff)
  from Accept_rerun [OF ex_Accept, of "\<lambda>_. wDb ex_world1", OF this] show ?thesis by blast
qed

theorem Accept_race_witness:
  "\<exists>n w'. Accept ascii_only ex_sha ex_codec2 (ex_env\<lparr>vMeanwhile := \<lambda>_. wDb ex_world1\<rparr>) ''c'' ex_sub None ex_snap ex_world = (Inr (n, False), w')
     \<and> nID n = nID ex_accepted"
proof -
  from ex_Accept_late obtain n w' where late: "Accept ascii_only ex_sha ex_codec2 (ex_env\<lparr>vMeanwhile := \<lambda>_. wDb ex_world1\<rparr>) ''c''
      ex_sub None ex_snap ex_world = (Inr (n, False), w')" by blast
  have reach: "runs ex_codec2 0 (wDb ex_world, {})" using runs_init by (simp add: ex_world_def)
  have "db_path ex_codec2 0 (wDb ex_world) (wDb ex_world)" by simp
  note start = this
  have "db_path ex_codec2 0 (wDb ex_world1) (vMeanwhile (ex_env\<lparr>vMeanwhile := \<lambda>_. wDb ex_world1\<rparr>) (wDb ex_world))"
    and "db_path ex_codec2 0 (wDb ex_world) (vMeanwhile ex_env (wDb ex_world))" by (simp_all add: ex_env_def)
  from Accept_race [OF reach start ex_Accept this(2,1) late] late show ?thesis by auto
qed

end
