(* ===== verification/Auth.thy ===== *)
theory Auth
  imports Validate
begin

text \<open>
  Package \<^verbatim>\<open>internal/auth\<close>: who is calling. The JWT library is a parameter; what it documents is the
  hypothesis \<open>jwt_documented\<close>.
\<close>

section \<open>The library\<close>

record Claims =
  jcClientID :: string
  jcIssuer :: string
  jcSubject :: string
  jcAudience :: "string list"
  jcExpiresAt :: "gotime option"

text \<open>The options \<^verbatim>\<open>WithValidMethods\<close>, \<^verbatim>\<open>WithIssuer\<close>, \<^verbatim>\<open>WithAudience\<close> and \<^verbatim>\<open>WithExpirationRequired\<close>.\<close>

record jwt_options =
  joMethods :: "string list"
  joIssuer :: string
  joAudience :: string
  joExpiration :: bool

text \<open>
  \<^verbatim>\<open>ParseWithClaims\<close> gets the clock, the raw token, the key function, which is asked with the key
  identifier of the token's header (empty if there is none), and the options; it returns
  \<^verbatim>\<open>token.Valid\<close> with the claims.
\<close>

record jwt =
  jwParseUnverified :: "string \<Rightarrow> Claims option"
  jwParseWithClaims :: "gotime \<Rightarrow> string \<Rightarrow> (string \<Rightarrow> pubkey option) \<Rightarrow> jwt_options \<Rightarrow> (bool \<times> Claims) option"

section \<open>Authentication\<close>

definition signing_key :: "Snapshot \<Rightarrow> string \<Rightarrow> string \<Rightarrow> pubkey option" where
  "signing_key s iss kid = map_of (go_get [] (snKeys s) iss) kid"

definition Authenticate :: "jwt \<Rightarrow> gotime \<Rightarrow> string \<Rightarrow> Snapshot option \<Rightarrow> error + string" where
  "Authenticate J now header snap =
     (if length header > 16384 \<or> \<not> HasPrefix header ''Bearer '' \<or> snap = None then Inl (fails ''invalid bearer token'')
      else let s = the snap; raw = TrimPrefix header ''Bearer '' in
        case jwParseUnverified J raw of
          None \<Rightarrow> Inl (fails ''invalid JWT'')
        | Some untrusted \<Rightarrow>
            (case map_of (snIssuers s) (jcIssuer untrusted) of
               None \<Rightarrow> Inl (fails ''unknown issuer'')
             | Some issuer \<Rightarrow>
                 (case jwParseWithClaims J now raw (signing_key s (jcIssuer untrusted))
                         \<lparr>joMethods = [isAlgorithm issuer], joIssuer = jcIssuer untrusted,
                          joAudience = isAudience issuer, joExpiration = True\<rparr> of
                    None \<Rightarrow> Inl (fails ''JWT validation failed'')
                  | Some (valid, claims) \<Rightarrow>
                      if \<not> valid \<or> jcSubject claims = [] then Inl (fails ''JWT validation failed'')
                      else (case map_of (snClients s) (jcClientID claims) of
                              None \<Rightarrow> Inl (fails ''client disabled'')
                            | Some c \<Rightarrow>
                                if \<not> clEnabled c then Inl (fails ''client disabled'') else Inr (jcClientID claims)))))"

section \<open>What a caller proved\<close>

text \<open>
  What the library documents: a valid token has the claims its payload spells out, its signature
  was verified with the key the key function gave for the key identifier, under an algorithm that is
  one of the valid methods; an expected issuer or audience that is not empty was found in the
  claims, and a required expiry lies in the future.
\<close>

definition jwt_documented ::
  "(string \<Rightarrow> string) \<Rightarrow> (string \<Rightarrow> string) \<Rightarrow> (string \<Rightarrow> pubkey \<Rightarrow> string \<Rightarrow> bool) \<Rightarrow> jwt \<Rightarrow> bool" where
  "jwt_documented kid alg sig_ok J \<longleftrightarrow>
     (\<forall>now raw keyfunc opts c. jwParseWithClaims J now raw keyfunc opts = Some (True, c) \<longrightarrow>
        jwParseUnverified J raw = Some c
        \<and> (\<exists>key. keyfunc (kid raw) = Some key \<and> sig_ok (alg raw) key raw)
        \<and> alg raw \<in> set (joMethods opts)
        \<and> (joIssuer opts \<noteq> [] \<longrightarrow> jcIssuer c = joIssuer opts)
        \<and> (joAudience opts \<noteq> [] \<longrightarrow> joAudience opts \<in> set (jcAudience c))
        \<and> (joExpiration opts \<longrightarrow> (\<exists>x. jcExpiresAt c = Some x \<and> now < x)))"

text \<open>The two key parsers return keys of their kind.\<close>

definition key_parsers_typed :: "toolkit \<Rightarrow> bool" where
  "key_parsers_typed K \<longleftrightarrow>
     (\<forall>pem k. (tkParseRSA K pem = Some k \<longrightarrow> (\<exists>n x. k = RSAKey n x)) \<and> (tkParseEC K pem = Some k \<longrightarrow> (\<exists>x. k = ECKey x)))"

definition strong_key :: "string \<Rightarrow> pubkey \<Rightarrow> bool" where
  "strong_key alg key \<longleftrightarrow>
     alg = ''RS256'' \<and> (\<exists>n x. key = RSAKey n x \<and> 2048 \<le> n) \<or> alg = ''ES256'' \<and> (\<exists>x. key = ECKey x)"

lemma Build_issuers:
  assumes "Build K env_ok now revision b = Inr s"
  shows "fill (build_issuer K) (snIssuers s) = Inr (snKeys s)"
  using assms by (auto simp: Build_def split: sum.splits if_splits option.splits)

lemma build_key_strong:
  assumes "build_key K c iss (kid, pem) = Inr key" and "key_parsers_typed K"
  shows "strong_key (isAlgorithm c) key"
  using assms unfolding build_key_def strong_key_def key_parsers_typed_def
  by (fastforce split: if_splits option.splits pubkey.splits)

lemma fill_back:
  "fill body m = Inr m' \<Longrightarrow> map_of m' k = Some w \<Longrightarrow> \<exists>v. map_of m k = Some v \<and> body (k, v) = Inr w"
  by (induction body m arbitrary: m' rule: fill.induct) (auto split: sum.splits if_splits)

lemma signing_key_configured:
  assumes s: "Build K env_ok t revision b = Inr s" and K: "key_parsers_typed K"
    and iss: "map_of (snIssuers s) iss = Some issuer" and key: "signing_key s iss kid = Some key"
  shows "strong_key (isAlgorithm issuer) key" and "\<exists>pem. map_of (isKeys issuer) kid = Some pem"
    and "iss \<noteq> []" and "isAudience issuer \<noteq> []"
proof -
  from fill_Inr [OF Build_issuers [OF s] iss] obtain keys where
    keys: "map_of (snKeys s) iss = Some keys" "build_issuer K (iss, issuer) = Inr keys" by blast
  then have f: "fill (build_key K issuer iss) (isKeys issuer) = Inr keys"
    and ne: "iss \<noteq> []" "isAudience issuer \<noteq> []"
    by (auto simp: build_issuer_def split: if_splits)
  have "map_of keys kid = Some key" using key keys(1) by (simp add: signing_key_def go_get_def)
  from fill_back [OF f this] obtain pem where
    "map_of (isKeys issuer) kid = Some pem" "build_key K issuer iss (kid, pem) = Inr key" by blast
  then show "strong_key (isAlgorithm issuer) key" and "\<exists>pem. map_of (isKeys issuer) kid = Some pem"
    using build_key_strong K by blast+
  show "iss \<noteq> []" "isAudience issuer \<noteq> []" by (fact ne)+
qed

lemma Authenticate_Inr:
  assumes "Authenticate J now header snap = Inr client"
  obtains s raw untrusted issuer claims c where
    "snap = Some s" "header = ''Bearer '' @ raw" "length header \<le> 16384" "jwParseUnverified J raw = Some untrusted"
    "map_of (snIssuers s) (jcIssuer untrusted) = Some issuer"
    "jwParseWithClaims J now raw (signing_key s (jcIssuer untrusted)) \<lparr>joMethods = [isAlgorithm issuer],
       joIssuer = jcIssuer untrusted, joAudience = isAudience issuer, joExpiration = True\<rparr> = Some (True, claims)"
    "jcSubject claims \<noteq> []" "client = jcClientID claims" "map_of (snClients s) client = Some c" "clEnabled c"
proof -
  from assms have pre: "HasPrefix header ''Bearer ''" by (simp add: Authenticate_def split: if_splits)
  then obtain raw where raw: "header = ''Bearer '' @ raw" unfolding HasPrefix_append by blast
  then have "TrimPrefix header ''Bearer '' = raw" by (simp add: TrimPrefix_def)
  with assms raw show thesis
    using that by (auto simp: Authenticate_def Let_def split: if_splits option.splits)
qed

text \<open>
  C22: a caller is who a trusted issuer says. With a configuration that was accepted, a request is
  taken as a client's only if its bearer token was signed with a key the configuration lists for the
  issuer the token names, under that issuer's algorithm (RS256 with at least 2048 bits, or ES256), for
  its audience, has not expired and names a subject, and the client is enabled. No other algorithm and
  no key of another issuer will do.
\<close>

theorem Authenticate_sound:
  assumes auth: "Authenticate J now header (Some s) = Inr client" and s: "Build K env_ok t revision b = Inr s"
    and lib: "jwt_documented kid alg sig_ok J" and K: "key_parsers_typed K"
  shows "\<exists>raw c issuer key pem. header = ''Bearer '' @ raw \<and> jwParseUnverified J raw = Some c
    \<and> map_of (snIssuers s) (jcIssuer c) = Some issuer \<and> map_of (isKeys issuer) (kid raw) = Some pem
    \<and> signing_key s (jcIssuer c) (kid raw) = Some key \<and> strong_key (isAlgorithm issuer) key
    \<and> sig_ok (isAlgorithm issuer) key raw \<and> isAudience issuer \<in> set (jcAudience c)
    \<and> (\<exists>x. jcExpiresAt c = Some x \<and> now < x) \<and> jcSubject c \<noteq> [] \<and> client = jcClientID c
    \<and> (\<exists>cl. map_of (snClients s) client = Some cl \<and> clEnabled cl)"
proof -
  from auth obtain raw u issuer c cl where h: "header = ''Bearer '' @ raw" "jwParseUnverified J raw = Some u"
    "map_of (snIssuers s) (jcIssuer u) = Some issuer"
    and v: "jwParseWithClaims J now raw (signing_key s (jcIssuer u)) \<lparr>joMethods = [isAlgorithm issuer],
       joIssuer = jcIssuer u, joAudience = isAudience issuer, joExpiration = True\<rparr> = Some (True, c)"
    and c: "jcSubject c \<noteq> []" "client = jcClientID c" "map_of (snClients s) client = Some cl" "clEnabled cl"
    by (rule Authenticate_Inr) simp
  from lib v obtain key where p: "jwParseUnverified J raw = Some c" "signing_key s (jcIssuer u) (kid raw) = Some key"
    "sig_ok (alg raw) key raw" "alg raw = isAlgorithm issuer"
    "isAudience issuer \<noteq> [] \<longrightarrow> isAudience issuer \<in> set (jcAudience c)" "\<exists>x. jcExpiresAt c = Some x \<and> now < x"
    unfolding jwt_documented_def by fastforce
  have "u = c" using h(2) p(1) by simp
  with h p c signing_key_configured [OF s K h(3) p(2)] show ?thesis by auto
qed

definition ex_claims :: Claims where
  "ex_claims = \<lparr>jcClientID = ''c'', jcIssuer = ''idp'', jcSubject = ''svc'', jcAudience = [''notifier''], jcExpiresAt = Some hour\<rparr>"

definition ex_issuer :: Issuer where
  "ex_issuer = \<lparr>isAudience = ''notifier'', isAlgorithm = ''RS256'', isKeys = [(''k1'', ''pem'')]\<rparr>"

definition ex_auth_tool :: toolkit where
  "ex_auth_tool = ex_tool\<lparr>tkDecodeDocument := (\<lambda>_. Some (ex_tool_doc\<lparr>dcIssuers := Some [(''idp'', ex_issuer)]\<rparr>, [])),
     tkParseRSA := (\<lambda>_. Some (RSAKey 2048 ''m''))\<rparr>"

text \<open>A library for one token, whose signature is good for one key.\<close>

definition ex_jwt :: jwt where
  "ex_jwt = \<lparr>jwParseUnverified = (\<lambda>raw. if raw = ''h.p.s'' then Some ex_claims else None),
     jwParseWithClaims = (\<lambda>now raw keyfunc opts.
       if raw = ''h.p.s'' \<and> keyfunc ''k1'' = Some (RSAKey 2048 ''m'') \<and> ''RS256'' \<in> set (joMethods opts)
          \<and> joIssuer opts = ''idp'' \<and> joAudience opts = ''notifier'' \<and> now < hour
       then Some (True, ex_claims) else None)\<rparr>"

definition ex_signed :: "string \<Rightarrow> pubkey \<Rightarrow> string \<Rightarrow> bool" where
  "ex_signed alg key raw \<longleftrightarrow> alg = ''RS256'' \<and> key = RSAKey 2048 ''m'' \<and> raw = ''h.p.s''"

lemma ex_jwt_documented: "jwt_documented (\<lambda>_. ''k1'') (\<lambda>_. ''RS256'') ex_signed ex_jwt"
  by (auto simp: jwt_documented_def ex_jwt_def ex_signed_def ex_claims_def go_simps split: if_splits)

definition ex_auth_snap :: Snapshot where
  "ex_auth_snap = \<lparr>snRevision = 7, snLoadedAt = 0, snTargets = the (dcTargets ex_tool_doc),
     snClients = the (dcClients ex_tool_doc), snRetries = the (dcRetries ex_tool_doc),
     snQuotas = the (dcQuotas ex_tool_doc), snHooks = [], snIssuers = [(''idp'', ex_issuer)], snPrograms = [],
     snKeys = [(''idp'', [(''k1'', RSAKey 2048 ''m'')])]\<rparr>"

lemma ex_auth_Build: "Build ex_auth_tool True 0 7 ''{}'' = Inr ex_auth_snap"
proof -
  have "each (check_target ex_auth_tool (ex_tool_doc\<lparr>dcIssuers := Some [(''idp'', ex_issuer)]\<rparr>)) [(''t'', ex_tool_target)] = None"
    by code_simp
  moreover have "each check_retry (the (dcRetries ex_tool_doc)) = None" by code_simp
  moreover have "each (check_client (ex_tool_doc\<lparr>dcIssuers := Some [(''idp'', ex_issuer)]\<rparr>)) (the (dcClients ex_tool_doc)) = None"
    by code_simp
  moreover have "check_quotas None (the (dcQuotas ex_tool_doc)) = None" by code_simp
  moreover have "fill (build_issuer ex_auth_tool) [(''idp'', ex_issuer)] = Inr [(''idp'', [(''k1'', RSAKey 2048 ''m'')])]"
    by code_simp
  ultimately show ?thesis
    by (simp add: Build_def Decode_def ex_auth_tool_def ex_tool_def ex_tool_doc_def ex_auth_snap_def)
qed

lemma ex_Authenticate: "Authenticate ex_jwt 0 ''Bearer h.p.s'' (Some ex_auth_snap) = Inr ''c''"
  by code_simp

theorem Authenticate_sound_witness:
  "Authenticate ex_jwt 0 ''Bearer h.p.s'' (Some ex_auth_snap) = Inr ''c''
     \<and> (\<exists>key. signing_key ex_auth_snap ''idp'' ''k1'' = Some key \<and> strong_key ''RS256'' key \<and> ex_signed ''RS256'' key ''h.p.s'')"
proof -
  have K: "key_parsers_typed ex_auth_tool" by (auto simp: key_parsers_typed_def ex_auth_tool_def ex_tool_def)
  from Authenticate_sound [OF ex_Authenticate ex_auth_Build ex_jwt_documented K] show ?thesis
    using ex_Authenticate by (auto simp: ex_jwt_def ex_claims_def ex_auth_snap_def ex_issuer_def)
qed

end
