(* ===== verification/Api.thy ===== *)
theory Api
  imports Acceptance Auth
begin

text \<open>
  Package \<^verbatim>\<open>internal/api\<close>: the HTTP interface of the service. A handler takes a request and the state
  and returns the response and the new state. The streaming JSON decoder and the JWT library are
  parameters. Logging is left out; the functions \<open>evBetween\<close> say what the rest of the system did
  between two steps of a handler.
\<close>

section \<open>Cursors\<close>

text \<open>\<^verbatim>\<open>base64.RawURLEncoding\<close>: the URL alphabet and no padding.\<close>

definition to_url :: "char \<Rightarrow> char" where
  "to_url c = (if c = CHR ''+'' then CHR ''-'' else if c = CHR ''/'' then CHR ''_'' else c)"

definition from_url :: "char \<Rightarrow> char" where
  "from_url c = (if c = CHR ''-'' then CHR ''+'' else if c = CHR ''_'' then CHR ''/'' else c)"

definition rawurl_encode :: "string \<Rightarrow> string" where
  "rawurl_encode s = map to_url (filter (\<lambda>c. c \<noteq> CHR ''='') (b64_encode s))"

definition rawurl_decode :: "string \<Rightarrow> string option" where
  "rawurl_decode s =
     (let t = filter (\<lambda>c. c \<noteq> CHR 0x0D \<and> c \<noteq> CHR 0x0A) s;
          u = map from_url t;
          k = length u mod 4
      in if list_ex (\<lambda>c. c \<in> set ''+/='') t \<or> k = 1 then None
         else b64_quanta (u @ replicate ((4 - k) mod 4) (CHR ''='')))"

section \<open>Requests and responses\<close>

text \<open>
  The path as \<^verbatim>\<open>http.ServeMux\<close> cuts it: cleaned, split at slashes, each segment unescaped; the segment
  after a trailing slash is a slash. Header names are in canonical form, the query is parsed.
\<close>

record request =
  rqMethod :: string
  rqSegments :: "string list"
  rqHeader :: "(string \<times> string) list"
  rqQuery :: "(string \<times> string) list"
  rqBody :: string

record batch_result =
  brKey :: string
  brAccepted :: bool
  brID :: "ID option"
  brCode :: string

datatype content =
    ErrorBody string string string
  | NoteBody Notification
  | ProxyBody Notification
  | BatchBody ID "batch_result list"
  | DetailBody Notification "Attempt list"
  | ListBody "Notification list" string

record response =
  rsStatus :: int
  rsHeader :: "(string \<times> string) list"
  rsBody :: content

record identity =
  iClient :: string
  iSnapshot :: Snapshot
  iRequestID :: string

definition respond :: "string \<Rightarrow> (string \<times> string) list \<Rightarrow> int \<Rightarrow> content \<Rightarrow> response" where
  "respond rid hs status body =
     \<lparr>rsStatus = status,
      rsHeader = [(''X-Request-Id'', rid), (''Cache-Control'', ''no-store'')] @ hs @ [(''Content-Type'', ''application/json'')],
      rsBody = body\<rparr>"

definition api_error :: "error \<Rightarrow> string \<times> int \<times> string" where
  "api_error x =
     (case x of
        AppError code status message \<Rightarrow> (code, status, message)
      | ErrNotFound \<Rightarrow> (''NOTIFICATION_NOT_FOUND'', 404, ''notification not found'')
      | ErrConflict \<Rightarrow> (''IDEMPOTENCY_CONFLICT'', 409, ''key already used for a different request'')
      | ErrState \<Rightarrow> (''INVALID_STATE'', 409, ''notification cannot be retried'')
      | _ \<Rightarrow> (''DEPENDENCY_UNAVAILABLE'', 503, ''dependency unavailable''))"

definition writeError :: "string \<Rightarrow> error \<Rightarrow> response" where
  "writeError rid x =
     (case api_error x of (code, status, message) \<Rightarrow>
        respond rid ((if status = 429 then [(''Retry-After'', ''1'')] else [])
          @ (if status = 401 then [(''Www-Authenticate'', ''Bearer'')] else [])) status
          (ErrorBody code message rid))"

section \<open>Decoding a body\<close>

text \<open>
  One \<^verbatim>\<open>Decode\<close> of the streaming decoder on the bytes it is given: a value and what follows it, an
  error, or the end of the input before the value ended.
\<close>

datatype 'a decoded = Decoded 'a string | BadJSON | InputEnds

definition max_body :: nat where "max_body = 2097152"

definition decode :: "(string \<Rightarrow> unit decoded) \<Rightarrow> (string \<Rightarrow> 'a decoded) \<Rightarrow> request \<Rightarrow> error + 'a" where
  "decode any_value value r =
     (let over = length (rqBody r) > max_body;
          too_large = Fail ''INVALID_REQUEST'' 413 ''request exceeds 2 MiB''
      in if hd (Split (go_get [] (rqHeader r) ''Content-Type'') (CHR '';'')) \<noteq> ''application/json''
         then Inl (Fail ''INVALID_REQUEST'' 415 ''Content-Type must be application/json'')
         else case value (take max_body (rqBody r)) of
           BadJSON \<Rightarrow> Inl (Fail ''INVALID_REQUEST'' 400 ''invalid JSON request'')
         | InputEnds \<Rightarrow> Inl (if over then too_large else Fail ''INVALID_REQUEST'' 400 ''invalid JSON request'')
         | Decoded v rest \<Rightarrow>
             (case any_value rest of
                InputEnds \<Rightarrow>
                  if over then Inl too_large
                  else if list_all json_space rest then Inr v
                  else Inl (Fail ''INVALID_REQUEST'' 400 ''expected one JSON object'')
              | _ \<Rightarrow> Inl (Fail ''INVALID_REQUEST'' 400 ''expected one JSON object'')))"

section \<open>The server\<close>

text \<open>
  The fixed parts. \<open>axItem\<close> decodes one item of a batch and leaves the rest, \<open>axItemKey\<close> is the key a
  failed decoding left in the struct. The two functions of the service may be nil.
\<close>

record 'w server =
  axTool :: toolkit
  axSha :: "string \<Rightarrow> byte list"
  axCodec :: codec
  axJwt :: jwt
  axAny :: "string \<Rightarrow> unit decoded"
  axSubmission :: "string \<Rightarrow> Submission decoded"
  axItems :: "string \<Rightarrow> string list decoded"
  axItem :: "string \<Rightarrow> (Submission \<times> string) option"
  axItemKey :: "string \<Rightarrow> string"
  axProxy :: "(ID \<Rightarrow> nat \<Rightarrow> 'w \<Rightarrow> error option \<times> 'w) option"
  axManualRetry :: "(string \<Rightarrow> ID \<Rightarrow> Snapshot \<Rightarrow> 'w \<Rightarrow> (error + unit) \<times> 'w) option"

record 'w api_env =
  evNow :: gotime
  evRequestID :: ID
  evAccept :: "nat \<Rightarrow> accept_env"
  evGet :: io
  evAttempts :: io
  evList :: io
  evQuota :: "(bool option \<times> int) option"
  evBatchID :: ID
  evBatch :: io
  evBetween :: "nat \<Rightarrow> 'w \<Rightarrow> 'w"

definition bad_request :: "string \<Rightarrow> error" where
  "bad_request message = Fail ''INVALID_REQUEST'' 400 message"

subsection \<open>Submitting\<close>

text \<open>A fresh proxy submission is attempted at once; the result is read back if that is possible.\<close>

definition attempt_now ::
  "'w world_scheme server \<Rightarrow> 'w world_scheme api_env \<Rightarrow> identity \<Rightarrow> Notification \<Rightarrow> bool \<Rightarrow> 'w world_scheme \<Rightarrow>
    Notification \<times> 'w world_scheme" where
  "attempt_now S e a n created w =
     (case axProxy S of
        Some proxy \<Rightarrow>
          if created \<and> nMode n = ''proxy'' then
            (let w1 = evBetween e 1 (snd (proxy (nID n) (nGeneration n) (evBetween e 0 w))) in
             (case Get (axCodec S) (evGet e) (nID n) (iClient a) (wDb w1) of Inr fresh \<Rightarrow> fresh | Inl _ \<Rightarrow> n, w1))
          else (n, w)
      | None \<Rightarrow> (n, w))"

definition submit ::
  "'w world_scheme server \<Rightarrow> 'w world_scheme api_env \<Rightarrow> identity \<Rightarrow> request \<Rightarrow> 'w world_scheme \<Rightarrow>
    response \<times> 'w world_scheme" where
  "submit S e a r w =
     (case decode (axAny S) (axSubmission S) r of
        Inl x \<Rightarrow> (writeError (iRequestID a) x, w)
      | Inr sub \<Rightarrow>
          if sKey sub \<noteq> [] then (writeError (iRequestID a) (bad_request ''use Idempotency-Key header for single submissions''), w)
          else case Accept (tkUnicode (axTool S)) (axSha S) (axCodec S) (evAccept e 0) (iClient a)
                      (sub\<lparr>sKey := go_get [] (rqHeader r) ''Idempotency-Key''\<rparr>) None (iSnapshot a) w of
            (Inl x, w1) \<Rightarrow> (writeError (iRequestID a) x, w1)
          | (Inr (n0, created), w1) \<Rightarrow>
              (case attempt_now S e a n0 created w1 of
                 (n, w2) \<Rightarrow>
                   let status = (if nStatus n = ''delivered'' \<or> nStatus n = ''failed'' then 200 else 202)
                   in (respond (iRequestID a) [(''Location'', ''/api/v1/notifications/'' @ ID_String (nID n))] status
                         (if nMode n = ''proxy'' \<and> status = 200 then ProxyBody n else NoteBody n), w2)))"

subsection \<open>Batches\<close>

definition item_code :: "error \<Rightarrow> string" where
  "item_code x =
     (case x of AppError code _ _ \<Rightarrow> code | ErrConflict \<Rightarrow> ''IDEMPOTENCY_CONFLICT'' | _ \<Rightarrow> ''DEPENDENCY_UNAVAILABLE'')"

definition batch_item ::
  "'w world_scheme server \<Rightarrow> 'w world_scheme api_env \<Rightarrow> identity \<Rightarrow> nat \<Rightarrow> string \<Rightarrow> 'w world_scheme \<Rightarrow>
    batch_result \<times> 'w world_scheme" where
  "batch_item S e a i raw w =
     (case Decode (axItem S) raw of
        Inl _ \<Rightarrow> (\<lparr>brKey = axItemKey S raw, brAccepted = False, brID = None, brCode = item_code (bad_request ''invalid batch item'')\<rparr>, w)
      | Inr sub \<Rightarrow>
          if sMode sub = ''proxy'' then
            (\<lparr>brKey = sKey sub, brAccepted = False, brID = None,
              brCode = item_code (bad_request ''batch only supports async delivery'')\<rparr>, w)
          else case Accept (tkUnicode (axTool S)) (axSha S) (axCodec S) (evAccept e i) (iClient a)
                      (sub\<lparr>sMode := ''async''\<rparr>) (Some (evBatchID e)) (iSnapshot a) w of
            (Inl x, w1) \<Rightarrow> (\<lparr>brKey = sKey sub, brAccepted = False, brID = None, brCode = item_code x\<rparr>, w1)
          | (Inr (n, _), w1) \<Rightarrow> (\<lparr>brKey = sKey sub, brAccepted = True, brID = Some (nID n), brCode = []\<rparr>, w1))"

fun batch_items ::
  "'w world_scheme server \<Rightarrow> 'w world_scheme api_env \<Rightarrow> identity \<Rightarrow> nat \<Rightarrow> string list \<Rightarrow> 'w world_scheme \<Rightarrow>
    batch_result list \<times> 'w world_scheme" where
  "batch_items S e a i [] w = ([], w)"
| "batch_items S e a i (raw # raws) w =
     (case batch_item S e a i raw (evBetween e i w) of
        (b, w1) \<Rightarrow> (case batch_items S e a (i + 1) raws w1 of (bs, w2) \<Rightarrow> (b # bs, w2)))"

definition batch ::
  "'w world_scheme server \<Rightarrow> 'w world_scheme api_env \<Rightarrow> identity \<Rightarrow> request \<Rightarrow> 'w world_scheme \<Rightarrow>
    response \<times> 'w world_scheme" where
  "batch S e a r w =
     (case decode (axAny S) (axItems S) r of
        Inl x \<Rightarrow> (writeError (iRequestID a) x, w)
      | Inr raws \<Rightarrow>
          if raws = [] \<or> length raws > 100 then (writeError (iRequestID a) (bad_request ''batch must contain 1..100 items''), w)
          else case take_quota (evQuota e) (iClient a) (iSnapshot a) (wQuota w) of
            (Some x, q) \<Rightarrow> (writeError (iRequestID a) x, w\<lparr>wQuota := q\<rparr>)
          | (None, q) \<Rightarrow>
              (case CreateBatch (evBatch e) (evBatchID e) (iClient a) (int (length raws)) (wDb w) of
                 (Inl x, d) \<Rightarrow> (writeError (iRequestID a) x, w\<lparr>wQuota := q, wDb := d\<rparr>)
               | (Inr _, d) \<Rightarrow>
                   (case batch_items S e a 0 raws (w\<lparr>wQuota := q, wDb := d\<rparr>) of
                      (results, w1) \<Rightarrow> (respond (iRequestID a) [] 202 (BatchBody (evBatchID e) results), w1))))"

subsection \<open>Reading\<close>

definition get_notification ::
  "'w world_scheme server \<Rightarrow> 'w world_scheme api_env \<Rightarrow> identity \<Rightarrow> string \<Rightarrow> 'w world_scheme \<Rightarrow>
    response \<times> 'w world_scheme" where
  "get_notification S e a text w =
     (case ParseID text of
        Inl _ \<Rightarrow> (writeError (iRequestID a) (bad_request ''invalid notification ID''), w)
      | Inr u \<Rightarrow>
          (case Get (axCodec S) (evGet e) u (iClient a) (wDb w) of
             Inl x \<Rightarrow> (writeError (iRequestID a) x, w)
           | Inr n \<Rightarrow>
               let w1 = evBetween e 0 w in
               (case Attempts (evAttempts e) u (wDb w1) of
                  Inl x \<Rightarrow> (writeError (iRequestID a) x, w1)
                | Inr as \<Rightarrow> (respond (iRequestID a) [] 200 (DetailBody n as), w1))))"

definition query_limit :: "string \<Rightarrow> nat option" where
  "query_limit v =
     (if v = [] then Some 50
      else case ParseInt v of None \<Rightarrow> None | Some i \<Rightarrow> if i < 1 \<or> i > 100 then None else Some (nat i))"

definition query_id :: "string \<Rightarrow> ID option option" where
  "query_id v = (if v = [] then Some None else case ParseID v of Inl _ \<Rightarrow> None | Inr u \<Rightarrow> Some (Some u))"

definition query_cursor :: "string \<Rightarrow> ID option option" where
  "query_cursor v =
     (if v = [] then Some None
      else case rawurl_decode v of
             None \<Rightarrow> None
           | Some b \<Rightarrow> (case ParseID b of Inl _ \<Rightarrow> None | Inr u \<Rightarrow> Some (Some u)))"

definition query_filter :: "(string \<times> string) list \<Rightarrow> Filter option" where
  "query_filter q =
     (let status = go_get [] q ''status'' in
      if status \<noteq> [] \<and> status \<notin> set [''pending'', ''in_flight'', ''delivered'', ''failed''] then None
      else case query_limit (go_get [] q ''limit'') of
        None \<Rightarrow> None
      | Some limit \<Rightarrow>
          (case query_id (go_get [] q ''batch_id'') of
             None \<Rightarrow> None
           | Some b \<Rightarrow>
               (case query_cursor (go_get [] q ''cursor'') of
                  None \<Rightarrow> None
                | Some c \<Rightarrow> Some \<lparr>fStatus = status, fTarget = go_get [] q ''target'', fBatch = b, fCursor = c, fLimit = limit\<rparr>)))"

definition list_notifications ::
  "'w world_scheme server \<Rightarrow> 'w world_scheme api_env \<Rightarrow> identity \<Rightarrow> request \<Rightarrow> 'w world_scheme \<Rightarrow>
    response \<times> 'w world_scheme" where
  "list_notifications S e a r w =
     (case query_filter (rqQuery r) of
        None \<Rightarrow> (writeError (iRequestID a) (bad_request ''invalid query filter or cursor''), w)
      | Some f \<Rightarrow>
          (case List_tasks (axCodec S) (evList e) (iClient a) (f\<lparr>fLimit := fLimit f + 1\<rparr>) (wDb w) of
             Inl x \<Rightarrow> (writeError (iRequestID a) x, w)
           | Inr items \<Rightarrow>
               (respond (iRequestID a) [] 200
                 (if length items > fLimit f
                  then ListBody (take (fLimit f) items)
                         (rawurl_encode (ID_String (nID (last (take (fLimit f) items)))))
                  else ListBody items []), w)))"

subsection \<open>Retrying\<close>

definition retry_notification ::
  "'w world_scheme server \<Rightarrow> 'w world_scheme api_env \<Rightarrow> identity \<Rightarrow> string \<Rightarrow> 'w world_scheme \<Rightarrow>
    response \<times> 'w world_scheme" where
  "retry_notification S e a action w =
     (if \<not> HasSuffix action '':retry'' then (writeError (iRequestID a) ErrNotFound, w)
      else case ParseID (TrimSuffix action '':retry'') of
        Inl _ \<Rightarrow> (writeError (iRequestID a) (bad_request ''invalid notification ID''), w)
      | Inr u \<Rightarrow>
          (case axManualRetry S of
             None \<Rightarrow> (writeError (iRequestID a) (Fail ''DEPENDENCY_UNAVAILABLE'' 503 ''retry unavailable''), w)
           | Some manual \<Rightarrow>
               (case manual (iClient a) u (iSnapshot a) w of
                  (Inl x, w1) \<Rightarrow> (writeError (iRequestID a) x, w1)
                | (Inr _, w1) \<Rightarrow>
                    let w2 = evBetween e 0 w1 in
                    (case Get (axCodec S) (evGet e) u (iClient a) (wDb w2) of
                       Inl x \<Rightarrow> (writeError (iRequestID a) x, w2)
                     | Inr n \<Rightarrow> (respond (iRequestID a) [] 202 (NoteBody n), w2)))))"

subsection \<open>Routing\<close>

datatype route = RSubmit | RBatch | RList | RGet string | RRetry string | ROther

definition api_route :: "string \<Rightarrow> string list \<Rightarrow> route" where
  "api_route meth segs =
     (if segs = [''api'', ''v1'', ''notifications:batch''] \<and> meth = ''POST'' then RBatch
      else if take 3 segs \<noteq> [''api'', ''v1'', ''notifications''] then ROther
      else case drop 3 segs of
        [] \<Rightarrow> if meth = ''POST'' then RSubmit else if meth \<in> set [''GET'', ''HEAD''] then RList else ROther
      | [x] \<Rightarrow>
          if x = ''/'' then ROther
          else if meth = ''POST'' then RRetry x else if meth \<in> set [''GET'', ''HEAD''] then RGet x else ROther
      | _ \<Rightarrow> ROther)"

definition Handler ::
  "'w world_scheme server \<Rightarrow> 'w world_scheme api_env \<Rightarrow> request \<Rightarrow> 'w world_scheme \<Rightarrow> response \<times> 'w world_scheme" where
  "Handler S e r w =
     (let snap = mCurrent (wManager w);
          rid = ID_String (evRequestID e)
      in case Authenticate (axJwt S) (evNow e) (go_get [] (rqHeader r) ''Authorization'') snap of
           Inl _ \<Rightarrow>
             (writeError rid (Fail ''UNAUTHORIZED'' 401 ''valid bearer JWT required''), w)
         | Inr client \<Rightarrow>
             let a = \<lparr>iClient = client, iSnapshot = the snap, iRequestID = rid\<rparr>
             in case api_route (rqMethod r) (rqSegments r) of
                  RSubmit \<Rightarrow> submit S e a r w
                | RBatch \<Rightarrow> batch S e a r w
                | RList \<Rightarrow> list_notifications S e a r w
                | RGet x \<Rightarrow> get_notification S e a x w
                | RRetry x \<Rightarrow> retry_notification S e a x w
                | ROther \<Rightarrow> (writeError (iRequestID a) (Fail ''INVALID_REQUEST'' 404 ''API route not found''), w))"

section \<open>What a response tells\<close>

fun notes_of :: "content \<Rightarrow> Notification list" where
  "notes_of (NoteBody n) = [n]"
| "notes_of (ProxyBody n) = [n]"
| "notes_of (DetailBody n as) = [n]"
| "notes_of (ListBody ns cursor) = ns"
| "notes_of (ErrorBody code message rid) = []"
| "notes_of (BatchBody u results) = []"

lemma respond_sel [simp]: "rsBody (respond rid hs status body) = body" "rsStatus (respond rid hs status body) = status"
  by (simp_all add: respond_def)

lemma notes_of_error [simp]: "notes_of (rsBody (writeError rid x)) = []"
  by (simp add: writeError_def split: prod.split)

lemma writeError_body [simp]: "rsBody (writeError rid x) \<noteq> DetailBody n as" "rsBody (writeError rid x) \<noteq> ListBody ns c"
  "rsBody (writeError rid x) \<noteq> BatchBody u bs"
  by (simp_all add: writeError_def split: prod.split)

lemma ByKey_own: "ByKey J failed client key d = Inr n \<Longrightarrow> nClient n = client"
  unfolding ByKey_def
  by (cases "find (\<lambda>r. tk_client r = client \<and> tk_key r = key) (tasks d)") (auto dest!: scan_row simp: find_Some_iff)

lemma Store_Accept_client:
  "Store_Accept J e n d = (Inr (m, created), d') \<Longrightarrow> nClient m = nClient n"
  by (auto simp: Store_Accept_def commit_def split: option.splits if_splits sum.splits dest: ByKey_own)

lemma Accept_client: "Accept U sha J v client sub b snap w = (Inr (n, created), w') \<Longrightarrow> nClient n = client"
  unfolding Accept_def Let_def
  by (auto split: if_splits sum.splits option.splits prod.splits dest: ByKey_own Store_Accept_client)

lemma attempt_now_client:
  "attempt_now S e a n created w = (n', w') \<Longrightarrow> nClient n = iClient a \<Longrightarrow> nClient n' = iClient a"
  by (auto simp: attempt_now_def Let_def split: option.splits if_splits sum.splits dest: Get_own)

lemma scan_rows_client:
  "scan_rows J rs = Inr ns \<Longrightarrow> (\<forall>r\<in>set rs. tk_client r = client) \<Longrightarrow> \<forall>n\<in>set ns. nClient n = client"
  by (auto dest!: scan_rows_in simp: Notification_of_def)

lemma List_tasks_client:
  assumes "List_tasks J e client f d = Inr ns"
  shows "\<forall>n\<in>set ns. nClient n = client"
proof -
  define rs where "rs = take (fLimit f) (rev (sort_key tk_id (filter (matches client f) (tasks d))))"
  have "\<forall>r\<in>set rs. tk_client r = client" by (auto simp: rs_def matches_def dest!: in_set_takeD)
  moreover have "scan_rows J rs = Inr ns" using assms by (auto simp: List_tasks_def rs_def split: if_splits sum.splits)
  ultimately show ?thesis by (rule scan_rows_client [rotated])
qed

lemma submit_discloses: "submit S e a r w = (resp, w') \<Longrightarrow> n \<in> set (notes_of (rsBody resp)) \<Longrightarrow> nClient n = iClient a"
  by (auto simp: submit_def Let_def split: sum.splits if_splits prod.splits dest!: Accept_client attempt_now_client)

lemma read_discloses:
  "get_notification S e a x w = (resp, w') \<Longrightarrow> n \<in> set (notes_of (rsBody resp)) \<Longrightarrow> nClient n = iClient a"
  "retry_notification S e a x w = (resp, w') \<Longrightarrow> n \<in> set (notes_of (rsBody resp)) \<Longrightarrow> nClient n = iClient a"
  by (auto simp: get_notification_def retry_notification_def Let_def split: sum.splits if_splits prod.splits option.splits
      dest: Get_own)

lemma list_discloses:
  "list_notifications S e a r w = (resp, w') \<Longrightarrow> n \<in> set (notes_of (rsBody resp)) \<Longrightarrow> nClient n = iClient a"
  by (auto simp: list_notifications_def split: sum.splits if_splits option.splits dest!: List_tasks_client in_set_takeD)

lemma batch_discloses: "batch S e a r w = (resp, w') \<Longrightarrow> notes_of (rsBody resp) = []"
  by (auto simp: batch_def split: sum.splits if_splits prod.splits option.splits)

lemma Handler_discloses:
  assumes "Handler S e r w = (resp, w')" and "n \<in> set (notes_of (rsBody resp))"
  shows "Authenticate (axJwt S) (evNow e) (go_get [] (rqHeader r) ''Authorization'') (mCurrent (wManager w)) = Inr (nClient n)"
  using assms submit_discloses [of S e _ r w resp w' n] batch_discloses [of S e _ r w resp w']
    list_discloses [of S e _ r w resp w' n] read_discloses [of S e _ _ w resp w' n]
  by (fastforce simp: Handler_def Let_def split: sum.splits route.splits)

section \<open>What a request changes\<close>

lemma Accept_keeps_foreign:
  assumes "Accept U sha J v client sub b snap w = (res, w')"
    and "foreign client (vMeanwhile v (wDb w)) = foreign client (wDb w)"
  shows "foreign client (wDb w') = foreign client (wDb w)"
  using Accept_db [OF assms(1)] Accept_foreign assms(2) by metis

lemma Retry_keeps_foreign:
  "Retry_Service K J c v e1 others e2 quota client u snap w = (res, w') \<Longrightarrow>
     foreign client (others (wDb w)) = foreign client (wDb w) \<Longrightarrow> foreign client (wDb w') = foreign client (wDb w)"
  using Retry_db ManualRetry_foreign by metis

text \<open>A fresh notification's identifier is no other client's.\<close>

lemma Accept_no_foreign:
  assumes run: "Accept U sha J v client sub b snap w = (Inr (n, True), w')"
    and others: "foreign client (vMeanwhile v (wDb w)) = foreign client (wDb w)"
  shows "no_foreign client (nID n) (wDb w')"
proof -
  from run obtain request encoded t where
    "Store_Accept J (vStore v) (new_notification (vNow v) (vFresh v) client (sKey sub) (sha encoded) b snap t
       (sub\<lparr>sRequest := request, sKey := []\<rparr>)) (vMeanwhile v (wDb w)) = (Inr (n, True), wDb w')"
    by (rule Accept_created) blast
  then have "\<not> list_ex (\<lambda>r. tk_id r = nID n \<or> tk_client r = nClient n \<and> tk_key r = nKey n) (tasks (vMeanwhile v (wDb w)))"
    by (rule Store_Accept_created) simp
  then have "no_foreign client (nID n) (vMeanwhile v (wDb w))" by (auto simp: no_foreign_def foreign_tasks_def list_ex_iff)
  then show ?thesis using Accept_keeps_foreign [OF run others] others by (metis no_foreign_keeps)
qed

text \<open>What the two functions of the service and the rest of the system leave alone.\<close>

definition confined :: "string \<Rightarrow> 'w world_scheme server \<Rightarrow> 'w world_scheme api_env \<Rightarrow> bool" where
  "confined client S e \<longleftrightarrow>
     (\<forall>k w. foreign client (wDb (evBetween e k w)) = foreign client (wDb w))
     \<and> (\<forall>k d. foreign client (vMeanwhile (evAccept e k) d) = foreign client d)
     \<and> (\<forall>proxy u g w. axProxy S = Some proxy \<and> no_foreign client u (wDb w) \<longrightarrow>
          foreign client (wDb (snd (proxy u g w))) = foreign client (wDb w))
     \<and> (\<forall>manual u snap w. axManualRetry S = Some manual \<longrightarrow>
          foreign client (wDb (snd (manual client u snap w))) = foreign client (wDb w))"

lemma confinedD:
  assumes "confined client S e"
  shows "foreign client (wDb (evBetween e k w)) = foreign client (wDb w)"
    and "axProxy S = Some proxy \<Longrightarrow> no_foreign client u (wDb w) \<Longrightarrow>
      foreign client (wDb (snd (proxy u g w))) = foreign client (wDb w)"
    and "axManualRetry S = Some manual \<Longrightarrow> manual client u snap w = (res, w') \<Longrightarrow> foreign client (wDb w') = foreign client (wDb w)"
    and "foreign client (vMeanwhile (evAccept e k) d) = foreign client d"
  using assms unfolding confined_def by (auto, (metis snd_conv)+)

lemma attempt_now_confined:
  assumes ok: "confined (iClient a) S e" and run: "attempt_now S e a n created w = (n', w')"
    and fresh: "created \<Longrightarrow> no_foreign (iClient a) (nID n) (wDb w)"
  shows "foreign (iClient a) (wDb w') = foreign (iClient a) (wDb w)"
proof (cases "\<exists>proxy. axProxy S = Some proxy \<and> created \<and> nMode n = ''proxy''")
  case True
  then obtain proxy where p: "axProxy S = Some proxy" "created" "nMode n = ''proxy''" by blast
  have "no_foreign (iClient a) (nID n) (wDb (evBetween e 0 w))"
    using no_foreign_keeps [OF fresh [OF p(2)] confinedD(1) [OF ok]] .
  from confinedD(2) [OF ok p(1) this] confinedD(1) [OF ok] p run show ?thesis
    by (auto simp: attempt_now_def Let_def)
qed (use run in \<open>auto simp: attempt_now_def split: option.splits\<close>)

lemma submit_confined:
  assumes ok: "confined (iClient a) S e" and run: "submit S e a r w = (resp, w')"
  shows "foreign (iClient a) (wDb w') = foreign (iClient a) (wDb w)"
  using run attempt_now_confined [OF ok] Accept_keeps_foreign [OF _ confinedD(4) [OF ok]] Accept_no_foreign [OF _ confinedD(4) [OF ok]]
  by (fastforce simp: submit_def Let_def split: sum.splits if_splits prod.splits)

lemma batch_item_foreign:
  assumes ok: "confined (iClient a) S e" and "batch_item S e a i raw w = (b, w')"
  shows "foreign (iClient a) (wDb w') = foreign (iClient a) (wDb w)"
  using assms(2) Accept_keeps_foreign [OF _ confinedD(4) [OF ok]] by (fastforce simp: batch_item_def split: sum.splits if_splits prod.splits)

lemma batch_items_confined:
  assumes "confined (iClient a) S e"
  shows "batch_items S e a i raws w = (bs, w') \<Longrightarrow> foreign (iClient a) (wDb w') = foreign (iClient a) (wDb w)"
proof (induction raws arbitrary: i w bs)
  case (Cons raw raws)
  obtain b w1 where b: "batch_item S e a i raw (evBetween e i w) = (b, w1)" by (rule prod.exhaust)
  then obtain bs1 where "batch_items S e a (i + 1) raws w1 = (bs1, w')" using Cons.prems by (auto split: prod.splits)
  from Cons.IH [OF this] batch_item_foreign [OF assms b] confinedD(1) [OF assms] show ?case by simp
qed simp

lemma batch_confined:
  assumes ok: "confined (iClient a) S e" and run: "batch S e a r w = (resp, w')"
  shows "foreign (iClient a) (wDb w') = foreign (iClient a) (wDb w)"
  using run batch_items_confined [OF ok] CreateBatch_foreign
  by (fastforce simp: batch_def split: sum.splits if_splits prod.splits option.splits)

lemma read_confined:
  assumes ok: "confined (iClient a) S e"
  shows "get_notification S e a x w = (resp, w') \<Longrightarrow> foreign (iClient a) (wDb w') = foreign (iClient a) (wDb w)"
    and "retry_notification S e a x w = (resp, w') \<Longrightarrow> foreign (iClient a) (wDb w') = foreign (iClient a) (wDb w)"
  using confinedD(1,3) [OF ok]
  by (fastforce simp: get_notification_def retry_notification_def Let_def
      split: sum.splits if_splits prod.splits option.splits)+

lemma list_keeps: "list_notifications S e a r w = (resp, w') \<Longrightarrow> w' = w"
  by (auto simp: list_notifications_def split: sum.splits option.splits)

lemma Handler_confined:
  assumes ok: "confined client S e" and run: "Handler S e r w = (resp, w')"
    and auth: "Authenticate (axJwt S) (evNow e) (go_get [] (rqHeader r) ''Authorization'') (mCurrent (wManager w)) = Inr client"
  shows "foreign client (wDb w') = foreign client (wDb w)"
proof -
  define a where "a = \<lparr>iClient = client, iSnapshot = the (mCurrent (wManager w)), iRequestID = ID_String (evRequestID e)\<rparr>"
  have c: "iClient a = client" by (simp add: a_def)
  note facts = submit_confined batch_confined read_confined
  from run auth show ?thesis
    using facts [of a S e, unfolded c, OF ok] list_keeps [of S e a]
    by (fastforce simp: Handler_def Let_def simp flip: a_def split: route.splits)
qed

text \<open>An unauthenticated request is refused before it touches anything.\<close>

lemma Handler_unauthenticated:
  assumes "Authenticate (axJwt S) (evNow e) (go_get [] (rqHeader r) ''Authorization'') (mCurrent (wManager w)) = Inl x"
  shows "\<exists>resp. Handler S e r w = (resp, w) \<and> rsStatus resp = 401 \<and> notes_of (rsBody resp) = []"
  using assms by (simp add: Handler_def Let_def writeError_def api_error_def Fail_def)

section \<open>A request as one of many\<close>

definition paced :: "nat \<Rightarrow> nat \<Rightarrow> 'w world_scheme server \<Rightarrow> 'w world_scheme api_env \<Rightarrow> bool" where
  "paced N P S e \<longleftrightarrow>
     (\<forall>k w. db_path (axCodec S) N (wDb w) (wDb (evBetween e k w)))
     \<and> (\<forall>k d. db_path (axCodec S) N d (vMeanwhile (evAccept e k) d))
     \<and> (\<forall>proxy u g w. axProxy S = Some proxy \<longrightarrow> db_path (axCodec S) P (wDb w) (wDb (snd (proxy u g w))))
     \<and> (\<forall>manual client u snap w. axManualRetry S = Some manual \<longrightarrow>
          db_path (axCodec S) (N + 1) (wDb w) (wDb (snd (manual client u snap w))))"

lemma pacedD:
  assumes "paced N P S e"
  shows "db_path (axCodec S) N (wDb w) (wDb (evBetween e k w))"
    and "axProxy S = Some proxy \<Longrightarrow> db_path (axCodec S) P (wDb w) (wDb (snd (proxy u g w)))"
    and "axManualRetry S = Some manual \<Longrightarrow> manual client u snap w = (res, w') \<Longrightarrow>
      db_path (axCodec S) (N + 1) (wDb w) (wDb w')"
    and "db_path (axCodec S) N d (vMeanwhile (evAccept e k) d)"
  using assms unfolding paced_def by (auto, metis snd_conv)

lemma attempt_now_path:
  assumes ok: "paced N P S e" and run: "attempt_now S e a n created w = (n', w')"
  shows "db_path (axCodec S) (2 * N + P) (wDb w) (wDb w')"
proof (cases "\<exists>proxy. axProxy S = Some proxy \<and> created \<and> nMode n = ''proxy''")
  case True
  then obtain proxy where p: "axProxy S = Some proxy" "created" "nMode n = ''proxy''" by blast
  have "db_path (axCodec S) (N + P + N) (wDb w) (wDb w')"
    using db_path_trans [OF db_path_trans [OF pacedD(1) [OF ok] pacedD(2) [OF ok p(1)]] pacedD(1) [OF ok]] p run
    by (auto simp: attempt_now_def Let_def)
  then show ?thesis by (rule db_path_mono) simp
qed (use run in \<open>auto simp: attempt_now_def split: option.splits\<close>)

lemma batch_item_path:
  assumes ok: "paced N P S e" and "batch_item S e a i raw w = (b, w')"
  shows "db_path (axCodec S) (N + 1) (wDb w) (wDb w')"
  using assms(2) by (auto simp: batch_item_def split: sum.splits if_splits prod.splits dest: Accept_path [OF _ pacedD(4) [OF ok]])

lemma batch_items_path:
  assumes ok: "paced N P S e"
  shows "batch_items S e a i raws w = (bs, w') \<Longrightarrow> db_path (axCodec S) (length raws * (2 * N + 1)) (wDb w) (wDb w')"
proof (induction raws arbitrary: i w bs)
  case (Cons raw raws)
  obtain b w1 where b: "batch_item S e a i raw (evBetween e i w) = (b, w1)" by (rule prod.exhaust)
  from db_path_trans [OF pacedD(1) [OF ok] batch_item_path [OF ok b]]
  have p1: "db_path (axCodec S) (2 * N + 1) (wDb w) (wDb w1)" by (rule db_path_mono) simp
  from b obtain bs1 where "batch_items S e a (i + 1) raws w1 = (bs1, w')" using Cons.prems by (auto split: prod.splits)
  from db_path_trans [OF p1 Cons.IH [OF this]] show ?case by (simp add: add_ac)
qed simp

lemma submit_path:
  assumes ok: "paced N P S e" and run: "submit S e a r w = (resp, w')"
  shows "db_path (axCodec S) (3 * N + P + 1) (wDb w) (wDb w')"
proof -
  consider "w' = w" | sub res w1 where
    "Accept (tkUnicode (axTool S)) (axSha S) (axCodec S) (evAccept e 0) (iClient a) sub None (iSnapshot a) w = (res, w1)"
    "w' = w1 \<or> (\<exists>n n' created. attempt_now S e a n created w1 = (n', w'))"
    using run unfolding submit_def Let_def by (simp split: sum.splits if_splits prod.splits) blast+
  then show ?thesis
  proof cases
    case 2
    have "db_path (axCodec S) (2 * N + P) (wDb w1) (wDb w')" using 2(2) attempt_now_path [OF ok] by auto
    from db_path_trans [OF Accept_path [OF 2(1) pacedD(4) [OF ok]] this] show ?thesis by (rule db_path_mono) simp
  qed simp
qed

lemma batch_path:
  assumes ok: "paced N P S e" and run: "batch S e a r w = (resp, w')"
  shows "db_path (axCodec S) (100 * (2 * N + 1) + 1) (wDb w) (wDb w')"
proof -
  consider "wDb w' = wDb w" | res where "CreateBatch (evBatch e) (evBatchID e) (iClient a) res (wDb w) = (Inl driver_error, wDb w')"
    | raws q d bs where "length raws \<le> 100" "CreateBatch (evBatch e) (evBatchID e) (iClient a) (int (length raws)) (wDb w) = (Inr (), d)"
      "batch_items S e a 0 raws (w\<lparr>wQuota := q, wDb := d\<rparr>) = (bs, w')"
    using run by (auto simp: batch_def CreateBatch_def commit_def not_less split: sum.splits if_splits prod.splits option.splits)
  then show ?thesis
  proof cases
    case 1
    then show ?thesis by simp
  next
    case (2 k)
    from db_path_simple(1) [OF 2] show ?thesis by (rule db_path_mono) simp
  next
    case (3 raws q d bs)
    from db_path_trans [OF db_path_simple(1) [OF 3(2)] batch_items_path [OF ok 3(3), simplified]]
    show ?thesis by (rule db_path_mono) (use mult_le_mono1 [OF 3(1), of "2 * N + 1"] in simp)
  qed
qed

lemma read_path:
  assumes ok: "paced N P S e"
  shows "get_notification S e a x w = (resp, w') \<Longrightarrow> db_path (axCodec S) N (wDb w) (wDb w')"
    and "retry_notification S e a x w = (resp, w') \<Longrightarrow> db_path (axCodec S) (2 * N + 1) (wDb w) (wDb w')"
proof -
  show "db_path (axCodec S) N (wDb w) (wDb w')" if "get_notification S e a x w = (resp, w')"
    using that pacedD(1) [OF ok] by (auto simp: get_notification_def Let_def split: sum.splits)
  show "db_path (axCodec S) (2 * N + 1) (wDb w) (wDb w')" if run: "retry_notification S e a x w = (resp, w')"
  proof -
    consider "w' = w" | manual u res w1 where "axManualRetry S = Some manual" "manual (iClient a) u (iSnapshot a) w = (res, w1)"
        "w' = w1 \<or> w' = evBetween e 0 w1"
      using run unfolding retry_notification_def Let_def
      by (simp split: sum.splits if_splits prod.splits option.splits)
    then show ?thesis
    proof cases
      case 2
      have "db_path (axCodec S) N (wDb w1) (wDb w')" using 2(3) pacedD(1) [OF ok] by auto
      from db_path_trans [OF pacedD(3) [OF ok 2(1,2)] this] show ?thesis by (rule db_path_mono) simp
    qed simp
  qed
qed

lemma Handler_path:
  assumes ok: "paced N P S e" and run: "Handler S e r w = (resp, w')"
  shows "db_path (axCodec S) (P + 202 * (N + 1)) (wDb w) (wDb w')"
proof -
  consider "w' = w" | a where "submit S e a r w = (resp, w')" | a where "batch S e a r w = (resp, w')"
    | a x where "get_notification S e a x w = (resp, w')" | a x where "retry_notification S e a x w = (resp, w')"
    using run list_keeps unfolding Handler_def Let_def by (simp split: sum.splits route.splits) blast+
  then show ?thesis
    by cases (auto intro: db_path_mono [OF submit_path [OF ok]] db_path_mono [OF batch_path [OF ok]]
        db_path_mono [OF read_path(1) [OF ok]] db_path_mono [OF read_path(2) [OF ok]])
qed

end
