(* ===== verification/Contract.thy ===== *)
theory Contract
  imports Api
begin

text \<open>
  The contract of the HTTP interface, \<^verbatim>\<open>api/openapi.yaml\<close>: the error codes, and which status and which
  body each operation may answer with.
\<close>

section \<open>The document\<close>

definition openapi_codes :: "string list" where
  "openapi_codes = [''INVALID_REQUEST'', ''UNAUTHORIZED'', ''FORBIDDEN'', ''TARGET_NOT_FOUND'', ''TARGET_NOT_ALLOWED'',
     ''TARGET_DISABLED'', ''IDEMPOTENCY_CONFLICT'', ''QUOTA_EXCEEDED'', ''DEPENDENCY_UNAVAILABLE'',
     ''NOTIFICATION_NOT_FOUND'', ''INVALID_STATE'', ''INTERNAL_ERROR'']"

definition terminal :: "Notification \<Rightarrow> bool" where
  "terminal n \<longleftrightarrow> nStatus n = ''delivered'' \<or> nStatus n = ''failed''"

definition located :: "Notification \<Rightarrow> response \<Rightarrow> bool" where
  "located n resp \<longleftrightarrow> map_of (rsHeader resp) ''Location'' = Some (''/api/v1/notifications/'' @ ID_String (nID n))"

text \<open>An entry of a batch answer has either the identifier or an error code.\<close>

definition entry_ok :: "batch_result \<Rightarrow> bool" where
  "entry_ok b \<longleftrightarrow> (if brAccepted b then brID b \<noteq> None \<and> brCode b = [] else brID b = None \<and> brCode b \<in> set openapi_codes)"

definition conforms :: "route \<Rightarrow> string \<Rightarrow> response \<Rightarrow> bool" where
  "conforms route rid resp \<longleftrightarrow>
     map_of (rsHeader resp) ''X-Request-Id'' = Some rid \<and> map_of (rsHeader resp) ''Cache-Control'' = Some ''no-store''
     \<and> map_of (rsHeader resp) ''Content-Type'' = Some ''application/json''
     \<and> (case rsBody resp of
          ErrorBody code message rid' \<Rightarrow>
            rid' = rid \<and> code \<in> set openapi_codes \<and> 400 \<le> rsStatus resp \<and> rsStatus resp < 600
            \<and> (map_of (rsHeader resp) ''Retry-After'' \<noteq> None \<longleftrightarrow> rsStatus resp = 429)
        | NoteBody n \<Rightarrow>
            route = RSubmit \<and> rsStatus resp = (if terminal n then 200 else 202) \<and> located n resp
            \<or> (\<exists>x. route = RRetry x) \<and> rsStatus resp = 202
        | ProxyBody n \<Rightarrow> route = RSubmit \<and> rsStatus resp = 200 \<and> terminal n \<and> nMode n = ''proxy'' \<and> located n resp
        | BatchBody u bs \<Rightarrow> route = RBatch \<and> rsStatus resp = 202 \<and> 1 \<le> length bs \<and> length bs \<le> 100 \<and> list_all entry_ok bs
        | DetailBody n as \<Rightarrow> (\<exists>x. route = RGet x) \<and> rsStatus resp = 200 \<and> length as \<le> 100
        | ListBody ns cursor \<Rightarrow> route = RList \<and> rsStatus resp = 200 \<and> length ns \<le> 100)"

section \<open>Which errors occur\<close>

definition listed :: "error \<Rightarrow> bool" where
  "listed x \<longleftrightarrow> (case x of AppError code status message \<Rightarrow> code \<in> set openapi_codes \<and> 400 \<le> status \<and> status < 600 | _ \<Rightarrow> True)"

lemma listed_simps [simp]: "listed ErrNotFound" "listed ErrConflict" "listed ErrState" "listed ErrNoRows" "listed (OtherError s)"
  "listed (fails s)" "listed driver_error" "listed json_error" "listed control_error"
  "listed (Fail code status message) \<longleftrightarrow> code \<in> set openapi_codes \<and> 400 \<le> status \<and> status < 600"
  by (simp_all add: listed_def fails_def driver_error_def json_error_def control_error_def Fail_def)

lemma codes_in [simp]: "''INVALID_REQUEST'' \<in> set openapi_codes" "''UNAUTHORIZED'' \<in> set openapi_codes" "''FORBIDDEN'' \<in> set openapi_codes"
  "''TARGET_NOT_FOUND'' \<in> set openapi_codes" "''TARGET_NOT_ALLOWED'' \<in> set openapi_codes" "''TARGET_DISABLED'' \<in> set openapi_codes"
  "''IDEMPOTENCY_CONFLICT'' \<in> set openapi_codes" "''QUOTA_EXCEEDED'' \<in> set openapi_codes"
  "''DEPENDENCY_UNAVAILABLE'' \<in> set openapi_codes" "''NOTIFICATION_NOT_FOUND'' \<in> set openapi_codes" "''INVALID_STATE'' \<in> set openapi_codes"
  by (simp_all add: openapi_codes_def)

lemma item_code_listed: "listed x \<Longrightarrow> item_code x \<in> set openapi_codes"
  by (auto simp: item_code_def listed_def split: error.splits)

lemma scan_listed: "scan J failed row = Inl x \<Longrightarrow> listed x"
  by (auto simp: scan_def split: if_splits option.splits)

lemma scan_rows_listed: "scan_rows J rs = Inl x \<Longrightarrow> listed x"
  by (induction rs arbitrary: x) (auto dest: scan_listed split: sum.splits)

lemma store_listed:
  "Get J e u client d = Inl x \<Longrightarrow> listed x" "ByKey J failed client key d = Inl x \<Longrightarrow> listed x" "Attempts e u d = Inl x \<Longrightarrow> listed x"
  "List_tasks J e client f d = Inl x \<Longrightarrow> listed x" "CreateBatch e u client k d = (Inl x, d') \<Longrightarrow> listed x"
  by (auto simp: Get_def ByKey_def Attempts_def List_tasks_def CreateBatch_def commit_def
      dest: scan_listed scan_rows_listed split: if_splits sum.splits)

lemma Store_Accept_listed: "Store_Accept J e n d = (Inl x, d') \<Longrightarrow> listed x"
  by (auto simp: Store_Accept_def commit_def insertEvent_def Let_def split: option.splits if_splits sum.splits dest: store_listed(2))

lemma ManualRetry_listed: "Store_ManualRetry J e n dur d = (Inl x, d') \<Longrightarrow> listed x"
  by (auto simp: Store_ManualRetry_def update_one_def event_commit_def commit_def insertEvent_def Let_def
      split: option.splits if_splits sum.splits)

lemma check_listed:
  "Allowed snap client target = (t, Some x) \<Longrightarrow> listed x" "policy_error U t sub = Some x \<Longrightarrow> listed x"
  "take_quota q client snap st = (Some x, st') \<Longrightarrow> listed x"
  by (auto simp: Allowed_def policy_error_def take_quota_def split: option.splits if_splits prod.splits sum.splits bool.splits)

lemma Accept_listed: "Accept U sha J v client sub b snap w = (Inl x, w') \<Longrightarrow> listed x"
  unfolding Accept_def Let_def
  by (auto split: if_splits sum.splits option.splits prod.splits dest: store_listed(2) dest!: Store_Accept_listed check_listed)

lemma guards_listed: "guards gs = Some x \<Longrightarrow> listed x"
  by (induction gs rule: guards.induct) (auto simp: guards.simps split: if_splits)

lemma each_listed: "each body xs = Some x \<Longrightarrow> (\<And>y z. body y = Some z \<Longrightarrow> listed z) \<Longrightarrow> listed x"
  by (auto simp: each_def split: option.splits)

lemma fill_listed: "fill body m = Inl x \<Longrightarrow> (\<And>y z. body y = Inl z \<Longrightarrow> listed z) \<Longrightarrow> listed x"
  by (induction body m rule: fill.induct) (auto split: sum.splits)

lemma build_parts_listed:
  "check_retry y = Some x \<Longrightarrow> listed x" "check_quotas g qs = Some x \<Longrightarrow> listed x" "check_client doc cl = Some x \<Longrightarrow> listed x"
  "check_injection U t ij = Some x \<Longrightarrow> listed x" "build_hook K h = Inl x \<Longrightarrow> listed x" "build_key K c iss k = Inl x \<Longrightarrow> listed x"
proof -
  show "check_quotas g qs = Some x \<Longrightarrow> listed x"
    by (induction g qs rule: check_quotas.induct) (auto split: if_splits option.splits)
qed (auto simp: check_retry_def check_client_def check_injection_def build_hook_def build_key_def dest: guards_listed
    split: prod.splits if_splits option.splits pubkey.splits)

lemma check_target_listed: "check_target K doc c = Some x \<Longrightarrow> listed x"
  by (auto simp: check_target_def dest: guards_listed each_listed [OF _ build_parts_listed(4)] split: prod.splits if_splits option.splits)

lemma build_issuer_listed: "build_issuer K c = Inl x \<Longrightarrow> listed x"
  by (auto simp: build_issuer_def dest: fill_listed [OF _ build_parts_listed(6)] split: prod.splits if_splits)

lemma Build_listed: "Build K e now rv b = Inl x \<Longrightarrow> listed x"
  unfolding Build_def Decode_def
  by (auto split: sum.splits option.splits if_splits prod.splits
      dest: fill_listed [OF _ build_parts_listed(5)] each_listed [OF _ build_parts_listed(1)] build_parts_listed(2)
        each_listed [OF _ check_target_listed] each_listed [OF _ build_parts_listed(3)] fill_listed [OF _ build_issuer_listed])

lemma Retry_listed:
  assumes "Retry_Service K J c v e1 others e2 quota client u snap w = (Inl x, w')"
  shows "listed x"
proof -
  have h: "History K c v rv m = (Inl y, m') \<Longrightarrow> listed y" for rv m y m'
    by (auto simp: History_def dest: Build_listed split: option.splits if_splits sum.splits)
  from assms show ?thesis unfolding Retry_Service_def
    by (auto split: if_splits sum.splits option.splits prod.splits dest: store_listed(1) h ManualRetry_listed dest!: check_listed)
qed

section \<open>Every answer conforms\<close>

lemma respond_headers [simp]:
  "map_of (rsHeader (respond rid hs status body)) ''X-Request-Id'' = Some rid"
  "map_of (rsHeader (respond rid hs status body)) ''Cache-Control'' = Some ''no-store''"
  "''Content-Type'' \<notin> fst ` set hs \<Longrightarrow> map_of (rsHeader (respond rid hs status body)) ''Content-Type'' = Some ''application/json''"
  "k \<noteq> ''X-Request-Id'' \<Longrightarrow> k \<noteq> ''Cache-Control'' \<Longrightarrow> k \<noteq> ''Content-Type'' \<Longrightarrow>
     map_of (rsHeader (respond rid hs status body)) k = map_of hs k"
proof -
  show "map_of (rsHeader (respond rid hs status body)) ''Content-Type'' = Some ''application/json''" if "''Content-Type'' \<notin> fst ` set hs"
    using that unfolding map_of_eq_None_iff [symmetric] by (simp add: respond_def map_add_def)
qed (auto simp: respond_def map_add_def split: option.splits)

lemma error_conforms:
  assumes "listed x"
  shows "conforms route rid (writeError rid x)"
  using assms unfolding writeError_def conforms_def
  by (auto simp: api_error_def listed_def split: error.splits if_splits)

lemma decode_listed: "decode any_value value r = Inl x \<Longrightarrow> listed x"
  by (auto simp: decode_def Let_def split: decoded.splits if_splits)

lemma bad_request_listed [simp]: "listed (bad_request message)"
  by (simp add: bad_request_def)

lemma submit_conforms:
  assumes "submit S e a r w = (resp, w')"
  shows "conforms RSubmit (iRequestID a) resp"
proof -
  let ?at = "\<lambda>n. [(''Location'', ''/api/v1/notifications/'' @ ID_String (nID n))]"
  have answer: "terminal n \<Longrightarrow> conforms RSubmit (iRequestID a) (respond (iRequestID a) (?at n) 200 (NoteBody n))"
    "\<not> terminal n \<Longrightarrow> conforms RSubmit (iRequestID a) (respond (iRequestID a) (?at n) 202 (NoteBody n))"
    "terminal n \<Longrightarrow> nMode n = ''proxy'' \<Longrightarrow> conforms RSubmit (iRequestID a) (respond (iRequestID a) (?at n) 200 (ProxyBody n))" for n
    by (simp_all add: conforms_def located_def)
  from assms show ?thesis unfolding submit_def Let_def terminal_def [symmetric]
    by (auto simp del: append_Cons split: sum.splits if_split_asm prod.splits intro!: error_conforms answer
        dest: decode_listed Accept_listed)
qed

lemma batch_item_entry: "batch_item S e a i raw w = (b, w') \<Longrightarrow> entry_ok b"
  by (auto simp: batch_item_def entry_ok_def intro!: item_code_listed split: sum.splits if_splits prod.splits dest: Accept_listed)

lemma batch_items_entries: "batch_items S e a i raws w = (bs, w') \<Longrightarrow> list_all entry_ok bs \<and> length bs = length raws"
proof (induction raws arbitrary: i w bs w')
  case (Cons raw raws)
  obtain b w1 where b: "batch_item S e a i raw (evBetween e i w) = (b, w1)" by (rule prod.exhaust)
  obtain bs1 w2 where rest: "batch_items S e a (i + 1) raws w1 = (bs1, w2)" by (rule prod.exhaust)
  from Cons.IH [OF rest] batch_item_entry [OF b] b rest Cons.prems show ?case by auto
qed simp

lemma batch_conforms:
  assumes "batch S e a r w = (resp, w')"
  shows "conforms RBatch (iRequestID a) resp"
proof -
  have "conforms RBatch (iRequestID a) (respond (iRequestID a) [] 202 (BatchBody u bs))"
    if "list_all entry_ok bs" "length bs = length raws" "raws \<noteq> []" "length raws \<le> 100" for u bs and raws :: "string list"
    using that by (cases bs) (auto simp: conforms_def)
  with assms show ?thesis unfolding batch_def
    by (auto simp: not_less split: sum.splits if_splits prod.splits option.splits intro: error_conforms
        dest: decode_listed check_listed(3) store_listed(5) batch_items_entries)
qed

lemma get_conforms: "get_notification S e a x w = (resp, w') \<Longrightarrow> conforms (RGet y) (iRequestID a) resp"
  unfolding get_notification_def Let_def
  by (auto split: sum.splits intro: error_conforms dest: store_listed) (auto simp: conforms_def Attempts_def split: if_splits)

lemma query_limit_le: "query_filter q = Some f \<Longrightarrow> fLimit f \<le> 100"
  by (auto simp: query_filter_def query_limit_def Let_def split: if_splits option.splits)

lemma list_conforms: "list_notifications S e a r w = (resp, w') \<Longrightarrow> conforms RList (iRequestID a) resp"
  unfolding list_notifications_def
  by (auto split: sum.splits option.splits if_splits intro: error_conforms dest: store_listed)
    (auto simp: conforms_def dest: query_limit_le)

definition retry_listed :: "'w server \<Rightarrow> bool" where
  "retry_listed S \<longleftrightarrow> (\<forall>manual client u snap w x w'. axManualRetry S = Some manual \<and> manual client u snap w = (Inl x, w') \<longrightarrow> listed x)"

lemma retry_conforms:
  assumes "retry_notification S e a x w = (resp, w')" and "retry_listed S"
  shows "conforms (RRetry y) (iRequestID a) resp"
proof -
  have "conforms (RRetry y) (iRequestID a) (respond (iRequestID a) [] 202 (NoteBody n))" for n by (simp add: conforms_def)
  moreover have "listed z" if "axManualRetry S = Some manual" "manual (iClient a) u (iSnapshot a) w = (Inl z, w1)" for manual u z w1
    using assms(2) that unfolding retry_listed_def by blast
  ultimately show ?thesis using assms(1) unfolding retry_notification_def Let_def
    by (auto split: sum.splits if_splits option.splits prod.splits intro!: error_conforms dest: store_listed(1))
qed

lemma Handler_conforms:
  assumes "Handler S e r w = (resp, w')" and "retry_listed S"
  shows "conforms (api_route (rqMethod r) (rqSegments r)) (ID_String (evRequestID e)) resp"
proof -
  note routes = submit_conforms batch_conforms list_conforms get_conforms retry_conforms [OF _ assms(2)]
  from assms(1) show ?thesis unfolding Handler_def Let_def
    by (auto split: sum.splits route.splits intro!: error_conforms dest: routes)
qed

end
