(* ===== verification/ApiProps.thy ===== *)
theory ApiProps
  imports Contract
begin

text \<open>
  What a client of the HTTP interface can rely on: the pages of a listing put together are the whole
  listing, and every item of a batch is answered for.
\<close>

section \<open>Cursors round trip\<close>

lemma b64_char_pad: "n < 64 \<Longrightarrow> b64_char n \<noteq> CHR ''=''"
  using b64_table by (simp add: list_all_iff)

lemma b64_unpad:
  "let t = filter (\<lambda>c. c \<noteq> CHR ''='') (b64_encode s); k = length t mod 4
   in k \<noteq> 1 \<and> t @ replicate ((4 - k) mod 4) (CHR ''='') = b64_encode s"
  unfolding Let_def
proof (induction s rule: b64_encode.induct)
  case (4 a b c rest)
  then show ?case by (simp add: b64_char_pad six)
qed (simp_all add: b64_char_pad six numeral_2_eq_2)

lemma b64_url_table:
  "list_all (\<lambda>n. b64_char n \<noteq> CHR ''-'' \<and> b64_char n \<noteq> CHR ''_'' \<and> from_url (to_url (b64_char n)) = b64_char n
     \<and> to_url (b64_char n) \<notin> set ''+/='' \<and> to_url (b64_char n) \<noteq> CHR 0x0D \<and> to_url (b64_char n) \<noteq> CHR 0x0A) [0..<64]"
  by code_simp

lemma b64_encode_chars: "set (b64_encode s) \<subseteq> insert (CHR ''='') (b64_char ` {..<64})"
  by (induction s rule: b64_encode.induct) (auto simp: six intro!: imageI)

lemma url_char:
  assumes "c \<in> set (b64_encode s)" and "c \<noteq> CHR ''=''"
  shows "from_url (to_url c) = c" "to_url c \<notin> set ''+/=''" "to_url c \<noteq> CHR 0x0D \<and> to_url c \<noteq> CHR 0x0A"
proof -
  from assms b64_encode_chars [of s] obtain n where "n < 64" "c = b64_char n" by auto
  then show "from_url (to_url c) = c" "to_url c \<notin> set ''+/=''" "to_url c \<noteq> CHR 0x0D \<and> to_url c \<noteq> CHR 0x0A"
    using b64_url_table unfolding list_all_iff by force+
qed

lemma b64_quanta_encode: "b64_quanta (b64_encode s) = Some s"
  using b64_roundtrip [of s] unfolding b64_decode_def b64_encode_plain .

lemma rawurl_roundtrip: "rawurl_decode (rawurl_encode s) = Some s"
proof -
  define t where "t = filter (\<lambda>c. c \<noteq> CHR ''='') (b64_encode s)"
  have f: "filter (\<lambda>c. c \<noteq> CHR 0x0D \<and> c \<noteq> CHR 0x0A) (map to_url t) = map to_url t"
    using url_char(3) by (auto simp: t_def filter_id_conv)
  have m: "map from_url (map to_url t) = t" by (auto simp: t_def comp_def intro!: map_idI url_char(1))
  have n: "\<not> list_ex (\<lambda>c. c \<in> set ''+/='') (map to_url t)" using url_char(2) by (auto simp: list_ex_iff t_def)
  have "length t mod 4 \<noteq> 1" "b64_quanta (t @ replicate ((4 - length t mod 4) mod 4) (CHR ''='')) = Some s"
    using b64_unpad [of s] b64_quanta_encode [of s] by (simp_all add: Let_def flip: t_def)
  with f m n show ?thesis
    unfolding rawurl_decode_def rawurl_encode_def t_def [symmetric] Let_def f m by simp
qed

lemma cursor_roundtrip:
  assumes "length z = 16"
  shows "query_cursor (rawurl_encode (ID_String z)) = Some (Some z)" and "rawurl_encode (ID_String z) \<noteq> []"
proof -
  have "ID_String z \<noteq> []" by (simp add: ID_String_def Let_def)
  then show ne: "rawurl_encode (ID_String z) \<noteq> []"
    using rawurl_roundtrip [of "ID_String z"] by (auto simp: rawurl_decode_def)
  show "query_cursor (rawurl_encode (ID_String z)) = Some (Some z)"
    using ne by (simp add: query_cursor_def rawurl_roundtrip ParseID_ID_String [OF assms])
qed

section \<open>Following the cursors\<close>

text \<open>A client that follows \<^verbatim>\<open>next_cursor\<close>; the flag says whether it came to the end.\<close>

fun walk :: "(string \<Rightarrow> response) \<Rightarrow> nat \<Rightarrow> string \<Rightarrow> Notification list \<times> bool" where
  "walk page 0 cursor = ([], False)"
| "walk page (Suc k) cursor =
     (case rsBody (page cursor) of
        ListBody items nxt \<Rightarrow>
          if nxt = [] then (items, True) else (case walk page k nxt of (ns, ended) \<Rightarrow> (items @ ns, ended))
      | _ \<Rightarrow> ([], False))"

lemma scan_rows_parts:
  "scan_rows J rs = Inr ns \<Longrightarrow> map nID ns = map tk_id rs \<and> (\<forall>k. scan_rows J (take k rs) = Inr (take k ns) \<and> scan_rows J (drop k rs) = Inr (drop k ns))"
proof (induction J rs arbitrary: ns rule: scan_rows.induct)
  case (2 J r rs)
  then obtain n ms where n: "scan J False (Some r) = Inr n" "scan_rows J rs = Inr ms" "ns = n # ms"
    by (auto split: sum.splits)
  with 2 have "map nID ms = map tk_id rs" "scan_rows J (take k rs) = Inr (take k ms) \<and> scan_rows J (drop k rs) = Inr (drop k ms)" for k
    by auto
  with n scan_row [OF n(1)] show ?case by (auto simp: take_Cons' drop_Cons')
qed simp

definition listing :: "string \<Rightarrow> Filter \<Rightarrow> db \<Rightarrow> task list" where
  "listing client f d = rev (sort_key tk_id (filter (matches client f) (tasks d)))"

lemma listing_cursor:
  assumes "fCursor f = None"
  shows "listing client (f\<lparr>fCursor := Some z\<rparr>) d = filter (\<lambda>r. tk_id r < z) (listing client f d)"
proof -
  have "matches client (f\<lparr>fCursor := Some z\<rparr>) = (\<lambda>r. matches client f r \<and> tk_id r < z)"
    using assms by (auto simp: matches_def bytes_less_iff)
  then show ?thesis by (simp add: listing_def filter_sort flip: rev_filter)
qed

lemma listing_desc:
  assumes "distinct (map tk_id (tasks d))"
  shows "sorted_wrt (\<lambda>r r'. tk_id r' < tk_id r) (listing client f d)"
proof -
  have "distinct (map tk_id (sort_key tk_id (filter (matches client f) (tasks d))))"
    using assms by (auto simp: distinct_map intro: inj_on_subset)
  then have "sorted_wrt (<) (map tk_id (sort_key tk_id (filter (matches client f) (tasks d))))"
    by (simp only: strict_sorted_iff sorted_sort_key simp_thms)
  then show ?thesis by (simp add: listing_def sorted_wrt_rev sorted_wrt_map)
qed

lemma desc_after:
  assumes "sorted_wrt (\<lambda>r r'. tk_id r' < tk_id r) (A @ x # B)"
  shows "filter (\<lambda>r. tk_id r < tk_id x) (A @ x # B) = B"
proof -
  have "\<forall>r\<in>set A. \<not> tk_id r < tk_id x" "\<forall>r\<in>set B. tk_id r < tk_id x"
    using assms by (auto simp: sorted_wrt_append)
  then show ?thesis by simp
qed

lemma query_filter_cursor:
  assumes q: "query_filter q = Some f" and c: "go_get [] q ''cursor'' = []" "query_cursor c = Some z"
  shows "query_filter ((''cursor'', c) # q) = Some (f\<lparr>fCursor := z\<rparr>)" "fCursor f = None" "1 \<le> fLimit f"
proof -
  have g: "go_get [] ((''cursor'', c) # q) k = (if k = ''cursor'' then c else go_get [] q k)" for k
    by (simp add: go_get_def)
  from q obtain limit b where lb: "query_limit (go_get [] q ''limit'') = Some limit" "query_id (go_get [] q ''batch_id'') = Some b"
    by (auto simp: query_filter_def Let_def split: if_splits option.splits)
  have "query_cursor [] = Some None" by (simp add: query_cursor_def)
  with q lb c show "query_filter ((''cursor'', c) # q) = Some (f\<lparr>fCursor := z\<rparr>)" "fCursor f = None"
    unfolding query_filter_def Let_def g by (auto split: if_splits)
  have "fLimit f = limit" using q lb c \<open>query_cursor [] = Some None\<close> unfolding query_filter_def Let_def by (auto split: if_splits)
  moreover have "1 \<le> limit" using lb(1) by (auto simp: query_limit_def split: if_splits option.splits)
  ultimately show "1 \<le> fLimit f" by simp
qed

text \<open>One page: the first \<open>fLimit\<close> rows below the cursor, and a cursor exactly if there are more.\<close>

lemma list_page:
  assumes q: "query_filter (rqQuery r) = Some f" and up: "\<And>k. \<not> io_fails (evList e) k"
    and ns: "scan_rows (axCodec S) (listing (iClient a) f (wDb w)) = Inr ns"
  shows "rsBody (fst (list_notifications S e a r w)) =
    (if length ns > fLimit f then ListBody (take (fLimit f) ns) (rawurl_encode (ID_String (nID (last (take (fLimit f) ns)))))
     else ListBody ns [])"
proof -
  have "matches (iClient a) (f\<lparr>fLimit := k\<rparr>) = matches (iClient a) f" for k by (auto simp: matches_def)
  then have "List_tasks (axCodec S) (evList e) (iClient a) (f\<lparr>fLimit := fLimit f + 1\<rparr>) (wDb w) = Inr (take (fLimit f + 1) ns)"
    using scan_rows_parts [OF ns] by (simp add: List_tasks_def up flip: listing_def)
  then show ?thesis using q by (simp add: list_notifications_def min_def)
qed

lemma page_end:
  assumes "map nID ns = map tk_id B" and "1 \<le> m" and "m < length ns"
  shows "nID (last (take m ns)) = tk_id (last (take m B))" and "take m B \<noteq> []" and "last (take m B) \<in> set B"
proof -
  have len: "length B = length ns" using assms(1) by (metis length_map)
  then show ne: "take m B \<noteq> []" using assms(2,3) by auto
  have "last (map nID (take m ns)) = last (map tk_id (take m B))" using assms(1) by (metis take_map)
  then show "nID (last (take m ns)) = tk_id (last (take m B))"
    using ne assms(2,3) len by (subst (asm) (1 2) last_map) auto
  show "last (take m B) \<in> set B" using last_in_set [OF ne] by (rule in_set_takeD)
qed

lemma walk_listing:
  assumes q: "query_filter q = Some f" and cur: "go_get [] q ''cursor'' = []" and up: "\<And>k. \<not> io_fails (evList e) k"
    and ids: "distinct (map tk_id (tasks (wDb w)))" "\<forall>r\<in>set (tasks (wDb w)). length (tk_id r) = 16"
  shows "listing (iClient a) f (wDb w) = A @ B \<Longrightarrow> scan_rows (axCodec S) B = Inr ns \<Longrightarrow> length ns < k \<Longrightarrow>
    (A = [] \<and> c = [] \<or> A \<noteq> [] \<and> c = rawurl_encode (ID_String (tk_id (last A)))) \<Longrightarrow>
    walk (\<lambda>c. fst (list_notifications S e a (r\<lparr>rqQuery := (''cursor'', c) # q\<rparr>) w)) k c = (ns, True)"
proof (induction k arbitrary: A B ns c)
  case (Suc k)
  let ?L = "listing (iClient a) f (wDb w)"
  have mem: "set ?L \<subseteq> set (tasks (wDb w))" by (auto simp: listing_def)
  define z where "z = (if A = [] then None else Some (tk_id (last A)))"
  have c: "query_cursor c = Some z"
  proof (cases "A = []")
    case False
    then have "last A \<in> set (tasks (wDb w))" using Suc.prems(1) mem by auto
    with False Suc.prems(4) cursor_roundtrip ids(2) show ?thesis by (simp add: z_def)
  qed (use Suc.prems(4) in \<open>simp add: z_def query_cursor_def\<close>)
  note f = query_filter_cursor [OF q cur c]
  have B: "listing (iClient a) (f\<lparr>fCursor := z\<rparr>) (wDb w) = B"
  proof (cases "A = []")
    case True
    moreover have "f\<lparr>fCursor := None\<rparr> = f" using f(2) by (cases f) simp
    ultimately show ?thesis using Suc.prems(1) by (simp add: z_def)
  next
    case False
    then have "A @ B = butlast A @ last A # B" by simp
    with listing_desc [OF ids(1), of "iClient a" f] Suc.prems(1) show ?thesis
      using desc_after [of "butlast A" "last A" B] False by (simp add: z_def listing_cursor [OF f(2)])
  qed
  note page = list_page [where r = "r\<lparr>rqQuery := (''cursor'', c) # q\<rparr>", simplified, OF f(1) up, simplified, OF Suc.prems(2) [folded B]]
  show ?case
  proof (cases "length ns > fLimit f")
    case False
    then show ?thesis using page by simp
  next
    case True
    let ?m = "fLimit f"
    note parts = scan_rows_parts [OF Suc.prems(2)]
    note pe = page_end [OF conjunct1 [OF parts] f(3) True]
    have "walk (\<lambda>c. fst (list_notifications S e a (r\<lparr>rqQuery := (''cursor'', c) # q\<rparr>) w)) k
        (rawurl_encode (ID_String (nID (last (take ?m ns))))) = (drop ?m ns, True)"
      by (rule Suc.IH [of "A @ take ?m B" "drop ?m B"]) (use Suc.prems parts pe f(3) True in auto)
    moreover have "rawurl_encode (ID_String (nID (last (take ?m ns)))) \<noteq> []"
      unfolding pe(1) using pe(3) Suc.prems(1) mem ids(2) by (intro cursor_roundtrip(2)) auto
    ultimately show ?thesis using page True by simp
  qed
qed simp

lemma scan_rows_total:
  "(\<forall>t\<in>set ts. unmarshal_Request J (tk_request t) \<noteq> None) \<Longrightarrow> \<exists>ns. scan_rows J ts = Inr ns"
  by (induction ts) (auto simp: scan_def)

text \<open>
  C23: paging loses and repeats nothing. A client that starts a listing with any filter and page size and
  follows the cursors comes to the end, and the pages put together are all its notifications
  that match the filter, each once, newest identifier first.
\<close>

theorem pages_complete:
  assumes q: "query_filter q = Some f" "go_get [] q ''cursor'' = []" and up: "\<And>k. \<not> io_fails (evList e) k"
    and ids: "distinct (map tk_id (tasks (wDb w)))" "\<forall>t\<in>set (tasks (wDb w)). length (tk_id t) = 16"
    and codec: "\<forall>t\<in>set (tasks (wDb w)). unmarshal_Request (axCodec S) (tk_request t) \<noteq> None"
  shows "\<exists>ns. walk (\<lambda>c. fst (list_notifications S e a (r\<lparr>rqQuery := (''cursor'', c) # q\<rparr>) w)) (length (tasks (wDb w)) + 1) [] = (ns, True)
    \<and> set (map nID ns) = tk_id ` {t \<in> set (tasks (wDb w)). matches (iClient a) f t}
    \<and> sorted_wrt (\<lambda>u v. bytes_less v u) (map nID ns)"
proof -
  let ?L = "listing (iClient a) f (wDb w)"
  have set: "set ?L = {t \<in> set (tasks (wDb w)). matches (iClient a) f t}" by (auto simp: listing_def)
  with codec scan_rows_total [of ?L "axCodec S"] obtain ns where ns: "scan_rows (axCodec S) ?L = Inr ns" by auto
  note map = conjunct1 [OF scan_rows_parts [OF ns]]
  have "length ?L \<le> length (tasks (wDb w))" by (simp add: listing_def)
  then have len: "length ns < length (tasks (wDb w)) + 1" using arg_cong [OF map, of length] by simp
  have "walk (\<lambda>c. fst (list_notifications S e a (r\<lparr>rqQuery := (''cursor'', c) # q\<rparr>) w)) (length (tasks (wDb w)) + 1) [] = (ns, True)"
    by (rule walk_listing [OF q up ids, of a "[]" ?L S ns]) (use ns len in simp_all)
  moreover have "sorted_wrt (\<lambda>u v. bytes_less v u) (map nID ns)"
    using listing_desc [OF ids(1)] unfolding map sorted_wrt_map by (simp add: bytes_less_iff)
  moreover have "set (map nID ns) = tk_id ` {t \<in> set (tasks (wDb w)). matches (iClient a) f t}"
    unfolding map set [symmetric] by simp
  ultimately show ?thesis by blast
qed

definition ex_server :: "world server" where
  "ex_server = \<lparr>axTool = ex_auth_tool, axSha = ex_sha, axCodec = ex_codec2, axJwt = ex_jwt,
     axAny = (\<lambda>_. InputEnds), axSubmission = (\<lambda>b. Decoded (ex_sub\<lparr>sKey := []\<rparr>) []), axItems = (\<lambda>b. Decoded [''a'', ''b''] []),
     axItem = (\<lambda>raw. if raw = ''a'' then Some (ex_sub, []) else None), axItemKey = (\<lambda>_. []), axProxy = None, axManualRetry = None\<rparr>"

definition ex_api :: "world api_env" where
  "ex_api = \<lparr>evNow = 0, evRequestID = replicate 16 4, evAccept = (\<lambda>_. ex_env), evGet = ex_io second 1,
     evAttempts = ex_io second 1, evList = ex_io second 1, evQuota = None, evBatchID = replicate 16 6,
     evBatch = ex_io second 1, evBetween = (\<lambda>_ w. w)\<rparr>"

definition ex_identity :: identity where
  "ex_identity = \<lparr>iClient = ''c'', iSnapshot = ex_auth_snap, iRequestID = []\<rparr>"

definition ex_two :: world where
  "ex_two = ex_world\<lparr>wDb := empty_db\<lparr>tasks := [task_of ex_pending ''r'',
     (task_of ex_pending ''r'')\<lparr>tk_id := replicate 16 8, tk_key := ''k2''\<rparr>]\<rparr>\<rparr>"

definition ex_request_http :: request where
  "ex_request_http = \<lparr>rqMethod = ''GET'', rqSegments = [''api'', ''v1'', ''notifications''], rqHeader = [], rqQuery = [], rqBody = []\<rparr>"

theorem pages_complete_witness:
  "\<exists>ns. walk (\<lambda>c. fst (list_notifications ex_server ex_api ex_identity
       (ex_request_http\<lparr>rqQuery := [(''cursor'', c), (''limit'', ''1'')]\<rparr>) ex_two)) 3 [] = (ns, True)
    \<and> set (map nID ns) = {replicate 16 7, replicate 16 8}"
proof -
  have q: "query_filter [(''limit'', ''1'')] = Some \<lparr>fStatus = [], fTarget = [], fBatch = None, fCursor = None, fLimit = 1\<rparr>"
    by code_simp
  have c: "go_get [] [(''limit'', ''1'')] ''cursor'' = ([] :: string)" by (simp add: go_get_def)
  have up: "\<not> io_fails (evList ex_api) k" for k by (simp add: ex_api_def ex_io_def)
  have t: "tasks (wDb ex_two) = [task_of ex_pending ''r'', (task_of ex_pending ''r'')\<lparr>tk_id := replicate 16 8, tk_key := ''k2''\<rparr>]"
    by (simp add: ex_two_def)
  have i7: "tk_id (task_of ex_pending ''r'') = replicate 16 7" "tk_client (task_of ex_pending ''r'') = ''c''"
    by (simp_all add: task_of_def ex_pending_def ex_note_def)
  have ids: "distinct (map tk_id (tasks (wDb ex_two)))" "\<forall>t\<in>set (tasks (wDb ex_two)). length (tk_id t) = 16"
    "\<forall>t\<in>set (tasks (wDb ex_two)). unmarshal_Request (axCodec ex_server) (tk_request t) \<noteq> None"
    by (simp_all add: t i7 ex_server_def ex_codec2_def)
  have m: "{t \<in> set (tasks (wDb ex_two)). matches (iClient ex_identity)
      \<lparr>fStatus = [], fTarget = [], fBatch = None, fCursor = None, fLimit = 1\<rparr> t} = set (tasks (wDb ex_two))"
    by (auto simp: t i7 matches_def ex_identity_def)
  have "length (tasks (wDb ex_two)) + 1 = 3" "tk_id ` set (tasks (wDb ex_two)) = {replicate 16 7, replicate 16 8}"
    by (simp_all add: t i7)
  with pages_complete [OF q c up ids, of ex_identity ex_request_http] show ?thesis unfolding m by metis
qed

section \<open>Every item of a batch is answered for\<close>

definition stored :: "string \<Rightarrow> ID \<Rightarrow> db \<Rightarrow> bool" where
  "stored client u d \<longleftrightarrow> (\<exists>t\<in>set (tasks d). tk_id t = u \<and> tk_client t = client)"

lemma stored_kept: "stored client u d \<Longrightarrow> cores_kept d d' \<Longrightarrow> stored client u d'"
  by (fastforce simp: stored_def cores_kept_def same_core_def)

lemma ByKey_stored: "ByKey J failed client key d = Inr n \<Longrightarrow> stored client (nID n) d"
  unfolding ByKey_def
  by (cases "find (\<lambda>r. tk_client r = client \<and> tk_key r = key) (tasks d)")
    (auto simp: stored_def find_Some_iff dest!: scan_row)

lemma Store_Accept_stored:
  assumes "Store_Accept J e n d = (Inr (m, created), d')"
  shows "stored (nClient n) (nID m) d'"
proof (cases created)
  case True
  with assms have "Store_Accept J e n d = (Inr (m, True), d')" by simp
  then show ?thesis by (rule Store_Accept_created) (simp add: stored_def task_of_def)
next
  case False
  with assms have "d' = d" "\<exists>failed. ByKey J failed (nClient n) (nKey n) d = Inr m"
    by (auto simp: Store_Accept_def commit_def split: option.splits if_splits sum.splits)
  with ByKey_stored show ?thesis by blast
qed

lemma Accept_stored:
  "Accept U sha J v client sub b snap w = (Inr (n, created), w') \<Longrightarrow> stored client (nID n) (wDb w')"
  unfolding Accept_def Let_def
  by (auto split: if_splits sum.splits option.splits prod.splits dest: ByKey_stored dest!: Store_Accept_stored)

definition answered :: "'w world_scheme server \<Rightarrow> string \<Rightarrow> db \<Rightarrow> string \<Rightarrow> batch_result \<Rightarrow> bool" where
  "answered S client d raw b \<longleftrightarrow>
     (if brAccepted b
      then (\<exists>sub u. Decode (axItem S) raw = Inr sub \<and> sMode sub \<noteq> ''proxy'' \<and> brKey b = sKey sub \<and> brID b = Some u \<and> stored client u d)
      else brID b = None \<and> brCode b \<noteq> [])"

lemma Accept_coded: "Accept U sha J v client sub b snap w = (Inl x, w') \<Longrightarrow> item_code x \<noteq> []"
  using item_code_listed [OF Accept_listed] by (fastforce simp: openapi_codes_def)

lemma batch_item_answered: "batch_item S e a i raw w = (b, w') \<Longrightarrow> answered S (iClient a) (wDb w') raw b"
  by (auto simp: batch_item_def answered_def bad_request_def item_code_def Fail_def split: sum.splits if_splits prod.splits
      dest: Accept_stored Accept_coded)

lemma answered_kept: "answered S client d raw b \<Longrightarrow> cores_kept d d' \<Longrightarrow> answered S client d' raw b"
  using stored_kept by (fastforce simp: answered_def)

lemma batch_items_answered:
  assumes ok: "paced N P S e"
  shows "batch_items S e a i raws w = (bs, w') \<Longrightarrow> runs (axCodec S) k (wDb w, T) \<Longrightarrow>
    k + length raws * (2 * N + 1) < 2 ^ 57 \<Longrightarrow> list_all2 (answered S (iClient a) (wDb w')) raws bs"
proof (induction raws arbitrary: i w bs k T)
  case (Cons raw raws)
  obtain b w1 where b: "batch_item S e a i raw (evBetween e i w) = (b, w1)" by (rule prod.exhaust)
  from db_path_runs [OF Cons.prems(2) db_path_trans [OF pacedD(1) [OF ok] batch_item_path [OF ok b]]] obtain k' T' where
    runs: "runs (axCodec S) k' (wDb w1, T')" "k' \<le> k + (N + (N + 1))" by blast
  from b obtain bs1 where rest: "batch_items S e a (i + 1) raws w1 = (bs1, w')" and bs: "bs = b # bs1"
    using Cons.prems(1) by (auto split: prod.splits)
  have "k' + length raws * (2 * N + 1) < 2 ^ 57" using runs(2) Cons.prems(3) by simp
  with Cons.IH [OF rest runs(1)] db_path_cores [OF runs(1) batch_items_path [OF ok rest]]
    answered_kept [OF batch_item_answered [OF b]] show ?case by (simp add: bs)
qed simp

text \<open>
  C24: every item of a batch is answered for. If a batch is answered at all, it had 1 to 100 items, the
  answer has one entry per item in their order, an entry says accepted exactly if it names a
  notification of the caller that is stored when the answer is sent, which was asked for without the
  proxy mode and under the key the entry shows, and every other entry has an error code.
\<close>

theorem batch_answers:
  assumes run: "batch S e a r w = (resp, w')" "rsBody resp = BatchBody u bs" and dec: "decode (axAny S) (axItems S) r = Inr raws"
    and ok: "paced N P S e" and reach: "runs (axCodec S) k (wDb w, T)" "k + 1 + 100 * (2 * N + 1) < 2 ^ 57"
  shows "raws \<noteq> [] \<and> length raws \<le> 100 \<and> list_all2 (answered S (iClient a) (wDb w')) raws bs"
proof -
  from run dec obtain q d where raws: "raws \<noteq> []" "length raws \<le> 100"
    and cb: "CreateBatch (evBatch e) (evBatchID e) (iClient a) (int (length raws)) (wDb w) = (Inr (), d)"
    and items: "batch_items S e a 0 raws (w\<lparr>wQuota := q, wDb := d\<rparr>) = (bs, w')"
    by (auto simp: batch_def not_less split: sum.splits if_splits prod.splits option.splits)
  from db_path_runs [OF reach(1) db_path_simple(1) [OF cb]] obtain k' T' where
    k': "runs (axCodec S) k' (d, T')" "k' \<le> k + 1" by blast
  then have "runs (axCodec S) k' (wDb (w\<lparr>wQuota := q, wDb := d\<rparr>), T')" by simp
  moreover have "length raws * (2 * N + 1) \<le> 100 * (2 * N + 1)" using raws(2) by (rule mult_le_mono1)
  ultimately show ?thesis using batch_items_answered [OF ok items] raws reach(2) k'(2) by simp
qed

definition ex_batch_http :: request where
  "ex_batch_http = \<lparr>rqMethod = ''POST'', rqSegments = [''api'', ''v1'', ''notifications:batch''],
     rqHeader = [(''Content-Type'', ''application/json'')], rqQuery = [], rqBody = ''{}''\<rparr>"

lemma ex_decode: "decode (axAny ex_server) (axItems ex_server) ex_batch_http = Inr [''a'', ''b'']"
  by (simp add: decode_def ex_server_def ex_batch_http_def max_body_def go_get_def)

lemma ex_paced: "paced 0 0 ex_server ex_api"
  by (simp add: paced_def ex_server_def ex_api_def ex_env_def)

theorem batch_answers_witness:
  "\<exists>resp w' bs. batch ex_server ex_api ex_identity ex_batch_http ex_world = (resp, w') \<and> rsBody resp = BatchBody (replicate 16 6) bs
     \<and> list_all2 (answered ex_server ''c'' (wDb w')) [''a'', ''b''] bs"
proof -
  obtain resp w' where run: "batch ex_server ex_api ex_identity ex_batch_http ex_world = (resp, w')" by (rule prod.exhaust)
  have "\<exists>bs. rsBody resp = BatchBody (replicate 16 6) bs"
    using run by (auto simp: batch_def ex_decode take_quota_def CreateBatch_def commit_def ex_io_def ex_world_def empty_db_def
        ex_api_def split: prod.splits)
  then obtain bs where b: "rsBody resp = BatchBody (replicate 16 6) bs" by blast
  have reach: "runs (axCodec ex_server) 0 (wDb ex_world, {})" using runs_init by (simp add: ex_world_def)
  have "(0 :: nat) + 1 + 100 * (2 * 0 + 1) < 2 ^ 57" by simp
  from batch_answers [OF run b ex_decode ex_paced reach this] run b show ?thesis by (auto simp: ex_identity_def)
qed

end
