(* ===== verification/Recovery.thy ===== *)
theory Recovery
  imports Manager RetryPolicy Interference
begin

text \<open>
  The recovery loop of \<^verbatim>\<open>internal/recovery/loop.go\<close>: it returns expired outbox leases, settles
  deliveries whose lease ran out with their worker, and gives a new event to waiting tasks that no
  event will trigger. The fields \<open>rvBefore...\<close> say what the others did before each of its calls.
\<close>

section \<open>The step\<close>

record loop_state =
  rDb :: db
  rManager :: Manager
  rRecovered :: nat
  rReconciled :: nat

record recovery_env =
  rvOutbox :: io
  rvExpired :: io
  rvControl :: control_db
  rvHistory :: "nat \<Rightarrow> history_env"
  rvNow :: "nat \<Rightarrow> gotime"
  rvLease :: "nat \<Rightarrow> io"
  rvReconcile :: io
  rvLocked :: "ID \<Rightarrow> bool"
  rvBeforeExpired :: "loop_state \<Rightarrow> loop_state"
  rvBeforeHistory :: "nat \<Rightarrow> loop_state \<Rightarrow> loop_state"
  rvBeforeLease :: "nat \<Rightarrow> loop_state \<Rightarrow> loop_state"
  rvBeforeReconcile :: "loop_state \<Rightarrow> loop_state"

text \<open>The fixed parts: the configuration parsers, the codec, and \<^verbatim>\<open>http.ParseTime\<close>.\<close>

record recovery_deps =
  rdTool :: toolkit
  rdCodec :: codec
  rdParseTime :: "string \<Rightarrow> gotime option"

definition lost_decision :: Decision where
  "lost_decision = \<lparr>dAction = ''retry'', dReason = ''lease_expired'', dHTTPStatus = 0, dHeaders = [], dPreview = [],
     dBodyHash = [], dReport = [], dRetryAfter = [], dUncertain = True, dStarted = 0, dLatency = 0\<rparr>"

text \<open>The loop over the expired deliveries; \<open>i\<close> counts its iterations.\<close>

fun recover_leases ::
  "recovery_deps \<Rightarrow> recovery_env \<Rightarrow> nat \<Rightarrow> Notification list \<Rightarrow> loop_state \<Rightarrow> error option \<times> loop_state" where
  "recover_leases D e i [] st = (None, st)"
| "recover_leases D e i (n # ns) st0 =
     (let st = rvBeforeHistory e i st0 in
      case History (rdTool D) (rvControl e) (rvHistory e i) (nConfigRevision n) (rManager st) of
        (Inl x, m) \<Rightarrow> (Some x, st\<lparr>rManager := m\<rparr>)
      | (Inr snap, m) \<Rightarrow>
          (case map_of (snTargets snap) (nTarget n) of
             None \<Rightarrow> (Some (fails ''historical target missing''), st\<lparr>rManager := m\<rparr>)
           | Some t \<Rightarrow>
               (case Schedule (tkUnicode (rdTool D)) (rdParseTime D) (rvNow e i) n t
                       (go_get zero_Retry (snRetries snap) (tgRetryPolicy t)) lost_decision of
                  ((nxt, route), d) \<Rightarrow>
                    let st1 = rvBeforeLease e i (st\<lparr>rManager := m\<rparr>) in
                    (case RecoverLease (rdCodec D) (rvLease e i) n d nxt route (rDb st1) of
                       (Inl x, db) \<Rightarrow>
                         if x = ErrState then recover_leases D e (i + 1) ns (st1\<lparr>rDb := db\<rparr>)
                         else (Some x, st1\<lparr>rDb := db\<rparr>)
                     | (Inr _, db) \<Rightarrow>
                         recover_leases D e (i + 1) ns
                           (st1\<lparr>rDb := db, rRecovered := uint64_inc (rRecovered st1)\<rparr>)))))"

definition recovery_step :: "recovery_deps \<Rightarrow> recovery_env \<Rightarrow> loop_state \<Rightarrow> error option \<times> loop_state" where
  "recovery_step D e st =
     (case RecoverOutbox (rvOutbox e) (rDb st) of
        (Inl x, db) \<Rightarrow> (Some x, st\<lparr>rDb := db\<rparr>)
      | (Inr _, db) \<Rightarrow>
          let st1 = rvBeforeExpired e (st\<lparr>rDb := db\<rparr>) in
          case Expired (rdCodec D) (rvExpired e) (rDb st1) of
            Inl x \<Rightarrow> (Some x, st1)
          | Inr ns \<Rightarrow>
              (case recover_leases D e 0 ns st1 of
                 (Some x, st2) \<Rightarrow> (Some x, st2)
               | (None, st2) \<Rightarrow>
                   let st3 = rvBeforeReconcile e st2 in
                   (case Reconcile (rdCodec D) (rvReconcile e) (rvLocked e) (rDb st3) of
                      (Inl x, db) \<Rightarrow> (Some x, st3\<lparr>rDb := db\<rparr>)
                    | (Inr count, db) \<Rightarrow>
                        (None, st3\<lparr>rDb := db, rReconciled := (rReconciled st3 + count) mod 2 ^ 64\<rparr>))))"

section \<open>The loop as one of many\<close>

definition loop_others_ok :: "codec \<Rightarrow> nat \<Rightarrow> recovery_env \<Rightarrow> bool" where
  "loop_others_ok J N e \<longleftrightarrow>
     (\<forall>f st. f \<in> {rvBeforeExpired e, rvBeforeReconcile e} \<union> range (rvBeforeHistory e) \<union> range (rvBeforeLease e) \<longrightarrow>
        db_path J N (rDb st) (rDb (f st)))"

lemma loop_others_okD:
  "loop_others_ok J N e \<Longrightarrow> db_path J N (rDb st) (rDb (rvBeforeExpired e st))"
  "loop_others_ok J N e \<Longrightarrow> db_path J N (rDb st) (rDb (rvBeforeReconcile e st))"
  "loop_others_ok J N e \<Longrightarrow> db_path J N (rDb st) (rDb (rvBeforeHistory e i st))"
  "loop_others_ok J N e \<Longrightarrow> db_path J N (rDb st) (rDb (rvBeforeLease e i st))"
  by (simp_all add: loop_others_ok_def)

lemma recover_leases_path:
  assumes "loop_others_ok (rdCodec D) N e" and "recover_leases D e i ns st0 = (res, st')" and "set ns \<subseteq> C"
  shows "db_via (rdCodec D) C (length ns * (2 * N + 1)) (rDb st0) (rDb st')"
  using assms(2,3)
proof (induction ns arbitrary: i st0)
  case (Cons n ns)
  let ?J = "rdCodec D"
  define st where "st = rvBeforeHistory e i st0"
  obtain h m where h: "History (rdTool D) (rvControl e) (rvHistory e i) (nConfigRevision n) (rManager st) = (h, m)"
    by (rule prod.exhaust)
  have first: "db_via ?J C N (rDb st0) (rDb st)" unfolding st_def by (rule db_path_via [OF loop_others_okD(3) [OF assms(1)]])
  show ?case
  proof (cases "\<exists>snap t. h = Inr snap \<and> map_of (snTargets snap) (nTarget n) = Some t")
    case False
    then have "rDb st' = rDb st"
      using Cons.prems(1) h by (cases h) (auto simp: Let_def simp flip: st_def split: option.split_asm)
    with first show ?thesis by (auto intro: db_via_mono)
  next
    case True
    then obtain snap t where ht: "h = Inr snap" "map_of (snTargets snap) (nTarget n) = Some t" by blast
    obtain nxt route d where sch: "Schedule (tkUnicode (rdTool D)) (rdParseTime D) (rvNow e i) n t
        (go_get zero_Retry (snRetries snap) (tgRetryPolicy t)) lost_decision = ((nxt, route), d)" by (metis prod.exhaust)
    define st1 where "st1 = rvBeforeLease e i (st\<lparr>rManager := m\<rparr>)"
    obtain r db where rec: "RecoverLease ?J (rvLease e i) n d nxt route (rDb st1) = (r, db)" by (rule prod.exhaust)
    have "db_path ?J N (rDb st) (rDb st1)"
      using loop_others_okD(4) [OF assms(1), of "st\<lparr>rManager := m\<rparr>" i] by (simp add: st1_def)
    moreover have "db_via ?J C 1 (rDb st1) db"
      using Cons.prems(2) by (intro db_via_call) (auto intro: call_recover [OF rec])
    ultimately have here: "db_via ?J C (2 * N + 1) (rDb st0) db"
      using first by (metis db_path_via db_via_trans mult_2 add.assoc)
    consider "rDb st' = db" | s where "recover_leases D e (i + 1) ns s = (res, st')" "rDb s = db"
      using Cons.prems(1) h ht sch rec by (auto simp: Let_def simp flip: st_def st1_def split: sum.splits if_splits)
    then show ?thesis
    proof cases
      case 1
      with here show ?thesis by (auto intro: db_via_mono)
    next
      case 2
      from Cons.IH [OF 2(1)] Cons.prems(2) 2(2) have "db_via ?J C (length ns * (2 * N + 1)) db (rDb st')" by simp
      from db_via_trans [OF here this] show ?thesis by (rule db_via_mono) simp
    qed
  qed
qed simp

lemma scan_rows_length: "scan_rows J rs = Inr ns \<Longrightarrow> length ns = length rs"
  by (induction J rs arbitrary: ns rule: scan_rows.induct) (auto split: sum.splits)

lemma Expired_length: "Expired J e d = Inr ns \<Longrightarrow> length ns \<le> 100"
  by (auto simp: Expired_def dest!: scan_rows_length split: if_splits sum.splits)

lemma recovery_step_path:
  assumes "loop_others_ok (rdCodec D) N e" and "recovery_step D e st = (res, st')"
  shows "db_path (rdCodec D) (202 * N + 103) (rDb st) (rDb st')"
proof -
  let ?J = "rdCodec D"
  obtain r db where out: "RecoverOutbox (rvOutbox e) (rDb st) = (r, db)" by (rule prod.exhaust)
  have p1: "db_path ?J 1 (rDb st) db" using db_path_simple(4) [OF out] .
  define st1 where "st1 = rvBeforeExpired e (st\<lparr>rDb := db\<rparr>)"
  have p2: "db_path ?J N db (rDb st1)"
    using loop_others_okD(1) [OF assms(1), of "st\<lparr>rDb := db\<rparr>"] by (simp add: st1_def)
  have p12: "db_path ?J (N + 1) (rDb st) (rDb st1)" using db_path_trans [OF p1 p2] by simp
  show ?thesis
  proof (cases "\<exists>x. r = Inl x \<or> Expired ?J (rvExpired e) (rDb st1) = Inl x")
    case True
    then have "rDb st' = db \<or> rDb st' = rDb st1"
      using assms(2) out by (auto simp: recovery_step_def Let_def simp flip: st1_def split: sum.splits)
    with p1 p12 show ?thesis by (auto intro: db_path_mono)
  next
    case False
    then obtain ns where ns: "r = Inr ()" "Expired ?J (rvExpired e) (rDb st1) = Inr ns"
      by (metis (full_types) old.sum.exhaust unit.exhaust)
    obtain rl st2 where rec: "recover_leases D e 0 ns st1 = (rl, st2)" by (rule prod.exhaust)
    have len: "length ns \<le> 100" using Expired_length [OF ns(2)] .
    have "db_via ?J (set ns) (length ns * (2 * N + 1)) (rDb st1) (rDb st2)"
      using recover_leases_path [OF assms(1) rec subset_refl] .
    then have via: "db_via ?J (set ns) (100 * (2 * N + 1)) (rDb st1) (rDb st2)"
      by (rule db_via_mono) (rule mult_le_mono1 [OF len])
    have p3: "db_path ?J (100 * (2 * N + 1) + 1) (rDb st1) (rDb st2)"
      using via by (rule db_path_listed [OF call_expired [OF ns(2)]])
    define st3 where "st3 = rvBeforeReconcile e st2"
    have p4: "db_path ?J N (rDb st2) (rDb st3)" unfolding st3_def using assms(1) by (rule loop_others_okD(2))
    obtain c db3 where rc: "Reconcile ?J (rvReconcile e) (rvLocked e) (rDb st3) = (c, db3)" by (rule prod.exhaust)
    have p5: "db_path ?J 1 (rDb st3) db3" using db_path_simple(5) [OF rc] .
    have "db_path ?J (N + 1 + (100 * (2 * N + 1) + 1)) (rDb st) (rDb st2)" using p12 p3 by (rule db_path_trans)
    moreover from this p4 p5 have "db_path ?J (N + 1 + (100 * (2 * N + 1) + 1) + N + 1) (rDb st) db3"
      by (metis db_path_trans)
    moreover have "rDb st' = rDb st2 \<or> rDb st' = db3"
      using assms(2) out ns rec rc
      by (auto simp: recovery_step_def Let_def simp del: One_nat_def simp flip: st1_def st3_def split: option.splits sum.splits)
    ultimately show ?thesis by (auto intro: db_path_mono)
  qed
qed

section \<open>Nothing waits for ever\<close>

text \<open>Without faults, one pass of the loop over stuck tasks: each gets the next generation and an event for it.\<close>

definition requeued :: "Notification list \<Rightarrow> db \<Rightarrow> db \<Rightarrow> bool" where
  "requeued ns d d' \<longleftrightarrow>
     (\<exists>f. tasks d' = map f (tasks d)
        \<and> (\<forall>r. tk_id (f r) = tk_id r \<and> tk_status (f r) = tk_status r \<and> tk_next (f r) = tk_next r)
        \<and> (\<forall>r\<in>set (tasks d). (tk_id r \<notin> nID ` set ns \<longrightarrow> f r = r)
             \<and> (\<forall>n\<in>set ns. tk_id r = nID n \<longrightarrow> tk_gen (f r) = nGeneration n + 1)))
     \<and> (\<exists>ws. outbox d' = outbox d @ ws
        \<and> (\<forall>n\<in>set ns. \<exists>w\<in>set ws. ob_task w = nID n \<and> ob_gen w = nGeneration n + 1 \<and> ob_status w = ''pending''))"

definition fresh_ids :: "io \<Rightarrow> nat \<Rightarrow> nat \<Rightarrow> db \<Rightarrow> bool" where
  "fresh_ids e i k d \<longleftrightarrow> inj_on (io_ids e) {i..<i + k}
     \<and> (\<forall>j. i \<le> j \<longrightarrow> j < i + k \<longrightarrow> io_ids e j \<notin> ob_event ` set (outbox d))"

lemma requeued_Cons:
  assumes ts: "tasks d1 = map (\<lambda>r. if tk_id r = nID n then r\<lparr>tk_gen := nGeneration n + 1, tk_updated := upd\<rparr> else r) (tasks d)"
    and ob: "outbox d1 = outbox d @ [w]" "ob_task w = nID n" "ob_gen w = nGeneration n + 1" "ob_status w = ''pending''"
    and rest: "requeued ns d1 d2" and new: "nID n \<notin> nID ` set ns"
  shows "requeued (n # ns) d d2"
proof -
  let ?g = "\<lambda>r :: task. if tk_id r = nID n then r\<lparr>tk_gen := nGeneration n + 1, tk_updated := upd\<rparr> else r"
  from rest obtain f ws where f: "tasks d2 = map f (tasks d1)"
    "\<forall>r. tk_id (f r) = tk_id r \<and> tk_status (f r) = tk_status r \<and> tk_next (f r) = tk_next r"
    "\<forall>r\<in>set (tasks d1). (tk_id r \<notin> nID ` set ns \<longrightarrow> f r = r) \<and> (\<forall>n\<in>set ns. tk_id r = nID n \<longrightarrow> tk_gen (f r) = nGeneration n + 1)"
    and ws: "outbox d2 = outbox d1 @ ws"
    "\<forall>n\<in>set ns. \<exists>w\<in>set ws. ob_task w = nID n \<and> ob_gen w = nGeneration n + 1 \<and> ob_status w = ''pending''"
    unfolding requeued_def by blast
  have "tasks d2 = map (f \<circ> ?g) (tasks d)" by (simp add: f(1) ts)
  moreover have "\<forall>r. tk_id ((f \<circ> ?g) r) = tk_id r \<and> tk_status ((f \<circ> ?g) r) = tk_status r \<and> tk_next ((f \<circ> ?g) r) = tk_next r"
    using f(2) by simp
  moreover have "\<forall>r\<in>set (tasks d). (tk_id r \<notin> nID ` set (n # ns) \<longrightarrow> (f \<circ> ?g) r = r)
      \<and> (\<forall>m\<in>set (n # ns). tk_id r = nID m \<longrightarrow> tk_gen ((f \<circ> ?g) r) = nGeneration m + 1)"
  proof
    fix r assume "r \<in> set (tasks d)"
    then have "?g r \<in> set (tasks d1)" by (auto simp: ts)
    with f(3) have g: "tk_id (?g r) \<notin> nID ` set ns \<longrightarrow> f (?g r) = ?g r"
      "\<forall>m\<in>set ns. tk_id (?g r) = nID m \<longrightarrow> tk_gen (f (?g r)) = nGeneration m + 1" by blast+
    show "(tk_id r \<notin> nID ` set (n # ns) \<longrightarrow> (f \<circ> ?g) r = r)
      \<and> (\<forall>m\<in>set (n # ns). tk_id r = nID m \<longrightarrow> tk_gen ((f \<circ> ?g) r) = nGeneration m + 1)"
      using g new by (cases "tk_id r = nID n") auto
  qed
  moreover have "outbox d2 = outbox d @ (w # ws)" using ws(1) ob(1) by simp
  moreover have "\<forall>m\<in>set (n # ns). \<exists>x\<in>set (w # ws). ob_task x = nID m \<and> ob_gen x = nGeneration m + 1 \<and> ob_status x = ''pending''"
    using ws(2) ob(2-4) by auto
  ultimately show ?thesis unfolding requeued_def by blast
qed

lemma reconcile_loop_heals:
  assumes "\<And>k. \<not> io_fails e k" and "\<And>ev. marshal_Event J ev \<noteq> None"
    and "fresh_ids e i (length ns) d" and "distinct (map nID ns)" and "\<forall>n\<in>set ns. nGeneration n < 2 ^ 64 - 1"
    and "\<forall>r\<in>set (tasks d). task_ok r"
  shows "\<exists>d'. reconcile_loop J e i ns d = Inr d' \<and> requeued ns d d'"
  using assms(3-6)
proof (induction ns arbitrary: i d)
  case Nil
  have "requeued [] d d" unfolding requeued_def by (intro conjI exI [of _ "\<lambda>r. r"] exI [of _ "[]"]) auto
  then show ?case by simp
next
  case (Cons n ns)
  define ts1 where "ts1 = utc e (2 + 4 * i)"
  define ts where "ts = map (\<lambda>r. if tk_id r = nID n then r\<lparr>tk_gen := nGeneration n + 1, tk_updated := ts1\<rparr> else r) (tasks d)"
  define ev where "ev = \<lparr>eSchema = 1, eID = io_ids e i, eNotification = nID n, eGeneration = nGeneration n + 1,
    eType = ''dispatch'', eCreated = io_clock e (3 + 4 * i)\<rparr>"
  obtain b where b: "marshal_Event J ev = Some b" using assms(2) by blast
  define w where "w = \<lparr>ob_id = ob_seq d, ob_event = io_ids e i, ob_task = nID n, ob_gen = nGeneration n + 1,
    ob_type = ''dispatch'', ob_route = ''dispatch'', ob_available = datetime6 (io_clock e (1 + 4 * i)),
    ob_payload = b, ob_status = ''pending'', ob_token = None, ob_lease_until = None, ob_published = None, ob_created = utc e (4 + 4 * i)\<rparr>"
  define d1 where "d1 = d\<lparr>tasks := ts, outbox := outbox d @ [w], ob_seq := ob_seq d + 1\<rparr>"
  have inc: "uint64_inc (nGeneration n) = nGeneration n + 1" using Cons.prems(3) by (simp add: uint64_inc_small)
  have upd: "sql_update task_ok (\<lambda>r. tk_id r = nID n) (\<lambda>r. r\<lparr>tk_gen := nGeneration n + 1, tk_updated := ts1\<rparr>) (tasks d)
      = Some (ts, length (filter (\<lambda>r. tk_id r = nID n \<and> r\<lparr>tk_gen := nGeneration n + 1, tk_updated := ts1\<rparr> \<noteq> r) (tasks d)))"
    using Cons.prems(3,4) by (auto simp: sql_update_def ts_def list_ex_iff task_ok_def)
  have "\<forall>w\<in>set (outbox d). ob_event w \<noteq> io_ids e i"
    using Cons.prems(1) unfolding fresh_ids_def by (metis imageI le_add1 le_refl length_Cons less_add_Suc1 add_Suc_right)
  then have ins: "insertEvent J False (io_ids e i) (io_clock e (3 + 4 * i)) (utc e (4 + 4 * i))
      (n\<lparr>nGeneration := nGeneration n + 1, nNext := io_clock e (1 + 4 * i)\<rparr>) ''dispatch'' (io_clock e (1 + 4 * i)) (d\<lparr>tasks := ts\<rparr>) = Inr d1"
    using b by (auto simp: insertEvent_def list_ex_iff d1_def w_def ev_def)
  have inj: "inj_on (io_ids e) {i..<i + length (n # ns)}" using Cons.prems(1) by (simp add: fresh_ids_def)
  have "io_ids e j \<noteq> io_ids e i" if "i + 1 \<le> j" "j < i + 1 + length ns" for j
    using inj_onD [OF inj, of j i] that by auto
  moreover have "inj_on (io_ids e) {i + 1..<i + 1 + length ns}" using inj by (rule inj_on_subset) auto
  ultimately have "fresh_ids e (i + 1) (length ns) d1"
    using Cons.prems(1) by (auto simp: fresh_ids_def d1_def w_def)
  moreover have "\<forall>r\<in>set (tasks d1). task_ok r" using Cons.prems(3,4) by (auto simp: d1_def ts_def task_ok_def)
  ultimately obtain d2 where rest: "reconcile_loop J e (i + 1) ns d1 = Inr d2" "requeued ns d1 d2"
    using Cons.IH [of "i + 1" d1] Cons.prems(2,3) by auto
  have "reconcile_loop J e i (n # ns) d = Inr d2"
    using assms(1) upd ins rest(1) by (simp add: inc Let_def ts1_def)
  moreover have "requeued (n # ns) d d2"
    by (rule requeued_Cons [where upd = ts1 and w = w, OF _ _ _ _ _ rest(2)]) (use Cons.prems(2) in \<open>simp_all add: d1_def ts_def w_def\<close>)
  ultimately show ?case by blast
qed

lemma live_trigger_grows:
  "live_trigger now d r \<Longrightarrow> outbox d' = outbox d @ ws \<Longrightarrow> live_trigger now d' r"
  by (auto simp: live_trigger_def list_ex_iff)


text \<open>A task whose event was published an hour ago and never consumed.\<close>

definition ex_lost :: db where
  "ex_lost = ex_db1\<lparr>outbox := map (\<lambda>w. w\<lparr>ob_status := ''published'', ob_published := Some 0\<rparr>) (outbox ex_db1)\<rparr>"

definition ex_ids :: io where
  "ex_ids = \<lparr>io_fails = (\<lambda>_. False), io_applied = False, io_clock = (\<lambda>_. hour), io_ids = (\<lambda>i. replicate 15 9 @ [of_nat i])\<rparr>"

lemma ex_lost_wf: "wf_db ex_lost"
proof -
  have "wf_db ex_db1" using runs_good [OF ex_runs1] by (simp add: good_def)
  moreover from this have "outbox_ok (ex_db1\<lparr>outbox := map (\<lambda>w. w\<lparr>ob_status := ''published'', ob_published := Some 0\<rparr>) (outbox ex_db1)\<rparr>)"
    by (intro outbox_ok_relay) (auto simp: wf_db_def list_all2_conv_all_nth)
  ultimately show ?thesis by (simp add: ex_lost_def wf_db_def tasks_ok_def attempts_ok_def)
qed

lemma ex_ids_fresh: "fresh_ids ex_ids 0 100 ex_lost"
proof -
  have "inj_on (\<lambda>i. of_nat i :: byte) {0..<100}"
    by (auto simp: inj_on_def word_of_nat_eq_iff take_bit_nat_eq_self)
  then have "inj_on (io_ids ex_ids) {0..<0 + 100}" by (simp add: ex_ids_def inj_on_def)
  moreover have "replicate 15 (9 :: byte) @ [x] \<noteq> replicate 16 1" for x
    by (auto dest!: arg_cong [of _ _ hd])
  ultimately show ?thesis by (simp add: fresh_ids_def) (simp add: ex_ids_def ex_lost_def ex_store_defs go_simps)
qed


end
