(* ===== verification/Rabbit.thy ===== *)
theory Rabbit
  imports Worker
begin

text \<open>
  The client of the message broker, \<^verbatim>\<open>internal/mq/rabbitmq/client.go\<close>: the topology it declares,
  its connection, publishing with confirms, and the consumers. The AMQP library is a parameter: which
  of its calls succeed and which notifications it delivers. The write deadlines of
  \<^verbatim>\<open>connection.go\<close> only make calls fail.
\<close>

section \<open>Topology\<close>

datatype table_value = TStr string | TInt int

record queue_spec =
  qName :: string
  qExchange :: string
  qRoute :: string
  qArgs :: "(string \<times> table_value) list"

datatype amqp_call =
    ExchangeDeclare string
  | QueueDeclare string "(string \<times> table_value) list"
  | QueueBind string string string

definition retry_queue :: "duration \<Rightarrow> queue_spec" where
  "retry_queue d =
     (let route = BucketRoute d in
      \<lparr>qName = ''notify.'' @ route @ ''.q'', qExchange = ''notify.retry.x'', qRoute = route,
       qArgs = [(''x-queue-type'', TStr ''quorum''), (''x-message-ttl'', TInt (d div millisecond)),
         (''x-dead-letter-exchange'', TStr ''notify.dispatch.x''), (''x-dead-letter-routing-key'', TStr ''dispatch''),
         (''x-dead-letter-strategy'', TStr ''at-least-once''), (''x-overflow'', TStr ''reject-publish'')]\<rparr>)"

definition queues :: "queue_spec list" where
  "queues =
     [\<lparr>qName = ''notify.dead.q'', qExchange = ''notify.dead.x'', qRoute = ''dead'', qArgs = [(''x-queue-type'', TStr ''quorum'')]\<rparr>,
      \<lparr>qName = ''notify.dispatch.q'', qExchange = ''notify.dispatch.x'', qRoute = ''dispatch'',
       qArgs = [(''x-queue-type'', TStr ''quorum''), (''x-dead-letter-exchange'', TStr ''notify.dead.x''),
         (''x-dead-letter-routing-key'', TStr ''dead''), (''x-delivery-limit'', TInt (- 1))]\<rparr>]
     @ map retry_queue Buckets"

definition topology_calls :: "amqp_call list" where
  "topology_calls =
     map ExchangeDeclare [''notify.dispatch.x'', ''notify.retry.x'', ''notify.dead.x'']
     @ concat (map (\<lambda>q. [QueueDeclare (qName q) (qArgs q), QueueBind (qName q) (qRoute q) (qExchange q)]) queues)"

text \<open>The calls are made in order up to the first that fails; the result lists those that succeeded.\<close>

fun run_calls :: "(amqp_call \<Rightarrow> bool) \<Rightarrow> amqp_call list \<Rightarrow> bool \<times> amqp_call list" where
  "run_calls ok [] = (True, [])"
| "run_calls ok (c # cs) = (if ok c then (case run_calls ok cs of (b, ds) \<Rightarrow> (b, c # ds)) else (False, []))"

definition topology :: "(amqp_call \<Rightarrow> bool) \<Rightarrow> bool \<times> amqp_call list" where
  "topology ok = run_calls ok topology_calls"

section \<open>The connection\<close>

text \<open>A connection is a number; which of them are closed only the library knows.\<close>

record mq_client =
  cConn :: "nat option"
  cObserved :: "nat option"
  cClosed :: bool
  cPublishFailures :: nat
  cConsumeFailures :: nat
  cActive :: int

record mq_env =
  mvIsClosed :: "nat \<Rightarrow> bool"
  mvDial :: "nat option"
  mvSetup :: bool
  mvDeclares :: "amqp_call \<Rightarrow> bool"
  mvChannel :: bool

definition mq_error :: "string \<Rightarrow> error" where
  "mq_error s = OtherError s"

definition live_connection :: "mq_env \<Rightarrow> mq_client \<Rightarrow> nat option" where
  "live_connection e c = (case cConn c of None \<Rightarrow> None | Some conn \<Rightarrow> if mvIsClosed e conn then None else Some conn)"

definition connection :: "mq_env \<Rightarrow> mq_client \<Rightarrow> (error + nat) \<times> mq_client" where
  "connection e c =
     (if cClosed c then (Inl (mq_error ''MQ closed''), c)
      else case live_connection e c of
        Some conn \<Rightarrow> (Inr conn, c)
      | None \<Rightarrow>
          (case mvDial e of
             None \<Rightarrow> (Inl (mq_error ''AMQP connect failed''), c)
           | Some new \<Rightarrow>
               if \<not> mvSetup e \<or> \<not> fst (topology (mvDeclares e)) then (Inl (mq_error ''amqp''), c)
               else (Inr new, c\<lparr>cConn := Some new, cObserved := Some new\<rparr>)))"

definition channel :: "mq_env \<Rightarrow> mq_client \<Rightarrow> (error + nat) \<times> mq_client" where
  "channel e c =
     (case connection e c of
        (Inl x, c') \<Rightarrow> (Inl x, c')
      | (Inr conn, c') \<Rightarrow> (if mvChannel e then Inr conn else Inl (mq_error ''amqp''), c'))"

definition Ready :: "mq_env \<Rightarrow> mq_client \<Rightarrow> bool" where
  "Ready e c = (case cObserved c of None \<Rightarrow> False | Some conn \<Rightarrow> \<not> mvIsClosed e conn)"

definition Ensure :: "mq_env \<Rightarrow> bool \<Rightarrow> mq_client \<Rightarrow> error option \<times> mq_client" where
  "Ensure e shut c =
     (case channel e c of
        (Inl x, c') \<Rightarrow> (Some x, c')
      | (Inr _, c') \<Rightarrow> (if shut then None else Some (mq_error ''amqp''), c'))"

definition Close :: "mq_client \<Rightarrow> mq_client" where
  "Close c = c\<lparr>cClosed := True, cObserved := None\<rparr>"

section \<open>Publishing\<close>

text \<open>
  What the three-way \<^verbatim>\<open>select\<close> after a publish sees first; a confirmation comes with whether the
  message had been returned as unroutable by then, which the broker says before it confirms.
\<close>

datatype publish_event = CtxDone | Returned | Confirmed bool bool bool

record publish_env =
  pvConfirm :: bool
  pvPublish :: bool
  pvEvent :: publish_event

definition publish_exchange :: "string \<Rightarrow> string" where
  "publish_exchange route = (if route \<noteq> ''dispatch'' then ''notify.retry.x'' else ''notify.dispatch.x'')"

definition Publish :: "codec \<Rightarrow> mq_env \<Rightarrow> publish_env \<Rightarrow> Outbox \<Rightarrow> mq_client \<Rightarrow> error option \<times> mq_client" where
  "Publish J e p ob c =
     (case channel e c of
        (Inl x, c') \<Rightarrow> (Some x, c')
      | (Inr _, c') \<Rightarrow>
          (if \<not> pvConfirm p then Some (mq_error ''amqp'')
           else case marshal_Event J (oEvent ob) of
                  None \<Rightarrow> Some json_error
                | Some body \<Rightarrow>
                    if \<not> pvPublish p then Some (mq_error ''amqp'')
                    else (case pvEvent p of
                            CtxDone \<Rightarrow> Some (mq_error ''context'')
                          | Returned \<Rightarrow> Some (mq_error ''unroutable publish'')
                          | Confirmed open_chan ack returned \<Rightarrow>
                              if \<not> open_chan \<or> \<not> ack then Some (mq_error ''publish not confirmed'')
                              else if returned then Some (mq_error ''unroutable publish'')
                              else None),
           c'))"

section \<open>Consuming\<close>

datatype ack = Ack | Nack | Reject

definition valid_message :: "codec \<Rightarrow> string \<Rightarrow> Event option" where
  "valid_message J body =
     (if length body > 4096 then None
      else case unmarshal_Event J body of
             None \<Rightarrow> None
           | Some ev \<Rightarrow>
               if eSchema ev \<noteq> 1 \<or> eType ev \<noteq> ''dispatch'' \<or> eGeneration ev = 0 \<or> eNotification ev = zero_ID
                  \<or> eID ev = zero_ID then None
               else Some ev)"

text \<open>One message: the answer to the broker and the effect of the processor.\<close>

definition consume_message ::
  "codec \<Rightarrow> (ID \<Rightarrow> nat \<Rightarrow> 's \<Rightarrow> error option \<times> 's) \<Rightarrow> string \<Rightarrow> mq_client \<times> 's \<Rightarrow> ack \<times> mq_client \<times> 's" where
  "consume_message J process body = (\<lambda>(c, s).
     case valid_message J body of
       None \<Rightarrow> (Reject, c\<lparr>cConsumeFailures := uint64_inc (cConsumeFailures c)\<rparr>, s)
     | Some ev \<Rightarrow>
         (case process (eNotification ev) (eGeneration ev) s of
            (Some _, s') \<Rightarrow> (Nack, c\<lparr>cConsumeFailures := uint64_inc (cConsumeFailures c)\<rparr>, s')
          | (None, s') \<Rightarrow> (Ack, c, s')))"

text \<open>
  One consumer goroutine over the messages it receives, each with whether answering it succeeds; a
  failed answer ends the goroutine. \<^verbatim>\<open>Active\<close> is raised around the processor only.
\<close>

fun consumer ::
  "codec \<Rightarrow> (ID \<Rightarrow> nat \<Rightarrow> 's \<Rightarrow> error option \<times> 's) \<Rightarrow> (string \<times> bool) list \<Rightarrow> mq_client \<times> 's \<Rightarrow> ack list \<times> mq_client \<times> 's" where
  "consumer J process [] st = ([], st)"
| "consumer J process ((body, answered) # ms) st =
     (case consume_message J process body st of
        (a, st') \<Rightarrow>
          if \<not> answered then ([a], st')
          else (case consumer J process ms st' of (as, st'') \<Rightarrow> (a # as, st'')))"

section \<open>Where a published event goes\<close>

lemma run_calls_ok: "run_calls ok cs = (True, ds) \<Longrightarrow> ds = cs"
  by (induction ok cs arbitrary: ds rule: run_calls.induct) (auto split: if_splits prod.splits)

definition holds_for :: "duration \<Rightarrow> queue_spec \<Rightarrow> bool" where
  "holds_for d q \<longleftrightarrow> map_of (qArgs q) ''x-message-ttl'' = Some (TInt (d div millisecond))
     \<and> map_of (qArgs q) ''x-dead-letter-exchange'' = Some (TStr ''notify.dispatch.x'')
     \<and> map_of (qArgs q) ''x-dead-letter-routing-key'' = Some (TStr ''dispatch'')
     \<and> map_of (qArgs q) ''x-overflow'' = Some (TStr ''reject-publish'')"

lemma bucket_ms: "b \<in> set Buckets \<Longrightarrow> b div millisecond * millisecond = b"
  by (auto simp: Buckets_def go_simps)

lemma routes_unique: "distinct (map (\<lambda>q. (qExchange q, qRoute q)) queues)" by code_simp

lemma queue_of_bucket:
  assumes "b \<in> set Buckets"
  shows "retry_queue b \<in> set queues" "qRoute (retry_queue b) = BucketRoute b"
    "qExchange (retry_queue b) = publish_exchange (BucketRoute b)" "holds_for b (retry_queue b)"
proof -
  have "BucketRoute b \<noteq> ''dispatch''" using assms BucketRoute_retry [of b] by auto
  with assms show "retry_queue b \<in> set queues" "qRoute (retry_queue b) = BucketRoute b"
    "qExchange (retry_queue b) = publish_exchange (BucketRoute b)" "holds_for b (retry_queue b)"
    by (simp_all add: queues_def retry_queue_def publish_exchange_def holds_for_def Let_def)
qed

text \<open>
  A retry waits exactly as long as it was scheduled for. When a connection was set up, the route a
  granted retry is published on leads to exactly one queue; that queue keeps a message for the
  time from now to the planned instant, refuses rather than drops what it cannot hold, and passes the
  message on to the queue the workers consume.
\<close>

theorem retry_queue_matches:
  assumes "Schedule U pt now n t p d = ((nxt, route), d')" and "dAction d' = ''retry''" and "fst (topology ok)"
  shows "\<exists>q\<in>set queues. QueueBind (qName q) route (publish_exchange route) \<in> set (snd (topology ok))
    \<and> QueueDeclare (qName q) (qArgs q) \<in> set (snd (topology ok))
    \<and> {q'\<in>set queues. qExchange q' = publish_exchange route \<and> qRoute q' = route} = {q}
    \<and> holds_for (nxt - now) q \<and> now + (nxt - now) div millisecond * millisecond = nxt
    \<and> QueueBind ''notify.dispatch.q'' ''dispatch'' ''notify.dispatch.x'' \<in> set (snd (topology ok))"
proof -
  from assms(1,2) obtain b where b: "b \<in> set Buckets" "nxt = now + b" "route = BucketRoute b" by (rule Schedule_retry) blast
  note q = queue_of_bucket [OF b(1)]
  have calls: "snd (topology ok) = topology_calls"
    using assms(3) run_calls_ok [of ok topology_calls "snd (topology ok)"] by (simp add: topology_def prod_eq_iff)
  have decl: "QueueDeclare (qName x) (qArgs x) \<in> set topology_calls" "QueueBind (qName x) (qRoute x) (qExchange x) \<in> set topology_calls"
    if "x \<in> set queues" for x using that by (auto simp: topology_calls_def)
  have "QueueBind ''notify.dispatch.q'' ''dispatch'' ''notify.dispatch.x'' \<in> set topology_calls"
    by (simp add: topology_calls_def queues_def)
  moreover have "{q'\<in>set queues. qExchange q' = publish_exchange route \<and> qRoute q' = route} = {retry_queue b}"
    using distinct_map_eqD [OF routes_unique _ q(1)] q b(3) by fastforce
  moreover have "now + (nxt - now) div millisecond * millisecond = nxt" using bucket_ms [OF b(1)] b(2) by simp
  ultimately show ?thesis
    unfolding calls using q decl [OF q(1)] b by (intro bexI [of _ "retry_queue b"]) auto
qed

theorem retry_queue_matches_witness:
  "\<exists>q\<in>set queues. holds_for (30 * second) q \<and> QueueBind (qName q) ''retry.30s'' ''notify.retry.x'' \<in> set (snd (topology (\<lambda>_. True)))"
proof -
  have t: "fst (topology (\<lambda>_. True))" by code_simp
  have a: "dAction ex_decision = ''retry''" by (simp add: ex_decision_def)
  have "publish_exchange ''retry.30s'' = ''notify.retry.x''" by (simp add: publish_exchange_def)
  with retry_queue_matches [OF ex_Schedule a t] show ?thesis by (auto simp: go_simps)
qed

lemma ClaimOutbox_row:
  assumes "ClaimOutbox J e locked d = (Inr ob, d')"
  shows "\<exists>x\<in>set (outbox d). ob_id x = oID ob \<and> unmarshal_Event J (ob_payload x) = Some (oEvent ob)"
proof -
  define rows where "rows = sort_key ob_available (sort_key ob_id
    (filter (\<lambda>w. ob_status w = ''pending'' \<and> ob_available w \<le> utc e 0 \<and> \<not> locked (ob_id w)) (outbox d)))"
  have sub: "set rows \<subseteq> set (outbox d)" by (auto simp: rows_def)
  from assms obtain row rest where "rows = row # rest" "oID ob = ob_id row" "unmarshal_Event J (ob_payload row) = Some (oEvent ob)"
    unfolding ClaimOutbox_def rows_def [symmetric]
    by (auto simp: commit_def split: if_splits list.splits option.splits)
  with sub show ?thesis by auto
qed


definition ex_event :: Event where
  "ex_event = \<lparr>eSchema = 1, eID = replicate 16 1, eNotification = replicate 16 7, eGeneration = 1, eType = ''dispatch'', eCreated = 0\<rparr>"

definition ex_codec3 :: codec where
  "ex_codec3 = ex_codec\<lparr>unmarshal_Event := (\<lambda>_. Some ex_event)\<rparr>"

definition ex_ob_row :: outbox_row where
  "ex_ob_row = \<lparr>ob_id = 1, ob_event = replicate 16 1, ob_task = replicate 16 7, ob_gen = 1, ob_type = ''dispatch'',
     ob_route = ''dispatch'', ob_available = 0, ob_payload = ''e'', ob_status = ''pending'', ob_token = None,
     ob_lease_until = None, ob_published = None, ob_created = 0\<rparr>"

definition ex_queued :: db where
  "ex_queued = empty_db\<lparr>outbox := [ex_ob_row], ob_seq := 2\<rparr>"

definition ex_client :: mq_client where
  "ex_client = \<lparr>cConn = None, cObserved = None, cClosed = False, cPublishFailures = 0, cConsumeFailures = 0, cActive = 0\<rparr>"

lemma ex_ClaimOutbox:
  "\<exists>d3. ClaimOutbox ex_codec3 (ex_io second 2) (\<lambda>_. False) ex_queued =
     (Inr \<lparr>oID = 1, oEvent = ex_event, oRoute = ''dispatch'', oToken = replicate 16 2\<rparr>, d3)"
  by (simp add: ClaimOutbox_def ex_queued_def ex_ob_row_def ex_codec3_def ex_io_def utc_def datetime6_def commit_def go_simps)


section \<open>Consumers among many\<close>

lemma consumer_path:
  assumes "\<And>u g s r s'. process u g s = (r, s') \<Longrightarrow> db_path J m (f s) (f s')" and "consumer K process ms (c, s) = (as, c', s')"
  shows "db_path J (length ms * m) (f s) (f s')"
  using assms(2)
proof (induction ms arbitrary: c s as)
  case (Cons x ms)
  obtain body answered where x: "x = (body, answered)" by (cases x)
  obtain a c1 s1 where one: "consume_message K process body (c, s) = (a, c1, s1)" by (rule prod_cases3)
  have p1: "db_path J m (f s) (f s1)"
    using one assms(1) by (auto simp: consume_message_def split: option.splits prod.splits)
  show ?case
  proof (cases answered)
    case False
    then have "s' = s1" using Cons.prems x one by simp
    with p1 show ?thesis by (auto intro: db_path_mono)
  next
    case True
    then obtain as' where "consumer K process ms (c1, s1) = (as', c', s')"
      using Cons.prems x one by (auto split: prod.splits)
    from db_path_trans [OF p1 Cons.IH [OF this]] show ?thesis by simp
  qed
qed simp

end
