(* ===== verification/Dispatch.thy ===== *)
theory Dispatch
  imports Rabbit
begin

text \<open>
  The outbox dispatcher of \<^verbatim>\<open>internal/outbox/dispatcher.go\<close>: one turn of its loop claims a row,
  publishes its event and marks the row published, or hands it back. The others may change the
  database between the claim and the second store call.
\<close>

record dispatch_env =
  xvClaim :: io
  xvLocked :: "nat \<Rightarrow> bool"
  xvMQ :: mq_env
  xvPublish :: publish_env
  xvPublished :: io
  xvRelease :: io
  xvMeanwhile :: "db \<Rightarrow> db"

definition dispatch_once :: "codec \<Rightarrow> dispatch_env \<Rightarrow> db \<times> mq_client \<Rightarrow> error option \<times> db \<times> mq_client" where
  "dispatch_once J e = (\<lambda>(d, c).
     case ClaimOutbox J (xvClaim e) (xvLocked e) d of
       (Inl x, d1) \<Rightarrow> (Some x, d1, c)
     | (Inr ob, d1) \<Rightarrow>
         (case Publish J (xvMQ e) (xvPublish e) ob c of
            (None, c1) \<Rightarrow>
              (case Published (xvPublished e) ob (xvMeanwhile e d1) of
                 (Inl x, d2) \<Rightarrow> (Some x, d2, c1)
               | (Inr _, d2) \<Rightarrow> (None, d2, c1))
          | (Some x, c1) \<Rightarrow>
              (Some x, snd (ReleaseOutbox (xvRelease e) ob (xvMeanwhile e d1)),
               c1\<lparr>cPublishFailures := uint64_inc (cPublishFailures c1)\<rparr>)))"

text \<open>The loop, over the environments of its turns; the pause after an error is not visible.\<close>

fun dispatcher :: "codec \<Rightarrow> dispatch_env list \<Rightarrow> db \<times> mq_client \<Rightarrow> db \<times> mq_client" where
  "dispatcher J [] st = st"
| "dispatcher J (e # es) st = dispatcher J es (snd (dispatch_once J e st))"

section \<open>The dispatcher as one of many\<close>

lemma dispatch_once_path:
  assumes "\<And>d. db_path J N d (xvMeanwhile e d)" and "dispatch_once J e (d, c) = (res, d', c')"
  shows "db_path J (N + 2) d d'"
proof -
  obtain r d1 where cl: "ClaimOutbox J (xvClaim e) (xvLocked e) d = (r, d1)" by (rule prod.exhaust)
  have p1: "db_path J 1 d d1" using db_path_simple(7) [OF cl] .
  show ?thesis
  proof (cases r)
    case (Inl x)
    with assms(2) cl have "d' = d1" by (simp add: dispatch_once_def)
    with p1 show ?thesis by (auto intro: db_path_mono)
  next
    case (Inr ob)
    have "db_path J 1 (xvMeanwhile e d1) d'"
      using assms(2) cl Inr db_path_simple(8,9)
      by (auto simp: dispatch_once_def split: prod.splits option.splits sum.splits) (metis prod.collapse)+
    from db_path_trans [OF db_path_trans [OF p1 assms(1)] this] show ?thesis by (rule db_path_mono) simp
  qed
qed

section \<open>Confirmed before forgotten\<close>

lemma Published_rows:
  assumes "Published e ob d = (res, d')" and "w \<in> set (outbox d')" and "ob_status w = ''published''"
  shows "w \<in> set (outbox d) \<or> ob_id w = oID ob"
  using assms by (auto simp: Published_def commit_def Let_def split: if_splits)

lemma ReleaseOutbox_rows:
  assumes "ReleaseOutbox e ob d = (res, d')" and "w \<in> set (outbox d')" and "ob_status w = ''published''"
  shows "w \<in> set (outbox d)"
  using assms by (auto simp: ReleaseOutbox_def commit_def split: if_splits)

lemma ClaimOutbox_published:
  assumes "ClaimOutbox J e locked d = (res, d')" and "w \<in> set (outbox d')" and "ob_status w = ''published''"
  shows "w \<in> set (outbox d)"
  using assms by (auto simp: ClaimOutbox_def commit_def split: if_splits list.splits option.splits)

text \<open>
  C16: an event is forgotten only after the broker has it. In one turn of the dispatcher no row becomes
  published but the one it claimed, and that one only if the broker confirmed the message without
  returning it as unroutable; and when publishing failed and the store answers, the row is no
  longer held by this turn, so the next turn can claim it again.
\<close>

theorem dispatch_confirms:
  assumes run: "dispatch_once J e (d, c) = (res, d', c')" and w: "w \<in> set (outbox d')"
    and cl: "ClaimOutbox J (xvClaim e) (xvLocked e) d = (Inr ob, d1)" and pub: "Publish J (xvMQ e) (xvPublish e) ob c = (p, c1)"
  shows "(ob_status w = ''published'' \<longrightarrow> w \<in> set (outbox (xvMeanwhile e d1))
      \<or> ob_id w = oID ob \<and> p = None \<and> pvEvent (xvPublish e) = Confirmed True True False \<and> marshal_Event J (oEvent ob) \<noteq> None)
    \<and> (p \<noteq> None \<and> \<not> io_fails (xvRelease e) 0 \<and> ob_id w = oID ob \<longrightarrow>
         ob_status w \<noteq> ''publishing'' \<or> ob_token w \<noteq> Some (oToken ob))"
proof (cases p)
  case None
  have conf: "pvEvent (xvPublish e) = Confirmed True True False \<and> marshal_Event J (oEvent ob) \<noteq> None"
    using pub None by (auto simp: Publish_def split: prod.splits sum.splits if_splits option.splits publish_event.splits)
  obtain r where "Published (xvPublished e) ob (xvMeanwhile e d1) = (r, d')"
    using run cl pub None by (auto simp: dispatch_once_def split: prod.splits sum.splits)
  from Published_rows [OF this w] conf None show ?thesis by auto
next
  case (Some x)
  then have rel: "ReleaseOutbox (xvRelease e) ob (xvMeanwhile e d1) = (fst (ReleaseOutbox (xvRelease e) ob (xvMeanwhile e d1)), d')"
    using run cl pub by (auto simp: dispatch_once_def)
  have "ob_status w \<noteq> ''publishing'' \<or> ob_token w \<noteq> Some (oToken ob)"
    if "\<not> io_fails (xvRelease e) 0" "ob_id w = oID ob"
    using rel w that by (auto simp: ReleaseOutbox_def commit_def)
  with ReleaseOutbox_rows [OF rel w] Some show ?thesis by auto
qed

definition ex_turn :: dispatch_env where
  "ex_turn = \<lparr>xvClaim = ex_io second 2, xvLocked = (\<lambda>_. False),
     xvMQ = \<lparr>mvIsClosed = (\<lambda>_. False), mvDial = Some 0, mvSetup = True, mvDeclares = (\<lambda>_. True), mvChannel = True\<rparr>,
     xvPublish = \<lparr>pvConfirm = True, pvPublish = True, pvEvent = Confirmed True True False\<rparr>,
     xvPublished = ex_io (2 * second) 3, xvRelease = ex_io (2 * second) 3, xvMeanwhile = (\<lambda>d. d)\<rparr>"

theorem dispatch_confirms_witness:
  "\<exists>d' c' w. dispatch_once ex_codec3 ex_turn (ex_queued, ex_client) = (None, d', c') \<and> outbox d' = [w]
     \<and> ob_status w = ''published'' \<and> pvEvent (xvPublish ex_turn) = Confirmed True True False"
proof -
  let ?ob = "\<lparr>oID = 1, oEvent = ex_event, oRoute = ''dispatch'', oToken = replicate 16 2\<rparr>"
  obtain d1 where cl: "ClaimOutbox ex_codec3 (ex_io second 2) (\<lambda>_. False) ex_queued = (Inr ?ob, d1)" using ex_ClaimOutbox by blast
  have d1: "outbox d1 = [ex_ob_row\<lparr>ob_status := ''publishing'', ob_token := Some (replicate 16 2), ob_lease_until := Some (31 * second)\<rparr>]"
    using cl by (auto simp: ClaimOutbox_def ex_queued_def ex_ob_row_def ex_codec3_def ex_io_def utc_def datetime6_def commit_def go_simps)
  have t: "fst (topology (\<lambda>_. True))" by code_simp
  have pub: "Publish ex_codec3 (xvMQ ex_turn) (xvPublish ex_turn) ?ob ex_client = (None, ex_client\<lparr>cConn := Some 0, cObserved := Some 0\<rparr>)"
    using t by (simp add: Publish_def channel_def connection_def live_connection_def ex_turn_def ex_client_def ex_codec3_def ex_codec_def)
  have "\<exists>d' w. Published (ex_io (2 * second) 3) ?ob d1 = (Inr (), d') \<and> outbox d' = [w] \<and> ob_status w = ''published''"
    by (simp add: Published_def d1 commit_def ex_io_def utc_def datetime6_def ex_ob_row_def go_simps)
  then obtain d' w where fin: "Published (ex_io (2 * second) 3) ?ob d1 = (Inr (), d')" "outbox d' = [w]" "ob_status w = ''published''" by blast
  have run: "dispatch_once ex_codec3 ex_turn (ex_queued, ex_client) = (None, d', ex_client\<lparr>cConn := Some 0, cObserved := Some 0\<rparr>)"
    using cl pub fin(1) by (simp add: dispatch_once_def) (simp add: ex_turn_def)
  have cl': "ClaimOutbox ex_codec3 (xvClaim ex_turn) (xvLocked ex_turn) ex_queued = (Inr ?ob, d1)" using cl by (simp add: ex_turn_def)
  have "w \<notin> set (outbox (xvMeanwhile ex_turn d1))" using fin(3) by (auto simp: d1 ex_turn_def)
  with dispatch_confirms [OF run _ cl' pub, of w] run fin show ?thesis by auto
qed

end
