(* ===== verification/Health.thy ===== *)
theory Health
  imports Rabbit
begin

text \<open>
  Package \<^verbatim>\<open>internal/observability\<close>: readiness, the health endpoints and the periodic numbers. Pings are
  arguments; the answers are records where the code builds maps for the JSON encoder.
\<close>

section \<open>Readiness\<close>

record Health =
  hRoles :: "string list"
  hDraining :: bool
  hMQ :: mq_client
  hConfig :: Manager
  hQuota :: Limiter

record health_env =
  gvBusiness :: bool
  gvControl :: bool
  gvRedis :: bool
  gvMQ :: mq_env
  gvHostname :: string

record health_detail =
  hdDraining :: bool
  hdRoles :: "string list"
  hdInstance :: string
  hdBusiness :: bool
  hdControl :: bool
  hdRedis :: bool
  hdRabbit :: bool
  hdRevision :: "nat option"
  hdActive :: int
  hdDegraded :: bool
  hdReady :: bool

definition dependencies :: "health_env \<Rightarrow> Health \<Rightarrow> bool \<times> health_detail" where
  "dependencies e h =
     (let mqOK = Ready (gvMQ e) (hMQ h);
          snap = mCurrent (hConfig h);
          ready0 = (gvBusiness e \<and> snap \<noteq> None \<and> \<not> hDraining h);
          ready1 = (if ''worker'' \<in> set (hRoles h) \<or> ''outbox'' \<in> set (hRoles h) then ready0 \<and> mqOK else ready0);
          ready = (case snap of
                     None \<Rightarrow> ready1
                   | Some s \<Rightarrow>
                       if \<not> gvRedis e \<and> list_ex (\<lambda>(_, q). qFailMode q = ''closed'') (snQuotas s) then False else ready1)
      in (ready,
          \<lparr>hdDraining = hDraining h, hdRoles = hRoles h, hdInstance = gvHostname e, hdBusiness = gvBusiness e,
           hdControl = gvControl e, hdRedis = gvRedis e, hdRabbit = mqOK, hdRevision = map_option snRevision snap,
           hdActive = cActive (hMQ h), hdDegraded = (lDegraded (hQuota h) \<or> \<not> gvRedis e), hdReady = ready\<rparr>))"

section \<open>Endpoints\<close>

datatype health_body = Live bool | IsReady bool | Detail health_detail

text \<open>\<^const>\<open>None\<close> is the answer of the multiplexer to any other path or method.\<close>

definition health_handler :: "health_env \<Rightarrow> string \<Rightarrow> string list \<Rightarrow> Health \<Rightarrow> (int \<times> health_body) option" where
  "health_handler e meth segs h =
     (if meth \<notin> set [''GET'', ''HEAD''] then None
      else if segs = [''health'', ''live''] then Some (200, Live True)
      else if segs = [''health'', ''ready''] then
        (case dependencies e h of (ok, _) \<Rightarrow> Some (if ok then 200 else 503, IsReady ok))
      else if segs = [''health'', ''detail''] then
        (case dependencies e h of (_, detail) \<Rightarrow> Some (200, Detail detail))
      else None)"

section \<open>Statistics\<close>

text \<open>The two queries over the backlog; the age is in whole seconds.\<close>

record backlog =
  bkPending :: nat
  bkInFlight :: nat
  bkAge :: int
  bkOutbox :: nat

definition waiting :: "db \<Rightarrow> task list" where
  "waiting d = filter (\<lambda>r. tk_status r = ''pending'') (tasks d)"

definition seconds_between :: "gotime \<Rightarrow> gotime \<Rightarrow> int" where
  "seconds_between a b = (if b < a then - ((a - b) div second) else (b - a) div second)"

definition Stats :: "gotime \<Rightarrow> db \<Rightarrow> backlog" where
  "Stats now d =
     \<lparr>bkPending = length (waiting d),
      bkInFlight = length (filter (\<lambda>r. tk_status r = ''in_flight'') (tasks d)),
      bkAge = (if waiting d = [] then 0 else seconds_between (Min (set (map tk_created (waiting d)))) now),
      bkOutbox = length (filter (\<lambda>w. ob_status w \<in> {''pending'', ''publishing''}) (outbox d))\<rparr>"

section \<open>What readiness promises\<close>

lemma check_quotas_modes: "check_quotas g qs = None \<Longrightarrow> \<forall>(_, q)\<in>set qs. qFailMode q \<in> {''open'', ''closed''}"
  by (induction g qs rule: check_quotas.induct) (auto split: if_splits option.splits)

lemma Build_modes:
  assumes "Build K env_ok now revision b = Inr s"
  shows "\<forall>(_, q)\<in>set (snQuotas s). qFailMode q \<in> {''open'', ''closed''}"
proof -
  from assms have "check_quotas None (snQuotas s) = None"
    by (auto simp: Build_def split: sum.splits if_splits option.splits)
  then show ?thesis by (rule check_quotas_modes)
qed

lemma Ingress_open: "qFailMode q = ''open'' \<Longrightarrow> \<exists>b st'. Ingress fault us client q st = (Inr b, st')"
  by (auto simp: Ingress_def split: prod.splits option.splits)

text \<open>
  A ready instance can do its work. With a configuration that was accepted, an instance that reports
  ready reached the business database, is not draining, holds an open broker connection if a role
  of it needs one, and the admission quota of no configured client can answer that it is unavailable:
  either Redis answered the ping, or every policy admits when Redis fails.
\<close>

theorem ready_can_work:
  assumes ready: "fst (dependencies e h)" and cfg: "mCurrent (hConfig h) = Some s" "Build K env_ok t revision b = Inr s"
    and client: "map_of (snClients s) client = Some c"
  shows "gvBusiness e \<and> \<not> hDraining h
    \<and> (''worker'' \<in> set (hRoles h) \<or> ''outbox'' \<in> set (hRoles h) \<longrightarrow>
         (\<exists>conn. cObserved (hMQ h) = Some conn \<and> \<not> mvIsClosed (gvMQ e) conn))
    \<and> (gvRedis e \<or> (\<forall>fault us st. \<exists>admitted st'. Ingress fault us client (go_get zero_Quota (snQuotas s) (clQuota c)) st = (Inr admitted, st')))"
proof -
  have "\<exists>q. map_of (snQuotas s) (clQuota c) = Some q"
    using Build_ok [OF cfg(2)] map_of_SomeD [OF client] by (fastforce simp: snapshot_ok_def)
  then obtain q where q: "map_of (snQuotas s) (clQuota c) = Some q" by blast
  have "qFailMode q = ''open''" if "\<not> gvRedis e"
  proof -
    have "\<not> list_ex (\<lambda>(_, q). qFailMode q = ''closed'') (snQuotas s)"
      using ready cfg(1) that by (auto simp: dependencies_def Let_def split: if_splits)
    with Build_modes [OF cfg(2)] map_of_SomeD [OF q] show ?thesis by (fastforce simp: list_ex_iff)
  qed
  then have "gvRedis e \<or> (\<forall>fault us st. \<exists>admitted st'. Ingress fault us client (go_get zero_Quota (snQuotas s) (clQuota c)) st = (Inr admitted, st'))"
    using Ingress_open q by (auto simp: go_get_def)
  moreover have "gvBusiness e \<and> \<not> hDraining h \<and> (''worker'' \<in> set (hRoles h) \<or> ''outbox'' \<in> set (hRoles h) \<longrightarrow>
      (\<exists>conn. cObserved (hMQ h) = Some conn \<and> \<not> mvIsClosed (gvMQ e) conn))"
    using ready cfg(1) by (auto simp: dependencies_def Let_def Ready_def split: if_splits option.splits)
  ultimately show ?thesis by blast
qed

definition ex_health :: Health where
  "ex_health = \<lparr>hRoles = [''api'', ''worker''], hDraining = False,
     hMQ = \<lparr>cConn = Some 0, cObserved = Some 0, cClosed = False, cPublishFailures = 0, cConsumeFailures = 0, cActive = 0\<rparr>,
     hConfig = ex_manager, hQuota = New 5 5\<rparr>"

definition ex_pings :: health_env where
  "ex_pings = \<lparr>gvBusiness = True, gvControl = False, gvRedis = True,
     gvMQ = \<lparr>mvIsClosed = (\<lambda>_. False), mvDial = None, mvSetup = False, mvDeclares = (\<lambda>_. False), mvChannel = False\<rparr>,
     gvHostname = ''a''\<rparr>"

theorem ready_can_work_witness:
  "fst (dependencies ex_pings ex_health) \<and> (\<exists>conn. cObserved (hMQ ex_health) = Some conn \<and> \<not> mvIsClosed (gvMQ ex_pings) conn)"
proof -
  from ex_manager_current obtain s where s: "mCurrent (hConfig ex_health) = Some s" "Build ex_tool True 0 7 ''{}'' = Inr s"
    by (auto simp: ex_health_def)
  have ready: "fst (dependencies ex_pings ex_health)"
    using s(1) by (simp add: dependencies_def Let_def Ready_def ex_health_def ex_pings_def)
  have "\<exists>c. map_of (snClients s) ''c'' = Some c"
    using s(2) by (auto simp: Build_def Decode_def ex_tool_def ex_tool_doc_def split: sum.splits option.splits if_splits)
  then obtain c where "map_of (snClients s) ''c'' = Some c" by blast
  from ready_can_work [OF ready s this] ready show ?thesis by (auto simp: ex_health_def)
qed

text \<open>The backlog is empty exactly when every notification is settled.\<close>

lemma Stats_settled:
  assumes "wf_db d"
  shows "bkPending (Stats now d) = 0 \<and> bkInFlight (Stats now d) = 0
    \<longleftrightarrow> (\<forall>r\<in>set (tasks d). tk_status r = ''delivered'' \<or> tk_status r = ''failed'')"
  using assms by (fastforce simp: Stats_def waiting_def filter_empty_conv wf_db_def tasks_ok_def row_ok_def)

end
