(* ===== verification/Admin.thy ===== *)
theory Admin
  imports Manager
begin

text \<open>
  The command \<^verbatim>\<open>cmd/notify-admin\<close>: the only writer of the control database. It validates a document,
  compares it with the one in force and stores it under the next revision.
\<close>

section \<open>Revisions of entities\<close>

text \<open>\<^verbatim>\<open>json.Marshal\<close> of the three kinds of entity that have a revision.\<close>

record entity_text =
  etTarget :: "Target \<Rightarrow> string"
  etRetry :: "Retry \<Rightarrow> string"
  etHook :: "Hook \<Rightarrow> string"

definition check_entity :: "('a \<Rightarrow> string) \<Rightarrow> ('a \<Rightarrow> nat) \<Rightarrow> (string \<times> 'a) list \<Rightarrow> string \<times> 'a \<Rightarrow> error option" where
  "check_entity text rv old = (\<lambda>(name, b).
     case map_of old name of
       None \<Rightarrow> None
     | Some a \<Rightarrow>
         if rv b < rv a \<or> (text a \<noteq> text b \<and> rv b \<le> rv a)
         then Some (fails (name @ '' changed without increasing revision'')) else None)"

definition monotonic :: "entity_text \<Rightarrow> Snapshot \<Rightarrow> Snapshot \<Rightarrow> error option" where
  "monotonic T old new =
     (case each (check_entity (etTarget T) tgRevision (snTargets old)) (snTargets new) of
        Some x \<Rightarrow> Some x
      | None \<Rightarrow>
          (case each (check_entity (etRetry T) rtRevision (snRetries old)) (snRetries new) of
             Some x \<Rightarrow> Some x
           | None \<Rightarrow> each (check_entity (etHook T) hkRevision (snHooks old)) (snHooks new)))"

section \<open>The command\<close>

text \<open>
  What one run meets: flags, file and environment, the faults of its database calls (0 begin, 1 the
  revision, 2 the document, 3 insert, 4 update, 5 commit, which may have been applied all the same), and
  whether \<^verbatim>\<open>cel.NewEnv\<close> succeeds. \<open>avColumn\<close> is the JSON column: the text it returns for a text
  stored, if it takes it.
\<close>

record admin_env =
  avFile :: "string option"
  avApply :: bool
  avActor :: string
  avDSN :: string
  avOpen :: bool
  avFails :: "nat \<Rightarrow> bool"
  avApplied :: bool
  avEnv :: "nat \<Rightarrow> bool"
  avNow :: "nat \<Rightarrow> gotime"
  avColumn :: "string \<Rightarrow> string option"

text \<open>The comparison with the document in force, of revision \<open>rv0\<close>; \<open>s\<close> is the snapshot of the new one.\<close>

definition check_previous :: "toolkit \<Rightarrow> entity_text \<Rightarrow> admin_env \<Rightarrow> Snapshot \<Rightarrow> nat \<Rightarrow> control_db \<Rightarrow> error option" where
  "check_previous K T e s rv0 c =
     (if rv0 > 0 then
        (if avFails e 2 then Some control_error
         else case cdDocument c rv0 of
           None \<Rightarrow> Some ErrNoRows
         | Some previous \<Rightarrow>
             (case Build K (avEnv e 1) (avNow e 1) rv0 previous of
                Inl x \<Rightarrow> Some x
              | Inr old \<Rightarrow> monotonic T old s))
      else None)"

text \<open>The two writes and the commit.\<close>

definition store_document :: "admin_env \<Rightarrow> string \<Rightarrow> nat \<Rightarrow> control_db \<Rightarrow> (error + string) \<times> control_db" where
  "store_document e b rv1 c =
     (case avColumn e b of
        None \<Rightarrow> (Inl control_error, c)
      | Some text \<Rightarrow>
          if avFails e 3 \<or> cdDocument c rv1 \<noteq> None \<or> avFails e 4 then (Inl control_error, c)
          else let c' = c\<lparr>cdRevision := Some rv1, cdDocument := (cdDocument c)(rv1 \<mapsto> text)\<rparr>
               in if avFails e 5 then (Inl control_error, if avApplied e then c' else c)
                  else (Inr [], c'))"

definition apply_document ::
  "toolkit \<Rightarrow> entity_text \<Rightarrow> admin_env \<Rightarrow> string \<Rightarrow> Snapshot \<Rightarrow> control_db \<Rightarrow> (error + string) \<times> control_db" where
  "apply_document K T e b s c =
     (if avFails e 0 \<or> avFails e 1 then (Inl control_error, c)
      else case cdRevision c of
        None \<Rightarrow> (Inl ErrNoRows, c)
      | Some rv0 \<Rightarrow>
          (case check_previous K T e s rv0 c of
             Some x \<Rightarrow> (Inl x, c)
           | None \<Rightarrow> store_document e b (uint64_inc rv0) c))"

definition admin_run :: "toolkit \<Rightarrow> entity_text \<Rightarrow> admin_env \<Rightarrow> control_db \<Rightarrow> (error + string) \<times> control_db" where
  "admin_run K T e c =
     (case avFile e of
        None \<Rightarrow> (Inl (fails ''cannot read''), c)
      | Some b \<Rightarrow>
          (case Build K (avEnv e 0) (avNow e 0) 0 b of
             Inl x \<Rightarrow> (Inl x, c)
           | Inr s \<Rightarrow>
               if \<not> avApply e then (Inr ''configuration valid'', c)
               else if avActor e = [] \<or> length (avActor e) > 128 then (Inl (fails ''valid actor required''), c)
               else if avDSN e = [] then (Inl (fails ''NOTIFIER_ADMIN_DSN required''), c)
               else if \<not> avOpen e then (Inl control_error, c)
               else apply_document K T e b s c))"

section \<open>The history of documents\<close>

text \<open>
  The state of the control database: documents for exactly the revisions from 1 to the current one,
  each accepted by \<^const>\<open>Build\<close> when it was stored.
\<close>

definition control_ok :: "control_db \<Rightarrow> bool" where
  "control_ok c \<longleftrightarrow> (\<exists>rv0. cdRevision c = Some rv0 \<and> dom (cdDocument c) = {1..rv0})"

definition fresh_control :: control_db where
  "fresh_control = \<lparr>cdRevision = Some 0, cdDocument = (\<lambda>_. None)\<rparr>"

text \<open>How a document of one revision may follow another.\<close>

definition entities_rise :: "('a \<Rightarrow> string) \<Rightarrow> ('a \<Rightarrow> nat) \<Rightarrow> (string \<times> 'a) list \<Rightarrow> (string \<times> 'a) list \<Rightarrow> bool" where
  "entities_rise text rv old new \<longleftrightarrow>
     (\<forall>(name, b)\<in>set new. \<forall>a. map_of old name = Some a \<longrightarrow> rv a \<le> rv b \<and> (rv a = rv b \<longrightarrow> text a = text b))"

lemma check_entity_None: "each (check_entity text rv old) new = None \<longleftrightarrow> entities_rise text rv old new"
proof -
  have "check_entity text rv old x = None \<longleftrightarrow>
      (\<forall>a. map_of old (fst x) = Some a \<longrightarrow> rv a \<le> rv (snd x) \<and> (rv a = rv (snd x) \<longrightarrow> text a = text (snd x)))" for x
    by (auto simp: check_entity_def case_prod_unfold split: option.splits)
  then show ?thesis by (simp add: each_None entities_rise_def case_prod_unfold)
qed

lemma monotonic_None:
  "monotonic T old new = None \<longleftrightarrow> entities_rise (etTarget T) tgRevision (snTargets old) (snTargets new)
     \<and> entities_rise (etRetry T) rtRevision (snRetries old) (snRetries new)
     \<and> entities_rise (etHook T) hkRevision (snHooks old) (snHooks new)"
  by (simp add: monotonic_def flip: check_entity_None split: option.split)

text \<open>What a run that changed the database did.\<close>

lemma store_changes:
  assumes "store_document e b rv1 c = (res, c')" and "c' \<noteq> c \<or> isl res = False"
  shows "\<exists>text. avColumn e b = Some text \<and> cdDocument c rv1 = None
    \<and> c' = c\<lparr>cdRevision := Some rv1, cdDocument := (cdDocument c)(rv1 \<mapsto> text)\<rparr>"
  using assms by (auto simp: store_document_def Let_def split: option.splits if_splits)

lemma previous_checked:
  "check_previous K T e s rv0 c = None \<Longrightarrow> 0 < rv0 \<Longrightarrow>
     \<exists>previous old. cdDocument c rv0 = Some previous \<and> Build K (avEnv e 1) (avNow e 1) rv0 previous = Inr old
       \<and> monotonic T old s = None"
  by (auto simp: check_previous_def split: if_splits option.splits sum.splits)

lemma admin_changes:
  assumes "admin_run K T e c = (res, c')" and "c' \<noteq> c"
  obtains b s rv0 doc where "avFile e = Some b" "Build K (avEnv e 0) (avNow e 0) 0 b = Inr s" "cdRevision c = Some rv0"
    "check_previous K T e s rv0 c = None" "avColumn e b = Some doc" "cdDocument c (uint64_inc rv0) = None"
    "c' = c\<lparr>cdRevision := Some (uint64_inc rv0), cdDocument := (cdDocument c)(uint64_inc rv0 \<mapsto> doc)\<rparr>"
proof -
  from assms obtain b s where b: "avFile e = Some b" "Build K (avEnv e 0) (avNow e 0) 0 b = Inr s"
    and a: "apply_document K T e b s c = (res, c')"
    by (auto simp: admin_run_def split: option.splits sum.splits if_splits)
  from a assms(2) obtain rv0 where r: "cdRevision c = Some rv0" "check_previous K T e s rv0 c = None"
    and st: "store_document e b (uint64_inc rv0) c = (res, c')"
    by (auto simp: apply_document_def split: option.splits if_splits)
  from store_changes [OF st] assms(2) b r that show thesis by blast
qed

text \<open>
  C26: the configuration only moves forward. A run of the command changes the control database only
  by adding the document it validated under the next free revision, with no stored document touched,
  and only if no target, retry policy or hook of the document in force has lost revisions or changed
  under the same revision. So however the runs go, also when a commit was applied and reported as
  failed, documents exist for exactly the revisions from 1 to the current one.
\<close>

theorem admin_only_forward:
  assumes run: "admin_run K T e c = (res, c')" and ok: "control_ok c" "cdRevision c = Some rv0" "rv0 < 2 ^ 64 - 1"
  shows "control_ok c' \<and> cdDocument c \<subseteq>\<^sub>m cdDocument c'
    \<and> (c' = c \<or> cdRevision c' = Some (rv0 + 1)
        \<and> (\<exists>b s. avFile e = Some b \<and> Build K (avEnv e 0) (avNow e 0) 0 b = Inr s \<and> cdDocument c' (rv0 + 1) = avColumn e b
           \<and> (0 < rv0 \<longrightarrow> (\<exists>previous old. cdDocument c rv0 = Some previous \<and> Build K (avEnv e 1) (avNow e 1) rv0 previous = Inr old
                \<and> entities_rise (etTarget T) tgRevision (snTargets old) (snTargets s)
                \<and> entities_rise (etRetry T) rtRevision (snRetries old) (snRetries s)
                \<and> entities_rise (etHook T) hkRevision (snHooks old) (snHooks s)))))"
proof (cases "c' = c")
  case False
  have inc: "uint64_inc rv0 = rv0 + 1" using ok(3) by (simp add: uint64_inc_def)
  from run False obtain b s doc where b: "avFile e = Some b" "Build K (avEnv e 0) (avNow e 0) 0 b = Inr s"
    and p: "check_previous K T e s rv0 c = None" and t: "avColumn e b = Some doc" "cdDocument c (rv0 + 1) = None"
    and c': "c' = c\<lparr>cdRevision := Some (rv0 + 1), cdDocument := (cdDocument c)(rv0 + 1 \<mapsto> doc)\<rparr>"
    by (rule admin_changes) (use ok(2) inc in auto)
  have "dom (cdDocument c) = {1..rv0}" using ok(1,2) by (auto simp: control_ok_def)
  then have "control_ok c'" by (auto simp: control_ok_def c')
  moreover have "cdDocument c \<subseteq>\<^sub>m cdDocument c'" using t(2) by (auto simp: map_le_def c')
  ultimately show ?thesis using b t c' previous_checked [OF p] by (auto simp: monotonic_None)
qed (use ok in simp)

definition ex_entity_text :: entity_text where
  "ex_entity_text = \<lparr>etTarget = (\<lambda>t. auSecretRef (tgAuth t)), etRetry = (\<lambda>_. []), etHook = hkExpression\<rparr>"

definition ex_admin :: admin_env where
  "ex_admin = \<lparr>avFile = Some ''{}'', avApply = True, avActor = ''ops'', avDSN = ''dsn'', avOpen = True, avFails = (\<lambda>_. False),
     avApplied = False, avEnv = (\<lambda>_. True), avNow = (\<lambda>_. 0), avColumn = Some\<rparr>"

definition ex_control1 :: control_db where
  "ex_control1 = \<lparr>cdRevision = Some 1, cdDocument = [1 \<mapsto> ''{}'']\<rparr>"

text \<open>A document follows itself.\<close>

lemma entities_rise_refl: "distinct (map fst m) \<Longrightarrow> entities_rise text rv m m"
  by (auto simp: entities_rise_def dest: eq_key_imp_eq_value)

lemma ex_admin_run: "\<exists>c'. admin_run ex_tool ex_entity_text ex_admin ex_control1 = (Inr [], c') \<and> c' \<noteq> ex_control1"
proof -
  have b: "Build ex_tool True 0 rv0 ''{}'' = Inr s \<longleftrightarrow> s = \<lparr>snRevision = rv0, snLoadedAt = 0, snTargets = the (dcTargets ex_tool_doc),
      snClients = the (dcClients ex_tool_doc), snRetries = the (dcRetries ex_tool_doc), snQuotas = the (dcQuotas ex_tool_doc),
      snHooks = [], snIssuers = [], snPrograms = [], snKeys = []\<rparr>" for rv0 s
  proof -
    have "each (check_target ex_tool ex_tool_doc) [(''t'', ex_tool_target)] = None" by code_simp
    moreover have "each check_retry (the (dcRetries ex_tool_doc)) = None" by code_simp
    moreover have "each (check_client ex_tool_doc) (the (dcClients ex_tool_doc)) = None" by code_simp
    moreover have "check_quotas None (the (dcQuotas ex_tool_doc)) = None" by code_simp
    ultimately show ?thesis by (auto simp: Build_def Decode_def ex_tool_def ex_tool_doc_def)
  qed
  obtain s0 s1 where s: "Build ex_tool True 0 0 ''{}'' = Inr s0" "Build ex_tool True 0 1 ''{}'' = Inr s1"
    and eq: "snTargets s1 = snTargets s0" "snRetries s1 = snRetries s0" "snHooks s1 = snHooks s0"
      "distinct (map fst (snTargets s0))" "distinct (map fst (snRetries s0))" "distinct (map fst (snHooks s0))"
    using b by (simp add: ex_tool_doc_def)
  from eq have "monotonic ex_entity_text s1 s0 = None" by (simp add: monotonic_None entities_rise_refl)
  then show ?thesis
    using s by (simp add: admin_run_def ex_admin_def apply_document_def ex_control1_def check_previous_def store_document_def
        uint64_inc_def Let_def)
qed

theorem admin_only_forward_witness:
  "\<exists>c'. admin_run ex_tool ex_entity_text ex_admin ex_control1 = (Inr [], c') \<and> cdRevision c' = Some 2
     \<and> control_ok c' \<and> cdDocument ex_control1 \<subseteq>\<^sub>m cdDocument c'"
proof -
  from ex_admin_run obtain c' where run: "admin_run ex_tool ex_entity_text ex_admin ex_control1 = (Inr [], c')" and "c' \<noteq> ex_control1"
    by blast
  have ok: "control_ok ex_control1" "cdRevision ex_control1 = Some 1" "(1 :: nat) < 2 ^ 64 - 1"
    by (auto simp: control_ok_def ex_control1_def split: if_splits)
  from admin_only_forward [OF run ok] run \<open>c' \<noteq> ex_control1\<close> show ?thesis by auto
qed

section \<open>An applied configuration comes into force\<close>

lemma Build_again:
  assumes "Build K e0 t0 rv0 b = Inr s" and "tkDecodeDocument K doc = tkDecodeDocument K b" and "length doc \<le> 16777216"
  shows "Build K True t1 rv1 doc = Inr (s\<lparr>snRevision := rv1, snLoadedAt := t1\<rparr>)"
proof -
  have "Decode (tkDecodeDocument K) doc = Decode (tkDecodeDocument K) b" by (simp add: Decode_def assms(2))
  with assms(1,3) show ?thesis unfolding Build_def by (auto split: sum.split_asm option.split_asm if_split_asm)
qed

lemma history_lookup_new:
  assumes "manager_ok K docs m" and "docs rv = None"
  shows "history_lookup rv m = None"
  using assms by (auto simp: history_lookup_def manager_ok_def built_def map_of_eq_None_iff split: option.splits)

lemma admin_applied:
  assumes "admin_run K T e c = (Inr [], c')" and "avApply e"
  shows "c' \<noteq> c"
proof -
  from assms obtain b s where "apply_document K T e b s c = (Inr [], c')"
    by (auto simp: admin_run_def split: option.splits sum.splits if_splits)
  then obtain rv1 where "store_document e b rv1 c = (Inr [], c')" by (auto simp: apply_document_def split: option.splits if_splits)
  from store_changes [OF this] show ?thesis by (auto dest: arg_cong [of _ _ "\<lambda>c. cdDocument c rv1"])
qed

text \<open>
  C27: what was applied comes into force. After a successful run with \<^verbatim>\<open>-apply\<close>, a manager that served
  nothing newer takes the new document at its next reload, provided the control database answers,
  the column gives back a text with the same meaning, and the secrets of the enabled targets are loaded.
\<close>

theorem applied_comes_into_force:
  assumes run: "admin_run K T e c = (Inr [], c')" "avApply e" and ok: "control_ok c" "cdRevision c = Some rv0" "rv0 < 2 ^ 64 - 1"
    and src: "avFile e = Some b" "Build K e0 t0 0 b = Inr s"
    and column: "\<And>doc. avColumn e b = Some doc \<Longrightarrow> tkDecodeDocument K doc = tkDecodeDocument K b \<and> length doc \<le> 16777216"
    and m: "manager_ok K (cdDocument c) m" "\<And>old. mCurrent m = Some old \<Longrightarrow> snRevision old \<le> rv0"
    and secrets: "\<forall>(_, t)\<in>set (snTargets s). needs_secret t \<longrightarrow> (\<exists>v. Secret m (auSecretRef (tgAuth t)) = Inr v)"
    and up: "\<not> hvFails v" "hvEnv v"
  shows "\<exists>m' s'. Reload K c' False v m = (Inr (), m') \<and> mCurrent m' = Some s' \<and> snRevision s' = rv0 + 1
    \<and> snTargets s' = snTargets s \<and> snClients s' = snClients s"
proof -
  have inc: "uint64_inc rv0 = rv0 + 1" using ok(3) by (simp add: uint64_inc_def)
  from run(1) admin_applied [OF run] obtain doc where d: "avColumn e b = Some doc" "cdDocument c (rv0 + 1) = None"
    and c': "c' = c\<lparr>cdRevision := Some (rv0 + 1), cdDocument := (cdDocument c)(rv0 + 1 \<mapsto> doc)\<rparr>"
    by (rule admin_changes) (use ok(2) inc src(1) in auto)
  let ?s = "s\<lparr>snRevision := rv0 + 1, snLoadedAt := hvNow v\<rparr>"
  have build: "Build K (hvEnv v) (hvNow v) (rv0 + 1) doc = Inr ?s"
    using Build_again [OF src(2)] column [OF d(1)] up(2) by simp
  let ?m1 = "history_store (hvPick v) (rv0 + 1) ?s m"
  have hist: "History K c' v (rv0 + 1) m = (Inr ?s, ?m1)"
    using history_lookup_new [OF m(1) d(2)] build up(1) by (simp add: History_def c')
  have "each (\<lambda>(_, t). if needs_secret t
      then (case Secret ?m1 (auSecretRef (tgAuth t)) of Inl x \<Rightarrow> Some x | Inr _ \<Rightarrow> None) else None) (snTargets ?s) = None"
    using secrets by (auto simp: each_None history_store_def Let_def split: sum.splits)
  moreover have "\<not> (case mCurrent m of None \<Rightarrow> False | Some old \<Rightarrow> snRevision old = rv0 + 1)"
    "\<not> (case mCurrent m of None \<Rightarrow> False | Some old \<Rightarrow> rv0 + 1 < snRevision old)"
    using m(2) by (force split: option.splits)+
  moreover have "cdRevision c' = Some (rv0 + 1)" by (simp add: c')
  ultimately have "Reload K c' False v m = (Inr (), ?m1\<lparr>mCurrent := Some ?s, mReloads := uint64_inc (mReloads ?m1)\<rparr>)"
    unfolding Reload_def by (simp only: hist option.case if_False if_True prod.case sum.case)
  then show ?thesis by simp
qed

theorem applied_comes_into_force_witness:
  "\<exists>c' m' s'. admin_run ex_tool ex_entity_text ex_admin ex_control1 = (Inr [], c')
     \<and> Reload ex_tool c' False \<lparr>hvFails = False, hvEnv = True, hvNow = 0, hvPick = 0\<rparr> NewManager = (Inr (), m')
     \<and> mCurrent m' = Some s' \<and> snRevision s' = 2"
proof -
  let ?v = "\<lparr>hvFails = False, hvEnv = True, hvNow = 0, hvPick = 0\<rparr>"
  from ex_admin_run obtain c' where run: "admin_run ex_tool ex_entity_text ex_admin ex_control1 = (Inr [], c')" by blast
  have a: "avApply ex_admin" "avFile ex_admin = Some ''{}''" by (simp_all add: ex_admin_def)
  have ok: "control_ok ex_control1" "cdRevision ex_control1 = Some 1" "(1 :: nat) < 2 ^ 64 - 1"
    by (auto simp: control_ok_def ex_control1_def split: if_splits)
  have "\<exists>s. Build ex_tool True 0 0 ''{}'' = Inr s \<and> snTargets s = [(''t'', ex_tool_target)]"
  proof -
    from ex_Build obtain s7 where "Build ex_tool True 0 7 ''{}'' = Inr s7" "snTargets s7 = [(''t'', ex_tool_target)]" by blast
    with Build_again [of ex_tool True 0 7 "''{}''" s7 "''{}''" 0 0] show ?thesis by simp
  qed
  then obtain s where s: "Build ex_tool True 0 0 ''{}'' = Inr s" "snTargets s = [(''t'', ex_tool_target)]" by blast
  have sec: "\<forall>(_, t)\<in>set (snTargets s). needs_secret t \<longrightarrow> (\<exists>v. Secret NewManager (auSecretRef (tgAuth t)) = Inr v)"
    using s(2) by (simp add: needs_secret_def ex_tool_target_def)
  have m: "manager_ok ex_tool (cdDocument ex_control1) NewManager" by (simp add: manager_ok_def NewManager_def)
  have "\<exists>m' s'. Reload ex_tool c' False ?v NewManager = (Inr (), m') \<and> mCurrent m' = Some s' \<and> snRevision s' = 1 + 1
    \<and> snTargets s' = snTargets s \<and> snClients s' = snClients s"
    by (rule applied_comes_into_force [OF run a(1) ok a(2) s(1) _ m _ sec]) (simp_all add: ex_admin_def NewManager_def)
  with run show ?thesis by auto
qed

end
