(* ===== verification/Session.thy ===== *)
theory Session
  imports Rabbit "HOL-Library.Multiset"
begin

text \<open>
  The consumer sessions of \<^verbatim>\<open>internal/mq/rabbitmq/client.go\<close> as a machine: the channel set-up of
  \<^verbatim>\<open>consumeSession\<close>, its worker goroutines by the position they are at, the goroutine that waits for
  them, and the loop of \<^verbatim>\<open>Consume\<close> around the sessions. The broker is the environment: it delivers
  messages up to the prefetch limit and may close the channel at any time.
\<close>

section \<open>State\<close>

text \<open>A delivery is its tag on the channel and the body of the message.\<close>

type_synonym delivery = "nat \<times> string"

datatype position =
    Waiting
  | Received delivery
  | Working delivery Event
  | Answering delivery ack
  | Pausing
  | Finished

datatype waiter = Selecting | Draining | Ended "error option"

text \<open>
  The history of the session beside its state: \<open>ssResults\<close> lists what the processor returned, \<open>ssAnswers\<close>
  what reached the broker; \<open>ssUnacked\<close> is what the broker will deliver again when the channel closes.
\<close>

record 's session =
  ssClient :: mq_client
  ssState :: 's
  ssStopped :: bool
  ssOpen :: bool
  ssNextTag :: nat
  ssBuffer :: "delivery list"
  ssConsumers :: "position list"
  ssMain :: waiter
  ssUnacked :: "delivery set"
  ssResults :: "(delivery \<times> error option) list"
  ssAnswers :: "(delivery \<times> ack) list"

section \<open>Setting up\<close>

text \<open>Opening a channel, its prefetch limit, and the subscription; each may fail.\<close>

record session_env =
  suMq :: mq_env
  suQos :: bool
  suConsume :: bool

definition open_session :: "session_env \<Rightarrow> bool \<Rightarrow> nat \<Rightarrow> mq_client \<Rightarrow> 's \<Rightarrow> (error + 's session) \<times> mq_client" where
  "open_session e stopped workers c st =
     (case channel (suMq e) c of
        (Inl x, c') \<Rightarrow> (Inl x, c')
      | (Inr _, c') \<Rightarrow>
          if \<not> suQos e \<or> \<not> suConsume e then (Inl (mq_error ''amqp''), c')
          else (Inr \<lparr>ssClient = c', ssState = st, ssStopped = stopped, ssOpen = True, ssNextTag = 0, ssBuffer = [],
                     ssConsumers = replicate workers Waiting, ssMain = Selecting, ssUnacked = {}, ssResults = [],
                     ssAnswers = []\<rparr>, c'))"

section \<open>Steps\<close>

definition fail_count :: "'s session \<Rightarrow> 's session" where
  "fail_count s = s\<lparr>ssClient := (ssClient s)\<lparr>cConsumeFailures := uint64_inc (cConsumeFailures (ssClient s))\<rparr>\<rparr>"

definition active :: "int \<Rightarrow> 's session \<Rightarrow> 's session" where
  "active k s = s\<lparr>ssClient := (ssClient s)\<lparr>cActive := cActive (ssClient s) + k\<rparr>\<rparr>"

definition goto :: "nat \<Rightarrow> position \<Rightarrow> 's session \<Rightarrow> 's session" where
  "goto i p s = s\<lparr>ssConsumers := (ssConsumers s)[i := p]\<rparr>"

text \<open>Consumer \<open>i\<close> looks at a delivery it received, after it saw that nobody asked it to stop.\<close>

definition examine :: "codec \<Rightarrow> nat \<Rightarrow> delivery \<Rightarrow> 's session \<Rightarrow> 's session" where
  "examine J i m s =
     (case valid_message J (snd m) of
        None \<Rightarrow> goto i (Answering m Reject) (fail_count s)
      | Some ev \<Rightarrow> goto i (Working m ev) (active 1 s))"

text \<open>The processor returned.\<close>

definition worked :: "nat \<Rightarrow> delivery \<Rightarrow> error option \<times> 's \<Rightarrow> 's session \<Rightarrow> 's session" where
  "worked i m r s =
     (let s1 = (active (- 1) s)\<lparr>ssState := snd r, ssResults := ssResults s @ [(m, fst r)]\<rparr> in
      case fst r of
        Some _ \<Rightarrow> goto i (Answering m Nack) (fail_count s1)
      | None \<Rightarrow> goto i (Answering m Ack) s1)"

text \<open>
  The answer: whether it reached the broker and whether the call returned without an error. An error ends
  the goroutine, a message given back makes it pause.
\<close>

definition reply :: "nat \<Rightarrow> delivery \<Rightarrow> ack \<Rightarrow> bool \<Rightarrow> bool \<Rightarrow> 's session \<Rightarrow> 's session" where
  "reply i m a sent ok s =
     goto i (if \<not> ok then Finished else if a = Nack then Pausing else Waiting)
       (if sent then s\<lparr>ssAnswers := ssAnswers s @ [(m, a)], ssUnacked := ssUnacked s - {m}\<rparr> else s)"

definition at :: "'s session \<Rightarrow> nat \<Rightarrow> position \<Rightarrow> bool" where
  "at s i p \<longleftrightarrow> i < length (ssConsumers s) \<and> ssConsumers s ! i = p"

definition all_returned :: "'s session \<Rightarrow> bool" where
  "all_returned s \<longleftrightarrow> list_all (\<lambda>p. p = Finished) (ssConsumers s)"

text \<open>The steps of the goroutines of the session; a \<^verbatim>\<open>select\<close> with several ready cases may take any.\<close>

inductive own_step :: "codec \<Rightarrow> (ID \<Rightarrow> nat \<Rightarrow> 's \<Rightarrow> error option \<times> 's) set \<Rightarrow> 's session \<Rightarrow> 's session \<Rightarrow> bool" for J Ps where
  take: "at s i Waiting \<Longrightarrow> ssBuffer s = m # ms \<Longrightarrow> own_step J Ps s (goto i (Received m) (s\<lparr>ssBuffer := ms\<rparr>))"
| closed: "at s i Waiting \<Longrightarrow> ssBuffer s = [] \<Longrightarrow> \<not> ssOpen s \<Longrightarrow> own_step J Ps s (goto i Finished s)"
| stopped: "at s i Waiting \<Longrightarrow> ssStopped s \<Longrightarrow> own_step J Ps s (goto i Finished s)"
| check_stop: "at s i (Received m) \<Longrightarrow> ssStopped s \<Longrightarrow> own_step J Ps s (goto i Finished s)"
| check_go: "at s i (Received m) \<Longrightarrow> \<not> ssStopped s \<Longrightarrow> own_step J Ps s (examine J i m s)"
| work: "at s i (Working m ev) \<Longrightarrow> process \<in> Ps \<Longrightarrow>
    own_step J Ps s (worked i m (process (eNotification ev) (eGeneration ev) (ssState s)) s)"
| answer: "at s i (Answering m a) \<Longrightarrow> ok \<longrightarrow> sent \<Longrightarrow> own_step J Ps s (reply i m a sent ok s)"
| resume: "at s i Pausing \<Longrightarrow> own_step J Ps s (goto i Waiting s)"
| pause_stop: "at s i Pausing \<Longrightarrow> ssStopped s \<Longrightarrow> own_step J Ps s (goto i Finished s)"
| cancel: "ssMain s = Selecting \<Longrightarrow> ssStopped s \<Longrightarrow> own_step J Ps s (s\<lparr>ssMain := Draining\<rparr>)"
| drained: "ssMain s = Draining \<Longrightarrow> all_returned s \<Longrightarrow> own_step J Ps s (s\<lparr>ssMain := Ended None\<rparr>)"
| lost: "ssMain s = Selecting \<Longrightarrow> all_returned s \<Longrightarrow>
    own_step J Ps s (s\<lparr>ssMain := Ended (Some (mq_error ''consumer channel ended''))\<rparr>)"

text \<open>The steps of the broker, of the process (\<open>stop\<close>) and of everyone who shares the processor's state.\<close>

inductive outer_step :: "nat \<Rightarrow> ('s \<Rightarrow> 's \<Rightarrow> bool) \<Rightarrow> 's session \<Rightarrow> 's session \<Rightarrow> bool" for prefetch R where
  deliver: "ssOpen s \<Longrightarrow> card (ssUnacked s) < prefetch \<Longrightarrow> m = (ssNextTag s, body) \<Longrightarrow>
    outer_step prefetch R s (s\<lparr>ssBuffer := ssBuffer s @ [m], ssUnacked := insert m (ssUnacked s), ssNextTag := ssNextTag s + 1\<rparr>)"
| shut: "outer_step prefetch R s (s\<lparr>ssOpen := False\<rparr>)"
| stop: "outer_step prefetch R s (s\<lparr>ssStopped := True\<rparr>)"
| others: "R (ssState s) st \<Longrightarrow> outer_step prefetch R s (s\<lparr>ssState := st\<rparr>)"

text \<open>A run, with the number of steps of the session's own goroutines.\<close>

inductive session_run ::
  "codec \<Rightarrow> (ID \<Rightarrow> nat \<Rightarrow> 's \<Rightarrow> error option \<times> 's) set \<Rightarrow> nat \<Rightarrow> ('s \<Rightarrow> 's \<Rightarrow> bool) \<Rightarrow> 's session \<Rightarrow> nat \<Rightarrow> 's session \<Rightarrow> bool"
  for J Ps prefetch R s0 where
  start: "session_run J Ps prefetch R s0 0 s0"
| own: "session_run J Ps prefetch R s0 n s \<Longrightarrow> own_step J Ps s s' \<Longrightarrow> session_run J Ps prefetch R s0 (n + 1) s'"
| outer: "session_run J Ps prefetch R s0 n s \<Longrightarrow> outer_step prefetch R s s' \<Longrightarrow> session_run J Ps prefetch R s0 n s'"

section \<open>Every delivery is accounted for\<close>

fun carried :: "position \<Rightarrow> delivery option" where
  "carried (Received m) = Some m"
| "carried (Working m ev) = Some m"
| "carried (Answering m a) = Some m"
| "carried p = None"

text \<open>What a position says about the delivery it carries.\<close>

fun position_ok :: "codec \<Rightarrow> (delivery \<times> error option) list \<Rightarrow> position \<Rightarrow> bool" where
  "position_ok J rs (Received m) \<longleftrightarrow> m \<notin> fst ` set rs"
| "position_ok J rs (Working m ev) \<longleftrightarrow> m \<notin> fst ` set rs \<and> valid_message J (snd m) = Some ev"
| "position_ok J rs (Answering m Reject) \<longleftrightarrow> m \<notin> fst ` set rs \<and> valid_message J (snd m) = None"
| "position_ok J rs (Answering m Ack) \<longleftrightarrow> (m, None) \<in> set rs"
| "position_ok J rs (Answering m Nack) \<longleftrightarrow> (\<exists>x. (m, Some x) \<in> set rs)"
| "position_ok J rs p \<longleftrightarrow> True"

text \<open>An answer agrees with what the processor said about the delivery.\<close>

definition answer_ok :: "codec \<Rightarrow> (delivery \<times> error option) list \<Rightarrow> delivery \<times> ack \<Rightarrow> bool" where
  "answer_ok J rs = (\<lambda>(m, a). position_ok J rs (Answering m a))"

definition is_working :: "position \<Rightarrow> bool" where
  "is_working p \<longleftrightarrow> (case p of Working m ev \<Rightarrow> True | _ \<Rightarrow> False)"

definition working :: "'s session \<Rightarrow> nat" where
  "working s = length (filter is_working (ssConsumers s))"

definition active_ok :: "int \<Rightarrow> 's session \<Rightarrow> bool" where
  "active_ok a0 s \<longleftrightarrow> cActive (ssClient s) = a0 + int (working s)"

text \<open>A delivery is unanswered while it is buffered or carried, and at one place only.\<close>

definition places :: "'s session \<Rightarrow> delivery multiset" where
  "places s = mset (ssBuffer s) + mset (List.map_filter carried (ssConsumers s))"

definition places_ok :: "'s session \<Rightarrow> bool" where
  "places_ok s \<longleftrightarrow> finite (ssUnacked s) \<and> places s \<subseteq># mset_set (ssUnacked s)"

definition verdict_ok :: "codec \<Rightarrow> 's session \<Rightarrow> bool" where
  "verdict_ok J s \<longleftrightarrow>
     (\<forall>i < length (ssConsumers s). position_ok J (ssResults s) (ssConsumers s ! i))
     \<and> set (ssBuffer s) \<inter> fst ` set (ssResults s) = {}
     \<and> distinct (map fst (ssResults s)) \<and> (\<forall>x \<in> set (ssAnswers s). answer_ok J (ssResults s) x)"

definition tags_ok :: "'s session \<Rightarrow> bool" where
  "tags_ok s \<longleftrightarrow> bij_betw fst (ssUnacked s \<union> fst ` set (ssAnswers s)) {..<ssNextTag s}
     \<and> ssUnacked s \<inter> fst ` set (ssAnswers s) = {} \<and> distinct (map fst (ssAnswers s))
     \<and> fst ` set (ssResults s) \<subseteq> ssUnacked s \<union> fst ` set (ssAnswers s)"

definition session_ok :: "codec \<Rightarrow> int \<Rightarrow> 's session \<Rightarrow> bool" where
  "session_ok J a0 s \<longleftrightarrow> active_ok a0 s \<and> places_ok s \<and> verdict_ok J s \<and> tags_ok s"

lemmas session_ops = goto_def fail_count_def active_def examine_def worked_def reply_def at_def Let_def

lemma open_session_ok:
  assumes "open_session e stopped workers c st = (Inr s, c')"
  shows "session_ok J (cActive c') s"
proof -
  from assms have s: "ssConsumers s = replicate workers Waiting" "ssBuffer s = []" "ssUnacked s = {}" "ssResults s = []"
      "ssAnswers s = []" "ssNextTag s = 0" "ssClient s = c'"
    by (auto simp: open_session_def split: prod.splits sum.splits if_splits)
  have "working s = 0" by (simp add: working_def s is_working_def)
  with s show ?thesis
    by (simp add: session_ok_def active_ok_def places_ok_def places_def map_filter_def verdict_ok_def tags_ok_def bij_betw_def)
qed

subsection \<open>The steps keep it\<close>

lemma count_update:
  assumes "i < length ps"
  shows "length (filter P (ps[i := p])) + (if P (ps ! i) then 1 else 0) = length (filter P ps) + (if P p then 1 else 0)"
  using assms
proof (induction ps arbitrary: i)
  case (Cons q ps)
  then show ?case by (cases i) auto
qed simp

lemma is_working_simps [simp]: "is_working (Working m ev)" "\<not> is_working Waiting" "\<not> is_working (Received m)"
  "\<not> is_working (Answering m a)" "\<not> is_working Pausing" "\<not> is_working Finished"
  by (simp_all add: is_working_def)

lemma working_goto:
  assumes "at s i q" and "ssConsumers s' = ssConsumers s"
  shows "int (working (goto i p s')) = int (working s) - (if is_working q then 1 else 0) + (if is_working p then 1 else 0)"
  using count_update [of i "ssConsumers s" is_working p] assms by (auto simp: working_def goto_def at_def)

lemma op_sel [simp]:
  "ssConsumers (fail_count s) = ssConsumers s" "ssConsumers (active k s) = ssConsumers s"
  "ssConsumers (goto i p s) = (ssConsumers s)[i := p]"
  "ssBuffer (fail_count s) = ssBuffer s" "ssBuffer (active k s) = ssBuffer s" "ssBuffer (goto i p s) = ssBuffer s"
  "ssUnacked (fail_count s) = ssUnacked s" "ssUnacked (active k s) = ssUnacked s" "ssUnacked (goto i p s) = ssUnacked s"
  "ssResults (fail_count s) = ssResults s" "ssResults (active k s) = ssResults s" "ssResults (goto i p s) = ssResults s"
  "ssAnswers (fail_count s) = ssAnswers s" "ssAnswers (active k s) = ssAnswers s" "ssAnswers (goto i p s) = ssAnswers s"
  "ssNextTag (fail_count s) = ssNextTag s" "ssNextTag (active k s) = ssNextTag s" "ssNextTag (goto i p s) = ssNextTag s"
  "ssStopped (fail_count s) = ssStopped s" "ssStopped (active k s) = ssStopped s" "ssStopped (goto i p s) = ssStopped s"
  "ssMain (fail_count s) = ssMain s" "ssMain (active k s) = ssMain s" "ssMain (goto i p s) = ssMain s"
  "cActive (ssClient (fail_count s)) = cActive (ssClient s)" "cActive (ssClient (active k s)) = cActive (ssClient s) + k"
  "cActive (ssClient (goto i p s)) = cActive (ssClient s)"
  by (simp_all add: fail_count_def active_def goto_def)

lemma own_active: "own_step J Ps s s' \<Longrightarrow> active_ok a0 s \<Longrightarrow> active_ok a0 s'"
  by (induction rule: own_step.induct)
    (auto simp: active_ok_def examine_def worked_def reply_def Let_def working_goto split: option.split,
     auto simp: working_def)

lemma outer_active: "outer_step k R s s' \<Longrightarrow> active_ok a0 s \<Longrightarrow> active_ok a0 s'"
  by (induction rule: outer_step.induct) (auto simp: active_ok_def working_def)

lemma carried_update:
  assumes "i < length ps"
  shows "mset (List.map_filter carried (ps[i := p])) + (case carried (ps ! i) of None \<Rightarrow> {#} | Some m \<Rightarrow> {#m#})
    = mset (List.map_filter carried ps) + (case carried p of None \<Rightarrow> {#} | Some m \<Rightarrow> {#m#})"
  using assms
proof (induction ps arbitrary: i)
  case (Cons q ps)
  then show ?case by (cases i) (auto simp: List.map_filter_simps split: option.splits)
qed simp

lemma places_goto:
  assumes "at s i q" and "ssConsumers s' = ssConsumers s"
  shows "places (goto i p s') + mset (ssBuffer s) + (case carried q of None \<Rightarrow> {#} | Some m \<Rightarrow> {#m#})
    = places s + mset (ssBuffer s') + (case carried p of None \<Rightarrow> {#} | Some m \<Rightarrow> {#m#})"
  using carried_update [of i "ssConsumers s" p] assms by (auto simp: places_def at_def)

lemma places_drop:
  assumes "places_ok s" and "at s i q" and "carried p = None \<or> carried p = carried q"
    and "ssConsumers s' = ssConsumers s" "ssBuffer s' = ssBuffer s" "ssUnacked s' = ssUnacked s"
  shows "places_ok (goto i p s')"
proof -
  have "places (goto i p s') \<subseteq># places s"
    using places_goto [OF assms(2,4), of p] assms(3,5)
    by (auto split: option.splits) (metis diff_subset_eq_self add_mset_remove_trivial)
  with assms(1,6) show ?thesis by (auto simp: places_ok_def)
qed

text \<open>While a consumer carries a delivery, nothing else has it.\<close>

lemma carried_once:
  assumes ok: "places_ok s" and at: "at s i q" and q: "carried q = Some m"
  shows "m \<in> ssUnacked s" and "m \<notin> set (ssBuffer s)"
    and "j < length (ssConsumers s) \<Longrightarrow> j \<noteq> i \<Longrightarrow> carried (ssConsumers s ! j) \<noteq> Some m"
proof -
  have eq: "places s = add_mset m (places (goto i Finished s))" using places_goto [OF at refl, of Finished] q by simp
  then have sub: "add_mset m (places (goto i Finished s)) \<subseteq># mset_set (ssUnacked s)" using ok by (simp add: places_ok_def)
  then show u: "m \<in> ssUnacked s" by (metis finite_set_mset_mset_set mset_subset_eq_insertD ok places_ok_def)
  have "count (mset_set (ssUnacked s)) m = 1" using u ok by (simp add: places_ok_def)
  then have none: "m \<notin># places (goto i Finished s)"
    using mset_subset_eq_count [OF sub, of m] by (simp add: not_in_iff)
  then show "m \<notin> set (ssBuffer s)" by (simp add: places_def)
  assume j: "j < length (ssConsumers s)" "j \<noteq> i"
  show "carried (ssConsumers s ! j) \<noteq> Some m"
  proof
    assume "carried (ssConsumers s ! j) = Some m"
    with j have "m \<in> set (List.map_filter carried ((ssConsumers s)[i := Finished]))"
      by (force simp: map_filter_def in_set_conv_nth nth_list_update intro!: image_eqI [of _ _ "ssConsumers s ! j"])
    with none show False by (simp add: places_def)
  qed
qed

lemma places_reply:
  assumes "places_ok s" and "at s i (Answering m a)"
  shows "places_ok (reply i m a sent ok s)"
proof (cases sent)
  case True
  let ?p = "if \<not> ok then Finished else if a = Nack then Pausing else Waiting"
  let ?s = "s\<lparr>ssAnswers := ssAnswers s @ [(m, a)], ssUnacked := ssUnacked s - {m}\<rparr>"
  have "places s = add_mset m (places (goto i ?p ?s))" using places_goto [OF assms(2), of ?s ?p] by simp
  moreover have "m \<in> ssUnacked s" using carried_once(1) [OF assms] by simp
  ultimately have "places (goto i ?p ?s) \<subseteq># mset_set (ssUnacked s) - {#m#}"
    using assms(1) by (metis places_ok_def subset_mset.add_diff_assoc2 add_mset_remove_trivial mset_subset_eq_add_mset_cancel
        insert_DiffM finite_set_mset_mset_set)
  also have "\<dots> = mset_set (ssUnacked s - {m})" using assms(1) \<open>m \<in> ssUnacked s\<close> by (simp add: places_ok_def mset_set_Diff)
  finally show ?thesis using assms(1) True by (simp add: places_ok_def reply_def)
next
  case False
  then show ?thesis by (auto simp: reply_def intro: places_drop [OF assms])
qed

lemma own_places: "own_step J Ps s s' \<Longrightarrow> places_ok s \<Longrightarrow> places_ok s'"
proof (induction rule: own_step.induct)
  case (take s i m ms)
  then have "places (goto i (Received m) (s\<lparr>ssBuffer := ms\<rparr>)) = places s"
    using places_goto [OF take(1), of "s\<lparr>ssBuffer := ms\<rparr>" "Received m"] by simp
  with take show ?case by (simp add: places_ok_def)
next
  case (check_go s i m)
  then show ?case by (auto simp: examine_def intro: places_drop split: option.split)
next
  case (work s i m ev process)
  then show ?case by (auto simp: worked_def Let_def intro: places_drop split: option.split)
next
  case (answer s i m a ok sent)
  then show ?case by (simp add: places_reply)
qed (auto intro: places_drop, auto simp: places_ok_def places_def)

lemma outer_places:
  assumes "outer_step k R s s'" and "places_ok s" and "tags_ok s"
  shows "places_ok s'"
  using assms
proof (induction rule: outer_step.induct)
  case (deliver s m body)
  have "ssNextTag s \<notin> fst ` ssUnacked s" using deliver(5) by (auto simp: tags_ok_def bij_betw_def)
  then have "m \<notin> ssUnacked s" using deliver(3) by force
  with deliver(4) show ?case by (simp add: places_ok_def places_def)
qed (simp_all add: places_ok_def places_def)

subsection \<open>Verdicts and tags\<close>

lemma position_more:
  assumes "position_ok J rs p" and "carried p \<noteq> Some m"
  shows "position_ok J (rs @ [(m, r)]) p"
  using assms by (cases "(J, rs, p)" rule: position_ok.cases) auto

lemma answer_more: "answer_ok J rs x \<Longrightarrow> fst x \<noteq> m \<Longrightarrow> answer_ok J (rs @ [(m, r)]) x"
  unfolding answer_ok_def by (auto split: prod.splits intro: position_more)

lemma verdict_goto:
  assumes "verdict_ok J s" and "position_ok J (ssResults s) p" and "ssConsumers s' = ssConsumers s"
    and "set (ssBuffer s') \<subseteq> set (ssBuffer s)" and "ssResults s' = ssResults s"
    and "\<forall>x\<in>set (ssAnswers s') - set (ssAnswers s). answer_ok J (ssResults s) x"
  shows "verdict_ok J (goto i p s')"
proof -
  have "position_ok J (ssResults s) ((ssConsumers s)[i := p] ! j)" if "j < length (ssConsumers s)" for j
    using assms(1,2) that by (cases "j = i") (auto simp: verdict_ok_def)
  moreover have "answer_ok J (ssResults s) x" if "x \<in> set (ssAnswers s')" for x
    using assms(1,6) that by (cases "x \<in> set (ssAnswers s)") (auto simp: verdict_ok_def)
  ultimately show ?thesis using assms(1,3-5) by (auto simp: verdict_ok_def)
qed

lemma own_verdict:
  assumes "own_step J Ps s s'" and "verdict_ok J s" and "places_ok s" and "tags_ok s"
  shows "verdict_ok J s'"
  using assms
proof (induction rule: own_step.induct)
  case (take s i m ms)
  then have "position_ok J (ssResults s) (Received m)" by (auto simp: verdict_ok_def)
  with take show ?case by (intro verdict_goto [OF take(3)]) auto
next
  case (check_go s i m)
  then have "position_ok J (ssResults s) (Received m)" unfolding verdict_ok_def at_def by metis
  with check_go show ?case
    by (auto simp: examine_def split: option.split intro!: verdict_goto [OF check_go(3)])
next
  case (work s i m ev process)
  have fresh: "m \<notin> fst ` set (ssResults s)"
    using work(1,3) unfolding verdict_ok_def at_def by (metis position_ok.simps(2))
  have once: "m \<in> ssUnacked s" "m \<notin> set (ssBuffer s)" "j < length (ssConsumers s) \<Longrightarrow> j \<noteq> i \<Longrightarrow> carried (ssConsumers s ! j) \<noteq> Some m" for j
    using carried_once [OF work(4,1)] by simp_all
  have "\<forall>x\<in>set (ssAnswers s). fst x \<noteq> m" using once(1) work(5) by (auto simp: tags_ok_def)
  then have "\<forall>x\<in>set (ssAnswers s). answer_ok J (ssResults s @ [(m, r)]) x" for r
    using work(3) answer_more [of J "ssResults s"] by (simp add: verdict_ok_def)
  moreover have "j < length (ssConsumers s) \<Longrightarrow> j \<noteq> i \<Longrightarrow> position_ok J (ssResults s @ [(m, r)]) (ssConsumers s ! j)" for j r
    using position_more [OF _ once(3)] work(3) by (simp add: verdict_ok_def)
  moreover have "position_ok J (ssResults s @ [(m, r)]) (Answering m (case r of None \<Rightarrow> Ack | Some _ \<Rightarrow> Nack))" for r
    by (auto split: option.split)
  moreover define r where "r = process (eNotification ev) (eGeneration ev) (ssState s)"
  ultimately have "\<forall>j < length (ssConsumers s). position_ok J (ssResults s @ [(m, fst r)])
      ((ssConsumers s)[i := Answering m (case fst r of None \<Rightarrow> Ack | Some _ \<Rightarrow> Nack)] ! j)"
    and "\<forall>x\<in>set (ssAnswers s). answer_ok J (ssResults s @ [(m, fst r)]) x"
    by (metis nth_list_update_eq nth_list_update_neq)+
  with work(3) fresh once(2) show ?case unfolding verdict_ok_def worked_def Let_def
    by (cases "fst r") (auto simp flip: r_def)
next
  case (answer s i m a ok sent)
  then have "position_ok J (ssResults s) (Answering m a)" unfolding verdict_ok_def at_def by metis
  then have "answer_ok J (ssResults s) (m, a)" by (simp add: answer_ok_def)
  then show ?case unfolding reply_def by (intro verdict_goto [OF answer(3)]) auto
qed (auto intro: verdict_goto, auto simp: verdict_ok_def)

lemma outer_verdict:
  assumes "outer_step k R s s'" and "verdict_ok J s" and "tags_ok s"
  shows "verdict_ok J s'"
  using assms
proof (induction rule: outer_step.induct)
  case (deliver s m body)
  have "ssNextTag s \<notin> fst ` fst ` set (ssResults s)" using deliver(5) unfolding tags_ok_def bij_betw_def by blast
  then have "m \<notin> fst ` set (ssResults s)" using deliver(3) by force
  with deliver(4) show ?case by (auto simp: verdict_ok_def)
qed (simp_all add: verdict_ok_def)

lemma own_tags:
  assumes "own_step J Ps s s'" and "tags_ok s" and "places_ok s"
  shows "tags_ok s'"
  using assms
proof (induction rule: own_step.induct)
  case (check_go s i m)
  then show ?case by (simp add: tags_ok_def examine_def split: option.split)
next
  case (work s i m ev process)
  then have "m \<in> ssUnacked s" using carried_once(1) [OF work(4,1)] by simp
  with work show ?case by (auto simp: tags_ok_def worked_def Let_def split: option.split)
next
  case (answer s i m a ok sent)
  then have m: "m \<in> ssUnacked s" using carried_once(1) [OF answer(4,1)] by simp
  then have "ssUnacked s - {m} \<union> insert m (fst ` set (ssAnswers s)) = ssUnacked s \<union> fst ` set (ssAnswers s)" by blast
  with answer m show ?case by (auto simp: tags_ok_def reply_def)
qed (simp_all add: tags_ok_def)

lemma outer_tags: "outer_step k R s s' \<Longrightarrow> tags_ok s \<Longrightarrow> tags_ok s'"
proof (induction rule: outer_step.induct)
  case (deliver s m body)
  let ?A = "ssUnacked s \<union> fst ` set (ssAnswers s)"
  from deliver(4) have b: "bij_betw fst ?A {..<ssNextTag s}" by (simp add: tags_ok_def)
  then have "ssNextTag s \<notin> fst ` ?A" by (simp add: bij_betw_def)
  then have new: "m \<notin> ?A" using deliver(3) by force
  have "bij_betw fst (insert m ?A) (insert (fst m) {..<ssNextTag s})"
    using b new deliver(3) by (auto simp: bij_betw_def)
  moreover have "insert (fst m) {..<ssNextTag s} = {..<ssNextTag s + 1}" using deliver(3) by auto
  ultimately show ?case using deliver(4) new by (auto simp: tags_ok_def)
qed (simp_all add: tags_ok_def)

lemma session_run_ok:
  assumes "session_run J Ps prefetch R s0 n s" and "session_ok J a0 s0"
  shows "session_ok J a0 s"
  using assms
  by (induction rule: session_run.induct)
    (auto simp: session_ok_def intro: own_active own_places own_verdict own_tags outer_active outer_places outer_verdict outer_tags)

text \<open>
  C17: no message is lost in a session. At every moment, whatever the consumers, the broker and the rest of
  the system did so far, each delivery has either been answered exactly once or is still unacknowledged,
  so that the broker delivers it again when the channel closes; the processor was called at most once for
  it; a message is acknowledged only after the processor returned without an error, given back only after
  it failed, and rejected only if it is not a valid event, without calling the processor. The gauge of
  active deliveries is the number of calls of the processor under way.
\<close>

theorem session_accounts:
  assumes "open_session e stopped workers c st = (Inr s0, c')" and "session_run J Ps prefetch R s0 n s"
  shows "bij_betw fst (ssUnacked s \<union> fst ` set (ssAnswers s)) {..<ssNextTag s}
    \<and> ssUnacked s \<inter> fst ` set (ssAnswers s) = {} \<and> distinct (map fst (ssAnswers s)) \<and> distinct (map fst (ssResults s))
    \<and> (\<forall>m. (m, Ack) \<in> set (ssAnswers s) \<longrightarrow> (m, None) \<in> set (ssResults s))
    \<and> (\<forall>m. (m, Nack) \<in> set (ssAnswers s) \<longrightarrow> (\<exists>x. (m, Some x) \<in> set (ssResults s)))
    \<and> (\<forall>m. (m, Reject) \<in> set (ssAnswers s) \<longrightarrow> valid_message J (snd m) = None \<and> m \<notin> fst ` set (ssResults s))
    \<and> cActive (ssClient s) = cActive c' + int (working s)"
proof -
  have "session_ok J (cActive c') s" using session_run_ok [OF assms(2) open_session_ok [OF assms(1)]] .
  then have ok: "verdict_ok J s" "tags_ok s" "active_ok (cActive c') s" by (simp_all add: session_ok_def)
  have "position_ok J (ssResults s) (Answering m a)" if "(m, a) \<in> set (ssAnswers s)" for m a
    using ok(1) that unfolding verdict_ok_def answer_ok_def by blast
  from this [of _ Ack] this [of _ Nack] this [of _ Reject] ok show ?thesis
    unfolding tags_ok_def active_ok_def by (simp add: verdict_ok_def)
qed

section \<open>A session that is told to stop ends\<close>

fun weight :: "position \<Rightarrow> nat" where
  "weight Finished = 0"
| "weight (Received m) = 1"
| "weight Waiting = 2"
| "weight Pausing = 3"
| "weight (Answering m a) = 4"
| "weight (Working m ev) = 5"

fun main_weight :: "waiter \<Rightarrow> nat" where
  "main_weight Selecting = 2"
| "main_weight Draining = 1"
| "main_weight (Ended r) = 0"

definition potential :: "'s session \<Rightarrow> nat" where
  "potential s = sum_list (map weight (ssConsumers s)) + main_weight (ssMain s)"

lemma sum_update:
  assumes "i < length ps"
  shows "sum_list (map f (ps[i := p])) + f (ps ! i) = sum_list (map f ps) + (f p :: nat)"
  using assms
proof (induction ps arbitrary: i)
  case (Cons q ps)
  then show ?case by (cases i) auto
qed simp

lemma potential_goto:
  assumes "at s i q" and "ssConsumers s' = ssConsumers s" "ssMain s' = ssMain s" and "weight p < weight q"
  shows "potential (goto i p s') < potential s"
  using sum_update [of i "ssConsumers s" weight p] assms by (simp add: potential_def at_def)

lemma own_potential:
  assumes "own_step J Ps s s'" and "ssStopped s"
  shows "potential s' < potential s"
  using assms
proof (induction rule: own_step.induct)
  case (work s i m ev process)
  then show ?case by (auto simp: worked_def Let_def intro!: potential_goto [OF work(1)] split: option.split)
next
  case (answer s i m a ok sent)
  then show ?case by (auto simp: reply_def intro!: potential_goto [OF answer(1)])
qed (auto intro!: potential_goto, auto simp: potential_def)

lemma outer_potential: "outer_step k R s s' \<Longrightarrow> potential s' = potential s \<and> working s' = working s"
  by (induction rule: outer_step.induct) (simp_all add: potential_def working_def)

lemma working_le:
  assumes "at s i q" and "ssConsumers s' = ssConsumers s" and "\<not> is_working p"
  shows "working (goto i p s') \<le> working s"
  using working_goto [OF assms(1,2), of p] assms(3) by (simp split: if_splits)

lemma own_working:
  assumes "own_step J Ps s s'" and "ssStopped s"
  shows "working s' \<le> working s"
  using assms
proof (induction rule: own_step.induct)
  case (work s i m ev process)
  then show ?case by (auto simp: worked_def Let_def intro!: working_le [OF work(1)] split: option.split)
next
  case (answer s i m a ok sent)
  then show ?case by (auto simp: reply_def intro!: working_le [OF answer(1)])
qed (auto intro!: working_le, auto simp: working_def)

text \<open>Nobody unwinds a stop, and a session has ended only when its consumers have.\<close>

lemma own_stopped: "own_step J Ps s s' \<Longrightarrow> ssStopped s' = ssStopped s"
  by (induction rule: own_step.induct) (auto simp: examine_def worked_def reply_def Let_def split: option.split)

lemma outer_stopped: "outer_step k R s s' \<Longrightarrow> ssStopped s \<Longrightarrow> ssStopped s'"
  by (induction rule: outer_step.induct) simp_all

definition ended_ok :: "'s session \<Rightarrow> bool" where
  "ended_ok s \<longleftrightarrow> ((\<exists>r. ssMain s = Ended r) \<longrightarrow> all_returned s)"

lemma own_ended:
  assumes "own_step J Ps s s'" and "ended_ok s"
  shows "ended_ok s'"
proof (cases "\<exists>r. ssMain s = Ended r")
  case True
  with assms(2) have "i < length (ssConsumers s) \<Longrightarrow> ssConsumers s ! i = Finished" for i
    by (simp add: ended_ok_def all_returned_def list_all_length)
  with assms(1) True show ?thesis by (induction rule: own_step.induct) (auto simp: at_def)
next
  case False
  with assms(1) show ?thesis
    by (induction rule: own_step.induct)
      (auto simp: ended_ok_def all_returned_def examine_def worked_def reply_def Let_def split: option.split)
qed

lemma outer_ended: "outer_step k R s s' \<Longrightarrow> ended_ok s \<Longrightarrow> ended_ok s'"
  by (induction rule: outer_step.induct) (auto simp: ended_ok_def all_returned_def)

text \<open>A stopped session that has not ended can go on.\<close>

lemma stopped_progress:
  assumes "ssStopped s" and "process \<in> Ps" and "\<not> (\<exists>r. ssMain s = Ended r)"
  shows "\<exists>s'. own_step J Ps s s'"
proof (cases "all_returned s")
  case True
  with assms show ?thesis by (cases "ssMain s") (blast intro: own_step.lost own_step.drained)+
next
  case False
  then obtain i where i: "i < length (ssConsumers s)" "ssConsumers s ! i \<noteq> Finished"
    by (auto simp: all_returned_def list_all_length)
  then have "at s i (ssConsumers s ! i)" by (simp add: at_def)
  with assms i(2) show ?thesis
    by (cases "ssConsumers s ! i") (auto intro: own_step.intros)
qed

lemma open_session_shape:
  assumes "open_session e stopped workers c st = (Inr s0, c')"
  shows "ended_ok s0" "length (ssConsumers s0) = workers" "ssStopped s0 = stopped"
  using assms by (auto simp: open_session_def ended_ok_def split: prod.splits sum.splits if_splits)

lemma run_length: "session_run J Ps prefetch R s0 n s \<Longrightarrow> length (ssConsumers s) = length (ssConsumers s0)"
proof (induction rule: session_run.induct)
  case (own n s s')
  from own(2) have "length (ssConsumers s') = length (ssConsumers s)"
    by (induction rule: own_step.induct) (auto simp: examine_def worked_def reply_def Let_def split: option.split)
  with own show ?case by simp
next
  case (outer n s s')
  from outer(2) have "length (ssConsumers s') = length (ssConsumers s)" by (induction rule: outer_step.induct) simp_all
  with outer show ?case by simp
qed simp

lemma run_ended: "session_run J Ps prefetch R s0 n s \<Longrightarrow> ended_ok s0 \<Longrightarrow> ended_ok s"
  by (induction rule: session_run.induct) (auto intro: own_ended outer_ended)

lemma run_stopped:
  assumes "session_run J Ps prefetch R s0 n s" and "ssStopped s0"
  shows "ssStopped s \<and> n + potential s \<le> potential s0 \<and> working s \<le> working s0"
  using assms
proof (induction rule: session_run.induct)
  case (own n s s')
  with own_potential [OF own(2)] own_working [OF own(2)] own_stopped [OF own(2)] show ?case by fastforce
next
  case (outer n s s')
  with outer_potential [OF outer(2)] outer_stopped [OF outer(2)] show ?case by simp
qed simp

lemma weight_bound: "weight p \<le> 5"
  by (cases p) simp_all

lemma potential_bound: "potential s \<le> 5 * length (ssConsumers s) + 2"
proof -
  have "sum_list (map weight ps) \<le> 5 * length ps" for ps
    by (induction ps) (use weight_bound in \<open>auto simp: add_mono\<close>)
  moreover have "main_weight (ssMain s) \<le> 2" by (cases "ssMain s") simp_all
  ultimately show ?thesis unfolding potential_def by (rule add_mono)
qed

text \<open>
  C18: a session that is told to stop drains and ends. From the moment the process stops, no consumer
  begins another message; the goroutines of the session make at most five steps for each consumer and two
  more, whatever the broker does meanwhile; as long as the session has not returned one of them can go on,
  so it returns, and when it has returned every consumer has, so no delivery is still being processed.
\<close>

theorem session_drains:
  assumes opened: "open_session e False workers c st = (Inr s0, c')" and before: "session_run J Ps prefetch R s0 k s1"
    and stop: "ssStopped s1" and after: "session_run J Ps prefetch R s1 n s" and can: "process \<in> Ps"
  shows "n \<le> 5 * workers + 2 \<and> working s \<le> working s1
    \<and> (if \<exists>r. ssMain s = Ended r then all_returned s \<and> working s = 0 else \<exists>s'. own_step J Ps s s')"
proof -
  have len: "length (ssConsumers s1) = workers"
    using run_length [OF before] open_session_shape(2) [OF opened] by simp
  have st: "ssStopped s" "n + potential s \<le> potential s1" "working s \<le> working s1" using run_stopped [OF after stop] by auto
  have "n \<le> 5 * workers + 2" using st(2) potential_bound [of s1] len by simp
  moreover have "ended_ok s" using run_ended [OF after run_ended [OF before open_session_shape(1) [OF opened]]] .
  then have "all_returned s \<and> working s = 0" if "\<exists>r. ssMain s = Ended r"
    using that by (auto simp: ended_ok_def all_returned_def working_def list_all_iff filter_empty_conv)
  ultimately show ?thesis using st(3) stopped_progress [OF st(1) can] by auto
qed

section \<open>One message\<close>

text \<open>
  A consumer that examines, works off and answers a delivery without interruption does to the client and
  the state what \<^const>\<open>consume_message\<close> says, up to the gauge, and gives the same answer.
\<close>

lemma message_refines:
  assumes "at s i (Received m)" and "\<not> ssStopped s" and "process \<in> Ps"
    and "consume_message J process (snd m) (ssClient s, ssState s) = (a, c, st)"
  shows "\<exists>s'. (own_step J Ps)\<^sup>*\<^sup>* s s' \<and> at s' i (Answering m a) \<and> ssClient s' = c \<and> ssState s' = st"
proof (cases "valid_message J (snd m)")
  case None
  let ?s = "examine J i m s"
  have "own_step J Ps s ?s" using assms(1,2) by (rule own_step.check_go)
  moreover have "at ?s i (Answering m a) \<and> ssClient ?s = c \<and> ssState ?s = st"
    using None assms(1,4) by (auto simp: session_ops consume_message_def)
  ultimately show ?thesis by blast
next
  case (Some ev)
  let ?s = "examine J i m s"
  let ?r = "process (eNotification ev) (eGeneration ev) (ssState s)"
  let ?t = "worked i m ?r ?s"
  have s: "at ?s i (Working m ev)" "ssState ?s = ssState s" "ssClient ?s = (ssClient s)\<lparr>cActive := cActive (ssClient s) + 1\<rparr>"
    using Some assms(1) by (simp_all add: session_ops)
  have "own_step J Ps s ?s" using assms(1,2) by (rule own_step.check_go)
  moreover have "own_step J Ps ?s ?t" using own_step.work [OF s(1) assms(3)] s(2) by simp
  moreover have "at ?t i (Answering m a) \<and> ssClient ?t = c \<and> ssState ?t = st"
    using Some assms(1,4) s by (cases ?r; cases "fst ?r") (auto simp: session_ops consume_message_def)
  moreover have "(own_step J Ps)\<^sup>*\<^sup>* s ?t" using calculation(1,2) by simp
  ultimately show ?thesis by blast
qed

section \<open>The loop over sessions\<close>

datatype 's phase = Testing | Serving "'s session" | Failing | Resting | Left

record 's consume =
  coPhase :: "'s phase"
  coClient :: mq_client
  coState :: 's
  coStopped :: bool

inductive consume_step :: "codec \<Rightarrow> (ID \<Rightarrow> nat \<Rightarrow> 's \<Rightarrow> error option \<times> 's) set \<Rightarrow> nat \<Rightarrow> 's consume \<Rightarrow> 's consume \<Rightarrow> bool"
  for J Ps workers where
  leave: "coPhase s = Testing \<Longrightarrow> coStopped s \<Longrightarrow> consume_step J Ps workers s (s\<lparr>coPhase := Left\<rparr>)"
| begins: "coPhase s = Testing \<Longrightarrow> \<not> coStopped s \<Longrightarrow> open_session e False workers (coClient s) (coState s) = (Inr x, c) \<Longrightarrow>
    consume_step J Ps workers s (s\<lparr>coPhase := Serving x, coClient := c\<rparr>)"
| begin_fails: "coPhase s = Testing \<Longrightarrow> \<not> coStopped s \<Longrightarrow> open_session e False workers (coClient s) (coState s) = (Inl x, c) \<Longrightarrow>
    consume_step J Ps workers s (s\<lparr>coPhase := Failing, coClient := c\<rparr>)"
| serve: "coPhase s = Serving x \<Longrightarrow> own_step J Ps x x' \<Longrightarrow>
    consume_step J Ps workers s (s\<lparr>coPhase := Serving x', coClient := ssClient x', coState := ssState x'\<rparr>)"
| ends: "coPhase s = Serving x \<Longrightarrow> ssMain x = Ended r \<Longrightarrow>
    consume_step J Ps workers s (s\<lparr>coPhase := (if r = None then Resting else Failing)\<rparr>)"
| report: "coPhase s = Failing \<Longrightarrow>
    consume_step J Ps workers s (s\<lparr>coPhase := Resting,
      coClient := (if coStopped s then coClient s
                   else (coClient s)\<lparr>cConsumeFailures := uint64_inc (cConsumeFailures (coClient s))\<rparr>)\<rparr>)"
| rested: "coPhase s = Resting \<Longrightarrow> consume_step J Ps workers s (s\<lparr>coPhase := Testing\<rparr>)"
| rest_stop: "coPhase s = Resting \<Longrightarrow> coStopped s \<Longrightarrow> consume_step J Ps workers s (s\<lparr>coPhase := Left\<rparr>)"

text \<open>The broker, the rest of the system and the stop, which the session and the loop see together.\<close>

inductive consume_outer :: "nat \<Rightarrow> ('s \<Rightarrow> 's \<Rightarrow> bool) \<Rightarrow> 's consume \<Rightarrow> 's consume \<Rightarrow> bool" for prefetch R where
  inside: "coPhase s = Serving x \<Longrightarrow> outer_step prefetch R x x' \<Longrightarrow> ssStopped x' = ssStopped x \<Longrightarrow>
    consume_outer prefetch R s (s\<lparr>coPhase := Serving x', coState := ssState x'\<rparr>)"
| halt: "consume_outer prefetch R s
    (s\<lparr>coStopped := True, coPhase := (case coPhase s of Serving x \<Rightarrow> Serving (x\<lparr>ssStopped := True\<rparr>) | p \<Rightarrow> p)\<rparr>)"
| outside: "\<forall>x. coPhase s \<noteq> Serving x \<Longrightarrow> R (coState s) st \<Longrightarrow> consume_outer prefetch R s (s\<lparr>coState := st\<rparr>)"

fun phase_weight :: "'s phase \<Rightarrow> nat" where
  "phase_weight Left = 0"
| "phase_weight Testing = 1"
| "phase_weight Resting = 2"
| "phase_weight Failing = 3"
| "phase_weight (Serving x) = 4 + potential x"

definition consume_ok :: "nat \<Rightarrow> 's consume \<Rightarrow> bool" where
  "consume_ok workers s \<longleftrightarrow>
     (\<forall>x. coPhase s = Serving x \<longrightarrow> ssStopped x = coStopped s \<and> ended_ok x \<and> length (ssConsumers x) = workers)"

lemma own_length: "own_step J Ps s s' \<Longrightarrow> length (ssConsumers s') = length (ssConsumers s)"
  by (induction rule: own_step.induct) (auto simp: examine_def worked_def reply_def Let_def split: option.split)

lemma outer_length: "outer_step k R s s' \<Longrightarrow> length (ssConsumers s') = length (ssConsumers s)"
  by (induction rule: outer_step.induct) simp_all

lemma consume_step_ok: "consume_step J Ps workers s s' \<Longrightarrow> consume_ok workers s \<Longrightarrow> consume_ok workers s'"
proof (induction rule: consume_step.induct)
  case (begins s e x c)
  then have "ssStopped x = False" "ended_ok x" "length (ssConsumers x) = workers"
    using open_session_shape [OF begins(3)] by simp_all
  with begins show ?case by (simp add: consume_ok_def)
next
  case (serve s x x')
  with own_stopped [OF serve(2)] own_ended [OF serve(2)] own_length [OF serve(2)] show ?case by (simp add: consume_ok_def)
qed (auto simp: consume_ok_def)

lemma consume_outer_ok: "consume_outer k R s s' \<Longrightarrow> consume_ok workers s \<Longrightarrow> consume_ok workers s'"
proof (induction rule: consume_outer.induct)
  case (inside s x x')
  with outer_ended [OF inside(2)] outer_length [OF inside(2)] show ?case by (simp add: consume_ok_def)
next
  case (halt s)
  then show ?case by (auto simp: consume_ok_def ended_ok_def all_returned_def split: phase.splits)
qed (auto simp: consume_ok_def)

lemma consume_step_weight:
  "consume_step J Ps workers s s' \<Longrightarrow> consume_ok workers s \<Longrightarrow> coStopped s \<Longrightarrow>
    coStopped s' \<and> phase_weight (coPhase s') < phase_weight (coPhase s)"
proof (induction rule: consume_step.induct)
  case (serve s x x')
  then show ?case using own_potential [OF serve(2)] by (simp add: consume_ok_def)
qed auto

lemma consume_outer_weight:
  "consume_outer k R s s' \<Longrightarrow> phase_weight (coPhase s') = phase_weight (coPhase s) \<and> (coStopped s \<longrightarrow> coStopped s')"
proof (induction rule: consume_outer.induct)
  case (inside s x x')
  then show ?case using outer_potential [OF inside(2)] by simp
qed (auto simp: potential_def split: phase.splits)

lemma consume_progress:
  assumes "consume_ok workers s" and "coStopped s" and "process \<in> Ps" and "coPhase s \<noteq> Left"
  shows "\<exists>s'. consume_step J Ps workers s s'"
proof (cases "coPhase s")
  case (Serving x)
  then have "ssStopped x" using assms(1,2) by (simp add: consume_ok_def)
  with Serving stopped_progress [OF _ assms(3)] show ?thesis by (meson consume_step.serve consume_step.ends)
qed (use assms in \<open>blast intro: consume_step.intros\<close>)+

section \<open>A session for the witnesses\<close>

definition ex_session_env :: session_env where
  "ex_session_env = \<lparr>suMq = \<lparr>mvIsClosed = (\<lambda>_. False), mvDial = Some 1, mvSetup = True, mvDeclares = (\<lambda>_. True), mvChannel = True\<rparr>,
     suQos = True, suConsume = True\<rparr>"

definition ex_client :: mq_client where
  "ex_client = \<lparr>cConn = Some 1, cObserved = Some 1, cClosed = False, cPublishFailures = 0, cConsumeFailures = 0, cActive = 0\<rparr>"

definition ex_session :: "nat session" where
  "ex_session = \<lparr>ssClient = ex_client, ssState = 0, ssStopped = False, ssOpen = True, ssNextTag = 0, ssBuffer = [],
     ssConsumers = [Waiting], ssMain = Selecting, ssUnacked = {}, ssResults = [], ssAnswers = []\<rparr>"

definition ex_processor :: "ID \<Rightarrow> nat \<Rightarrow> nat \<Rightarrow> error option \<times> nat" where
  "ex_processor u g k = (None, k + 1)"

lemma ex_open: "open_session ex_session_env False 1 ex_client 0 = (Inr ex_session, ex_client)"
  by (simp add: open_session_def ex_session_env_def ex_client_def channel_def connection_def live_connection_def ex_session_def)

text \<open>One message arrives, is processed and acknowledged; then the session is stopped.\<close>

definition ex_message :: Event where
  "ex_message = the (valid_message ex_codec ''e'')"

lemma ex_valid: "valid_message ex_codec ''e'' = Some ex_message"
  by (simp add: ex_message_def valid_message_def ex_codec_def zero_ID_def ex_note_def)

definition ex_received :: "nat session" where
  "ex_received = ex_session\<lparr>ssBuffer := [(0, ''e'')], ssUnacked := {(0, ''e'')}, ssNextTag := 1\<rparr>"

definition ex_answered :: "nat session" where
  "ex_answered = ex_session\<lparr>ssNextTag := 1, ssState := 1, ssResults := [((0, ''e''), None)], ssAnswers := [((0, ''e''), Ack)]\<rparr>"

lemma ex_run: "session_run ex_codec {ex_processor} 1 (\<lambda>_ _. False) ex_session 4 ex_answered"
proof -
  let ?m = "(0 :: nat, ''e'')"
  let ?s1 = "goto 0 (Received ?m) (ex_received\<lparr>ssBuffer := []\<rparr>)"
  let ?s2 = "examine ex_codec 0 ?m ?s1"
  let ?s3 = "worked 0 ?m (ex_processor (eNotification ex_message) (eGeneration ex_message) 0) ?s2"
  let ?s4 = "reply 0 ?m Ack True True ?s3"
  note defs = ex_received_def ex_session_def session_ops ex_valid ex_processor_def ex_client_def
  have "session_run ex_codec {ex_processor} 1 (\<lambda>_ _. False) ex_session 0 ex_received"
    using session_run.outer [OF session_run.start outer_step.deliver [of ex_session 1 "?m" "''e''"]]
    by (simp add: defs)
  moreover have "own_step ex_codec {ex_processor} ex_received ?s1"
    using own_step.take [of ex_received 0 ?m "[]"] by (simp add: defs)
  moreover have "own_step ex_codec {ex_processor} ?s1 ?s2" by (rule own_step.check_go) (simp_all add: defs)
  moreover have "own_step ex_codec {ex_processor} ?s2 ?s3"
    using own_step.work [of ?s2 0 ?m ex_message ex_processor "{ex_processor}" ex_codec] by (simp add: defs)
  moreover have "own_step ex_codec {ex_processor} ?s3 ?s4"
    using own_step.answer [of ?s3 0 ?m Ack True True] by (simp add: defs)
  ultimately have "session_run ex_codec {ex_processor} 1 (\<lambda>_ _. False) ex_session (0 + 1 + 1 + 1 + 1) ?s4"
    by (intro session_run.own)
  moreover have "?s4 = ex_answered" by (simp add: defs ex_answered_def)
  ultimately show ?thesis by (simp add: numeral_eq_Suc)
qed

theorem session_accounts_witness:
  "session_run ex_codec {ex_processor} 1 (\<lambda>_ _. False) ex_session 4 ex_answered
   \<and> ssAnswers ex_answered = [((0, ''e''), Ack)] \<and> ((0, ''e''), None) \<in> set (ssResults ex_answered)"
  using session_accounts [OF ex_open ex_run] ex_run by (simp add: ex_answered_def)

theorem session_drains_witness:
  "\<exists>s. session_run ex_codec {ex_processor} 1 (\<lambda>_ _. False) (ex_answered\<lparr>ssStopped := True\<rparr>) 3 s
     \<and> ssMain s = Ended None \<and> all_returned s \<and> (3 :: nat) \<le> 5 * 1 + 2"
proof -
  let ?R = "\<lambda>_ _. False" and ?s0 = "ex_answered\<lparr>ssStopped := True\<rparr>"
  let ?s1 = "goto 0 Finished ?s0"
  let ?s2 = "?s1\<lparr>ssMain := Draining\<rparr>"
  let ?s3 = "?s2\<lparr>ssMain := Ended None\<rparr>"
  note defs = ex_answered_def ex_session_def session_ops all_returned_def
  have before: "session_run ex_codec {ex_processor} 1 ?R ex_session 4 ?s0"
    using session_run.outer [OF ex_run outer_step.stop] .
  have "session_run ex_codec {ex_processor} 1 ?R ?s0 0 ?s0" by (rule session_run.start)
  moreover have "own_step ex_codec {ex_processor} ?s0 ?s1" by (rule own_step.stopped) (simp_all add: defs)
  moreover have "own_step ex_codec {ex_processor} ?s1 ?s2" by (rule own_step.cancel) (simp_all add: defs)
  moreover have "own_step ex_codec {ex_processor} ?s2 ?s3" by (rule own_step.drained) (simp_all add: defs)
  ultimately have "session_run ex_codec {ex_processor} 1 ?R ?s0 (0 + 1 + 1 + 1) ?s3"
    by (intro session_run.own)
  then have after: "session_run ex_codec {ex_processor} 1 ?R ?s0 3 ?s3" by (simp add: numeral_eq_Suc)
  have "ssStopped ?s0" by simp
  from session_drains [OF ex_open before this after, of ex_processor] after show ?thesis by auto
qed

end
