(* ===== verification/Shutdown.thy ===== *)
theory Shutdown
  imports Session
begin

text \<open>
  How the process \<^verbatim>\<open>cmd/notifier\<close> stops: the part of \<^verbatim>\<open>run\<close> after the servers have started, with the
  deferred calls, as a program of instructions beside the goroutines it waits for. The consumers are those
  of the session theory; of the other loops only matters whether they have returned, of the API server how
  many requests it serves.
\<close>

section \<open>State\<close>

datatype instr =
    AwaitStop
  | MarkDraining
  | StopSignals
  | StopLoops
  | StartGrace
  | ShutdownApi
  | AwaitDone
  | AbortAttempts
  | ShutdownHealth
  | CloseApi
  | CloseHealth
  | Release string

datatype grace = GraceOff | GraceOn | GraceOver

record api_server =
  asAccepts :: bool
  asRequests :: nat

text \<open>
  \<open>prLoops\<close> has an entry for each loop that runs under the context \<^verbatim>\<open>loops\<close>, with whether it has returned;
  \<open>prApiShutdown\<close> says that the goroutine that shuts the API server down exists, \<open>prApiDone\<close> is the channel
  \<^verbatim>\<open>apiDone\<close> it closes at its end, \<open>prReleased\<close> the resources closed by the deferred calls so far.
\<close>

record 's process =
  prMain :: "instr list"
  prConsume :: "'s consume option"
  prLoops :: "(string \<times> bool) list"
  prApi :: "api_server option"
  prApiShutdown :: bool
  prApiDone :: bool
  prErrors :: "error list"
  prResult :: "error option"
  prStop :: bool
  prLoopsStopped :: bool
  prAborted :: bool
  prDraining :: bool
  prGrace :: grace
  prHealth :: bool
  prReleased :: "string list"

section \<open>The program\<close>

text \<open>The deferred calls in the order they run, the last one registered first.\<close>

definition deferred :: "bool \<Rightarrow> instr list" where
  "deferred api = (if api then [CloseApi] else []) @ [CloseHealth, StopLoops, AbortAttempts, StopSignals] @
     map Release [''adapter'', ''mq'', ''redis'', ''control'', ''business'']"

definition run_tail :: "bool \<Rightarrow> instr list" where
  "run_tail api = [AwaitStop, MarkDraining, StopSignals, StopLoops, StartGrace, ShutdownApi, AwaitDone, AbortAttempts, ShutdownHealth]
     @ deferred api"

text \<open>What is done in addition when the grace period is over before everybody has returned.\<close>

definition forced :: "bool \<Rightarrow> instr list" where
  "forced api = [AbortAttempts, Release ''mq''] @ (if api then [CloseApi] else [])"

text \<open>The loops the roles ask for, as \<^verbatim>\<open>run\<close> launches them.\<close>

definition launched :: "string list \<Rightarrow> (string \<times> bool) list" where
  "launched roles = map (\<lambda>n. (n, False)) ([''watch'', ''stats'']
     @ (if ''worker'' \<in> set roles \<or> ''outbox'' \<in> set roles then [''connect''] else [])
     @ (if ''outbox'' \<in> set roles then [''dispatch''] else [])
     @ (if ''recovery'' \<in> set roles then [''recover''] else []))"

text \<open>
  Starting the two servers: each listens or the start fails. The process then serves, with the consumers
  at the top of their loop.
\<close>

definition start_servers :: "string list \<Rightarrow> bool \<Rightarrow> bool \<Rightarrow> mq_client \<Rightarrow> 's \<Rightarrow> error + 's process" where
  "start_servers roles listen_health listen_api c st =
     (if \<not> listen_health \<or> (''api'' \<in> set roles \<and> \<not> listen_api) then Inl (fails ''listen'')
      else let api = ''api'' \<in> set roles in
        Inr \<lparr>prMain = run_tail api,
             prConsume = (if ''worker'' \<in> set roles
                          then Some \<lparr>coPhase = Testing, coClient = c, coState = st, coStopped = False\<rparr> else None),
             prLoops = launched roles,
             prApi = (if api then Some \<lparr>asAccepts = True, asRequests = 0\<rparr> else None),
             prApiShutdown = False, prApiDone = False, prErrors = [], prResult = None, prStop = False, prLoopsStopped = False, prAborted = False,
             prDraining = False, prGrace = GraceOff, prHealth = True, prReleased = []\<rparr>)"

text \<open>The context \<^verbatim>\<open>stop\<close> is done: the consumers see it.\<close>

definition halt_consume :: "'s consume \<Rightarrow> 's consume" where
  "halt_consume c = c\<lparr>coStopped := True, coPhase := (case coPhase c of Serving x \<Rightarrow> Serving (x\<lparr>ssStopped := True\<rparr>) | p \<Rightarrow> p)\<rparr>"

definition stop_signals :: "'s process \<Rightarrow> 's process" where
  "stop_signals s = s\<lparr>prStop := True, prConsume := map_option halt_consume (prConsume s)\<rparr>"

definition all_done :: "'s process \<Rightarrow> bool" where
  "all_done s \<longleftrightarrow> list_all snd (prLoops s) \<and> (case prConsume s of None \<Rightarrow> True | Some c \<Rightarrow> coPhase c = Left) \<and> prApiDone s"

text \<open>The effect of an instruction that does not wait.\<close>

fun effect :: "instr \<Rightarrow> 's process \<Rightarrow> 's process" where
  "effect MarkDraining s = s\<lparr>prDraining := True\<rparr>"
| "effect StopSignals s = stop_signals s"
| "effect StopLoops s = s\<lparr>prLoopsStopped := True\<rparr>"
| "effect StartGrace s = s\<lparr>prGrace := GraceOn\<rparr>"
| "effect ShutdownApi s = s\<lparr>prApiShutdown := True\<rparr>"
| "effect AbortAttempts s = s\<lparr>prAborted := True\<rparr>"
| "effect ShutdownHealth s = s\<lparr>prHealth := False\<rparr>"
| "effect CloseApi s = s\<lparr>prApi := map_option (asAccepts_update (\<lambda>_. False)) (prApi s)\<rparr>"
| "effect CloseHealth s = s\<lparr>prHealth := False\<rparr>"
| "effect (Release r) s = s\<lparr>prReleased := prReleased s @ [r]\<rparr>"
| "effect AwaitStop s = s"
| "effect AwaitDone s = s"

inductive main_step :: "'s process \<Rightarrow> 's process \<Rightarrow> bool" where
  signalled: "prMain s = AwaitStop # is \<Longrightarrow> prStop s \<Longrightarrow> main_step s (s\<lparr>prMain := is\<rparr>)"
| server_failed: "prMain s = AwaitStop # is \<Longrightarrow> prErrors s = x # xs \<Longrightarrow>
    main_step s (stop_signals (s\<lparr>prMain := is, prErrors := xs, prResult := Some x\<rparr>))"
| done_first: "prMain s = AwaitDone # is \<Longrightarrow> all_done s \<Longrightarrow> main_step s (s\<lparr>prMain := is\<rparr>)"
| grace_first: "prMain s = AwaitDone # is \<Longrightarrow> prGrace s = GraceOver \<Longrightarrow> main_step s (s\<lparr>prMain := forced (prApi s \<noteq> None) @ is\<rparr>)"
| simple: "prMain s = i # is \<Longrightarrow> i \<noteq> AwaitStop \<Longrightarrow> i \<noteq> AwaitDone \<Longrightarrow> main_step s (effect i (s\<lparr>prMain := is\<rparr>))"

text \<open>Everything else: signals, server errors, the timer, and the goroutines.\<close>

inductive env_step :: "codec \<Rightarrow> (ID \<Rightarrow> nat \<Rightarrow> 's \<Rightarrow> error option \<times> 's) set \<Rightarrow> nat \<Rightarrow> nat \<Rightarrow> ('s \<Rightarrow> 's \<Rightarrow> bool) \<Rightarrow> 's process \<Rightarrow> 's process \<Rightarrow> bool"
  for J Ps workers prefetch R where
  signal: "env_step J Ps workers prefetch R s (stop_signals s)"
| server_error: "length (prErrors s) < 2 \<Longrightarrow> env_step J Ps workers prefetch R s (s\<lparr>prErrors := prErrors s @ [x]\<rparr>)"
| expire: "prGrace s = GraceOn \<Longrightarrow> env_step J Ps workers prefetch R s (s\<lparr>prGrace := GraceOver\<rparr>)"
| loop_returns: "prLoopsStopped s \<Longrightarrow> i < length (prLoops s) \<Longrightarrow>
    env_step J Ps workers prefetch R s (s\<lparr>prLoops := (prLoops s)[i := (fst (prLoops s ! i), True)]\<rparr>)"
| consume: "prConsume s = Some c \<Longrightarrow> consume_step J Ps workers c c' \<Longrightarrow> env_step J Ps workers prefetch R s (s\<lparr>prConsume := Some c'\<rparr>)"
| broker: "prConsume s = Some c \<Longrightarrow> consume_outer prefetch R c c' \<Longrightarrow> coStopped c' = coStopped c \<Longrightarrow>
    env_step J Ps workers prefetch R s (s\<lparr>prConsume := Some c'\<rparr>)"
| request: "prApi s = Some a \<Longrightarrow> asAccepts a \<Longrightarrow>
    env_step J Ps workers prefetch R s (s\<lparr>prApi := Some (a\<lparr>asRequests := asRequests a + 1\<rparr>)\<rparr>)"
| response: "prApi s = Some a \<Longrightarrow> asRequests a > 0 \<Longrightarrow>
    env_step J Ps workers prefetch R s (s\<lparr>prApi := Some (a\<lparr>asRequests := asRequests a - 1\<rparr>)\<rparr>)"
| api_closes: "prApi s = Some a \<Longrightarrow> prApiShutdown s \<Longrightarrow>
    env_step J Ps workers prefetch R s (s\<lparr>prApi := Some (a\<lparr>asAccepts := False\<rparr>)\<rparr>)"
| no_api: "prApi s = None \<Longrightarrow> prApiShutdown s \<Longrightarrow> env_step J Ps workers prefetch R s (s\<lparr>prApiDone := True\<rparr>)"
| api_drained: "prApi s = Some a \<Longrightarrow> prApiShutdown s \<Longrightarrow> \<not> asAccepts a \<Longrightarrow> asRequests a = 0 \<or> prGrace s = GraceOver \<Longrightarrow>
    env_step J Ps workers prefetch R s (s\<lparr>prApiDone := True\<rparr>)"

inductive process_run ::
  "codec \<Rightarrow> (ID \<Rightarrow> nat \<Rightarrow> 's \<Rightarrow> error option \<times> 's) set \<Rightarrow> nat \<Rightarrow> nat \<Rightarrow> ('s \<Rightarrow> 's \<Rightarrow> bool) \<Rightarrow> 's process \<Rightarrow> nat \<Rightarrow> 's process \<Rightarrow> bool"
  for J Ps workers prefetch R s0 where
  start: "process_run J Ps workers prefetch R s0 0 s0"
| main: "process_run J Ps workers prefetch R s0 n s \<Longrightarrow> main_step s s' \<Longrightarrow> process_run J Ps workers prefetch R s0 (n + 1) s'"
| env: "process_run J Ps workers prefetch R s0 n s \<Longrightarrow> env_step J Ps workers prefetch R s s' \<Longrightarrow> process_run J Ps workers prefetch R s0 n s'"

section \<open>What a shutdown respects\<close>

text \<open>Nobody is at work any more: no delivery, no loop, no request.\<close>

definition api_quiet :: "'s process \<Rightarrow> bool" where
  "api_quiet s \<longleftrightarrow> (case prApi s of None \<Rightarrow> True | Some a \<Rightarrow> \<not> asAccepts a \<and> asRequests a = 0)"

definition quiet :: "'s process \<Rightarrow> bool" where
  "quiet s \<longleftrightarrow> list_all snd (prLoops s) \<and> (case prConsume s of None \<Rightarrow> True | Some c \<Rightarrow> coPhase c = Left) \<and> api_quiet s"

definition resources :: "string list" where
  "resources = [''adapter'', ''mq'', ''redis'', ''control'', ''business'']"

definition released :: "instr list \<Rightarrow> string list" where
  "released is = List.map_filter (\<lambda>i. case i of Release r \<Rightarrow> Some r | _ \<Rightarrow> None) is"

text \<open>Before the wait for everybody is over, and after it.\<close>

definition early :: "nat \<Rightarrow> 's process \<Rightarrow> bool" where
  "early k s \<longleftrightarrow> k \<le> 6 \<and> prMain s = drop k (run_tail (prApi s \<noteq> None)) \<and> \<not> prAborted s \<and> prReleased s = []
     \<and> (1 \<le> k \<longrightarrow> prStop s) \<and> (2 \<le> k \<longrightarrow> prDraining s) \<and> (prLoopsStopped s \<longrightarrow> 4 \<le> k) \<and> (5 \<le> k \<longrightarrow> prGrace s \<noteq> GraceOff)
     \<and> (prApiShutdown s \<longrightarrow> 6 \<le> k)"

definition late :: "'s process \<Rightarrow> bool" where
  "late s \<longleftrightarrow> AwaitStop \<notin> set (prMain s) \<and> StartGrace \<notin> set (prMain s) \<and> AwaitDone \<notin> set (prMain s) \<and> prStop s \<and> prDraining s
     \<and> (quiet s \<or> prGrace s = GraceOver) \<and> prReleased s @ released (prMain s) \<in> {resources, ''mq'' # resources}"

definition process_ok :: "'s process \<Rightarrow> bool" where
  "process_ok s \<longleftrightarrow> (prApiDone s \<longrightarrow> prApiShutdown s \<and> (api_quiet s \<or> prGrace s = GraceOver)) \<and> ((\<exists>k. early k s) \<or> late s)"

lemma consume_left: "consume_step J Ps workers c c' \<Longrightarrow> coPhase c \<noteq> Left"
  by (induction rule: consume_step.induct) auto

lemma outer_left: "consume_outer k R c c' \<Longrightarrow> coPhase c = Left \<Longrightarrow> coPhase c' = Left"
  by (induction rule: consume_outer.induct) auto

lemma halt_left: "coPhase c = Left \<Longrightarrow> coPhase (halt_consume c) = Left"
  by (simp add: halt_consume_def)

lemma quiet_signals: "quiet s \<Longrightarrow> quiet (stop_signals s)"
  by (auto simp: quiet_def stop_signals_def api_quiet_def halt_left split: option.splits)

lemma env_keeps:
  assumes "env_step J Ps workers prefetch R s s'"
  shows "quiet s \<Longrightarrow> quiet s'" and "api_quiet s \<Longrightarrow> api_quiet s'"
    and "prMain s' = prMain s" "prAborted s' = prAborted s" "prReleased s' = prReleased s" "prDraining s' = prDraining s"
      "prLoopsStopped s' = prLoopsStopped s" "prApiShutdown s' = prApiShutdown s" "(prApi s' = None) = (prApi s = None)"
    and "prStop s \<Longrightarrow> prStop s'" "prGrace s = GraceOver \<Longrightarrow> prGrace s' = GraceOver" "prGrace s \<noteq> GraceOff \<Longrightarrow> prGrace s' \<noteq> GraceOff"
    and "prApiDone s' \<Longrightarrow> prApiDone s \<or> prApiShutdown s' \<and> (api_quiet s' \<or> prGrace s' = GraceOver)"
  using assms
proof (induction rule: env_step.induct)
  case (signal s)
  { case 1 then show ?case by (rule quiet_signals) }
qed (auto simp: quiet_def api_quiet_def stop_signals_def list_all_length nth_list_update dest: consume_left outer_left split: option.splits)

lemma env_ok:
  assumes "env_step J Ps workers prefetch R s s'" and "process_ok s"
  shows "process_ok s'"
proof -
  note k = env_keeps [OF assms(1)]
  have "prApiDone s' \<longrightarrow> prApiShutdown s' \<and> (api_quiet s' \<or> prGrace s' = GraceOver)"
    using assms(2) k(2,8,11,13) by (auto simp: process_ok_def)
  moreover have "early j s'" if "early j s" for j using that k unfolding early_def by auto
  moreover have "late s'" if "late s" using that k unfolding late_def by auto
  ultimately show ?thesis using assms(2) by (auto simp: process_ok_def)
qed

lemma run_tail_steps:
  "run_tail api ! 0 = AwaitStop" "run_tail api ! 1 = MarkDraining" "run_tail api ! 2 = StopSignals" "run_tail api ! 3 = StopLoops"
  "run_tail api ! 4 = StartGrace" "run_tail api ! 5 = ShutdownApi" "run_tail api ! 6 = AwaitDone" "6 < length (run_tail api)"
  "drop 7 (run_tail api) = [AbortAttempts, ShutdownHealth] @ deferred api"
  by (simp_all add: run_tail_def)

lemma early_head:
  assumes "early k s" and "prMain s = i # is"
  shows "i = run_tail (prApi s \<noteq> None) ! k" "is = drop (k + 1) (run_tail (prApi s \<noteq> None))"
proof -
  have k: "k < length (run_tail (prApi s \<noteq> None))" using assms(1) run_tail_steps(8) [of "prApi s \<noteq> None"] by (simp add: early_def)
  have "i # is = drop k (run_tail (prApi s \<noteq> None))" using assms by (simp add: early_def)
  with Cons_nth_drop_Suc [OF k] show "i = run_tail (prApi s \<noteq> None) ! k" "is = drop (k + 1) (run_tail (prApi s \<noteq> None))"
    by (metis list.inject Suc_eq_plus1)+
qed

lemma upto_six: "k \<le> 6 \<Longrightarrow> k = 0 \<or> k = 1 \<or> k = 2 \<or> k = 3 \<or> k = 4 \<or> k = 5 \<or> k = (6 :: nat)"
  by arith

lemma released_simps [simp]: "released [] = []" "released (Release r # is) = r # released is"
  "released (xs @ ys) = released xs @ released ys"
  by (simp_all add: released_def map_filter_def)

lemma released_skip [simp]: "(\<And>r. i \<noteq> Release r) \<Longrightarrow> released (i # is) = released is"
  by (cases i) (simp_all add: released_def map_filter_def)

lemma after_wait:
  assumes "is = drop 7 (run_tail api)"
  shows "AwaitStop \<notin> set is" "StartGrace \<notin> set is" "AwaitDone \<notin> set is" "released is = resources"
    "StartGrace \<notin> set (forced a)" "AwaitStop \<notin> set (forced a)" "AwaitDone \<notin> set (forced a)" "released (forced a) = [''mq'']"
  unfolding assms run_tail_steps(9) by (auto simp: deferred_def forced_def resources_def)

lemma late_effect:
  assumes "late s" and "prMain s = i # is"
  shows "late (effect i (s\<lparr>prMain := is\<rparr>))"
proof -
  have "quiet (effect i (s\<lparr>prMain := is\<rparr>))" if "quiet s"
    using that quiet_signals [of "s\<lparr>prMain := is\<rparr>"]
    by (cases i) (auto simp: quiet_def api_quiet_def split: option.splits)
  with assms show ?thesis by (cases i) (auto simp: late_def stop_signals_def)
qed

lemma early_effect:
  assumes "early k s" and "prMain s = i # is" and "i \<noteq> AwaitStop" and "i \<noteq> AwaitDone"
  shows "early (k + 1) (effect i (s\<lparr>prMain := is\<rparr>))"
proof -
  note h = early_head [OF assms(1,2)]
  have "k \<le> 6" using assms(1) by (simp add: early_def)
  from upto_six [OF this] show ?thesis
    using assms h run_tail_steps [of "prApi s \<noteq> None"] by (elim disjE) (auto simp: early_def stop_signals_def)
qed

lemma api_done_effect:
  assumes "prApiDone s \<longrightarrow> prApiShutdown s \<and> (api_quiet s \<or> prGrace s = GraceOver)" and "i = StartGrace \<longrightarrow> \<not> prApiDone s"
  shows "prApiDone (effect i s) \<longrightarrow> prApiShutdown (effect i s) \<and> (api_quiet (effect i s) \<or> prGrace (effect i s) = GraceOver)"
  using assms by (cases i) (auto simp: api_quiet_def stop_signals_def split: option.splits)

lemma early_grace:
  assumes "process_ok s" and "early k s" and "prMain s = StartGrace # is"
  shows "\<not> prApiDone s"
proof -
  have "k = 4" using early_head(1) [OF assms(2,3)] assms(2) upto_six [of k] run_tail_steps [of "prApi s \<noteq> None"]
    by (auto simp: early_def)
  with assms(1,2) show ?thesis by (auto simp: early_def process_ok_def)
qed

text \<open>Where the two waiting instructions stand.\<close>

lemma waiting_position:
  assumes "process_ok s" and "prMain s = i # is"
  shows "i = AwaitStop \<Longrightarrow> early 0 s \<and> is = drop 1 (run_tail (prApi s \<noteq> None))"
    and "i = AwaitDone \<Longrightarrow> early 6 s \<and> is = drop 7 (run_tail (prApi s \<noteq> None))"
proof -
  have *: "\<exists>k. early k s" if "i = AwaitStop \<or> i = AwaitDone" using that assms by (auto simp: process_ok_def late_def)
  have k: "k = 0 \<and> i = AwaitStop \<or> k = 6 \<and> i = AwaitDone \<or> i \<notin> {AwaitStop, AwaitDone}" if "early k s" for k
    using early_head(1) [OF that assms(2)] that upto_six [of k] run_tail_steps [of "prApi s \<noteq> None"] by (auto simp: early_def)
  show "early 0 s \<and> is = drop 1 (run_tail (prApi s \<noteq> None))" if "i = AwaitStop"
    using * k early_head(2) [OF _ assms(2)] that by fastforce
  show "early 6 s \<and> is = drop 7 (run_tail (prApi s \<noteq> None))" if "i = AwaitDone"
    using * k early_head(2) [OF _ assms(2)] that by fastforce
qed

lemma main_ok: "main_step s s' \<Longrightarrow> process_ok s \<Longrightarrow> process_ok s'"
proof (induction rule: main_step.induct)
  case (signalled s "is")
  then have "early 1 (s\<lparr>prMain := is\<rparr>)" using waiting_position(1) [OF signalled(3,1)] by (auto simp: early_def)
  with signalled(3) show ?case by (auto simp: process_ok_def api_quiet_def)
next
  case (server_failed s "is" x xs)
  then have "early 1 (stop_signals (s\<lparr>prMain := is, prErrors := xs, prResult := Some x\<rparr>))"
    using waiting_position(1) [OF server_failed(3,1)] by (auto simp: early_def stop_signals_def)
  with server_failed(3) show ?case by (auto simp: process_ok_def api_quiet_def stop_signals_def)
next
  case (done_first s "is")
  then have k: "early 6 s" "is = drop 7 (run_tail (prApi s \<noteq> None))" using waiting_position(2) [OF done_first(3,1)] by auto
  from after_wait [OF k(2)] have "late (s\<lparr>prMain := is\<rparr>)"
    using k(1) done_first(2,3) by (auto simp: early_def late_def process_ok_def quiet_def api_quiet_def all_done_def)
  with done_first(3) show ?case by (auto simp: process_ok_def api_quiet_def)
next
  case (grace_first s "is")
  then have k: "early 6 s" "is = drop 7 (run_tail (prApi s \<noteq> None))" using waiting_position(2) [OF grace_first(3,1)] by auto
  from after_wait [OF k(2)] have "late (s\<lparr>prMain := forced (prApi s \<noteq> None) @ is\<rparr>)"
    using k(1) grace_first(2) by (auto simp: early_def late_def)
  with grace_first(2,3) show ?case by (auto simp: process_ok_def api_quiet_def)
next
  case (simple s i "is")
  let ?s = "s\<lparr>prMain := is\<rparr>"
  have "(\<exists>k. early k (effect i ?s)) \<or> late (effect i ?s)"
    using simple late_effect [OF _ simple(1)] early_effect [OF _ simple(1-3)] by (auto simp: process_ok_def)
  moreover have "i = StartGrace \<longrightarrow> \<not> prApiDone ?s"
    using simple early_grace [OF simple(4)] by (auto simp: process_ok_def late_def)
  ultimately show ?case using simple(4) api_done_effect [of ?s i] by (auto simp: process_ok_def api_quiet_def)
qed

lemma start_ok:
  assumes "start_servers roles h a c st = Inr s"
  shows "process_ok s"
proof -
  have "early 0 s" using assms by (auto simp: start_servers_def early_def Let_def split: if_splits)
  moreover have "\<not> prApiDone s" using assms by (auto simp: start_servers_def Let_def split: if_splits)
  ultimately show ?thesis by (auto simp: process_ok_def)
qed

lemma process_run_ok: "process_run J Ps workers prefetch R s0 n s \<Longrightarrow> process_ok s0 \<Longrightarrow> process_ok s"
  by (induction rule: process_run.induct) (auto intro: main_ok env_ok)

text \<open>
  C19: nothing is cut off or pulled away from under those still at work unless the grace period is over.
  Whatever signals, server errors, messages and requests come in, the background loops are told to stop
  only after the instance reports that it is not ready; the deliveries and requests under way are
  cancelled, and the broker, Redis and the databases closed, only once every loop has returned, the
  consumers have left and all requests are answered, or the grace period has passed; and at the end the
  resources are released with the databases last.
\<close>

theorem shutdown_respects_work:
  assumes "start_servers roles h a c st = Inr s0" and "process_run J Ps workers prefetch R s0 n s"
  shows "(prLoopsStopped s \<longrightarrow> prDraining s) \<and> (prAborted s \<or> prReleased s \<noteq> [] \<longrightarrow> quiet s \<or> prGrace s = GraceOver)
    \<and> (prMain s = [] \<longrightarrow> prStop s \<and> prReleased s \<in> {resources, ''mq'' # resources})"
proof -
  have "process_ok s" using process_run_ok [OF assms(2) start_ok [OF assms(1)]] .
  then consider k where "early k s" | "late s" by (auto simp: process_ok_def)
  then show ?thesis
  proof cases
    case 1
    then show ?thesis using run_tail_steps(8) [of "prApi s \<noteq> None"] by (auto simp: early_def)
  next
    case 2
    then show ?thesis by (auto simp: late_def)
  qed
qed

section \<open>A shutdown ends\<close>

definition remaining :: "'s process \<Rightarrow> nat" where
  "remaining s = length (prMain s) + (if AwaitDone \<in> set (prMain s) then 3 else 0)"

lemma remaining_main:
  assumes "main_step s s'" and "process_ok s"
  shows "remaining s' < remaining s"
  using assms
proof (induction rule: main_step.induct)
  case (grace_first s "is")
  then have "is = drop 7 (run_tail (prApi s \<noteq> None))" using waiting_position(2) [OF grace_first(3,1)] by simp
  from after_wait(3,7) [OF this] have "AwaitDone \<notin> set is" "AwaitDone \<notin> set (forced (prApi s \<noteq> None))" .
  moreover have "length (forced b) < 4" for b by (simp add: forced_def)
  ultimately show ?case using grace_first(1) by (simp add: remaining_def)
next
  case (simple s i "is")
  have "prMain (effect i (s\<lparr>prMain := is\<rparr>)) = is" by (cases i) (simp_all add: stop_signals_def)
  with simple show ?case by (auto simp: remaining_def)
qed (auto simp: remaining_def stop_signals_def)

lemma remaining_env: "env_step J Ps workers prefetch R s s' \<Longrightarrow> remaining s' = remaining s"
  by (simp add: remaining_def env_keeps(3))

text \<open>The consumers see the context \<^verbatim>\<open>stop\<close> of the process.\<close>

definition linked :: "nat \<Rightarrow> 's process \<Rightarrow> bool" where
  "linked workers s \<longleftrightarrow> (\<forall>c. prConsume s = Some c \<longrightarrow> consume_ok workers c \<and> coStopped c = prStop s)"

lemma halt_ok: "consume_ok workers c \<Longrightarrow> consume_ok workers (halt_consume c) \<and> coStopped (halt_consume c)"
  by (auto simp: consume_ok_def halt_consume_def ended_ok_def all_returned_def split: phase.splits)

lemma linked_signals: "linked workers s \<Longrightarrow> linked workers (stop_signals s)"
  using halt_ok by (fastforce simp: linked_def stop_signals_def)

lemma linked_main: "main_step s s' \<Longrightarrow> linked workers s \<Longrightarrow> linked workers s'"
proof (induction rule: main_step.induct)
  case (simple s i "is")
  then have "linked workers (s\<lparr>prMain := is\<rparr>)" by (simp add: linked_def)
  with linked_signals [OF this] show ?case by (cases i) (simp_all add: linked_def)
next
  case (server_failed s "is" x xs)
  then show ?case by (intro linked_signals) (simp add: linked_def)
qed (simp_all add: linked_def)

lemma consume_step_stopped: "consume_step J Ps workers c c' \<Longrightarrow> coStopped c' = coStopped c"
  by (induction rule: consume_step.induct) simp_all

lemma linked_env: "env_step J Ps workers prefetch R s s' \<Longrightarrow> linked workers s \<Longrightarrow> linked workers s'"
proof (induction rule: env_step.induct)
  case (signal s)
  then show ?case by (rule linked_signals)
next
  case (consume s c c')
  then show ?case using consume_step_ok [OF consume(2)] consume_step_stopped [OF consume(2)] by (simp add: linked_def)
next
  case (broker s c c')
  then show ?case using consume_outer_ok [OF broker(2)] by (simp add: linked_def)
qed (simp_all add: linked_def)

lemma process_run_bounds:
  assumes "process_run J Ps workers prefetch R s0 n s" and "process_ok s0" and "linked workers s0"
  shows "n + remaining s \<le> remaining s0 \<and> linked workers s"
  using assms
proof (induction rule: process_run.induct)
  case (main n s s')
  then have "process_ok s" using process_run_ok by blast
  with remaining_main [OF main(2)] linked_main [OF main(2)] main show ?case by fastforce
next
  case (env n s s')
  with remaining_env [OF env(2)] linked_env [OF env(2)] show ?case by simp
qed simp

lemma main_progress:
  assumes "process_ok s" and "prStop s" and "prMain s \<noteq> []"
  shows "(\<exists>s'. main_step s s') \<or> prGrace s = GraceOn"
proof -
  obtain i "is" where i: "prMain s = i # is" using assms(3) by (cases "prMain s") auto
  consider "i = AwaitStop" | "i = AwaitDone" | "i \<noteq> AwaitStop" "i \<noteq> AwaitDone" by blast
  then show ?thesis
  proof cases
    case 1
    with i assms(2) show ?thesis by (blast intro: main_step.signalled)
  next
    case 2
    with i assms(1) have k: "early 6 s" using waiting_position(2) by blast
    then have "prGrace s \<noteq> GraceOff" by (simp add: early_def)
    then show ?thesis using i 2 by (cases "prGrace s") (auto intro: main_step.grace_first)
  next
    case 3
    with i show ?thesis by (blast intro: main_step.simple)
  qed
qed

lemma consume_weight_bound: "consume_ok workers c \<Longrightarrow> phase_weight (coPhase c) \<le> 5 * workers + 6"
  using potential_bound by (cases "coPhase c") (auto simp: consume_ok_def)

lemma start_linked: "start_servers roles h a c st = Inr s \<Longrightarrow> linked workers s \<and> remaining s \<le> 22"
  by (auto simp: start_servers_def linked_def consume_ok_def remaining_def run_tail_def deferred_def Let_def split: if_splits)

text \<open>
  C20: a process that is told to stop does stop. Its main goroutine makes at most 22 steps in all; once a
  signal has come it is never stuck except for waiting while the grace timer runs, which ends by itself;
  and meanwhile the consumers are never stuck either and, with every step they make, come closer to the
  end of their at most \<open>5 * workers + 6\<close> remaining steps.
\<close>

theorem shutdown_ends:
  assumes start: "start_servers roles h a c st = Inr s0" and run: "process_run J Ps workers prefetch R s0 n s"
    and stop: "prStop s" and can: "process \<in> Ps"
  shows "n \<le> 22 \<and> (prMain s \<noteq> [] \<longrightarrow> (\<exists>s'. main_step s s') \<or> prGrace s = GraceOn)
    \<and> (\<forall>x. prConsume s = Some x \<longrightarrow> phase_weight (coPhase x) \<le> 5 * workers + 6
         \<and> (coPhase x \<noteq> Left \<longrightarrow> (\<exists>x'. consume_step J Ps workers x x'))
         \<and> (\<forall>x'. consume_step J Ps workers x x' \<longrightarrow> phase_weight (coPhase x') < phase_weight (coPhase x)))"
proof -
  have l: "linked workers s0" "remaining s0 \<le> 22" using start_linked [OF start] by auto
  have b: "n + remaining s \<le> remaining s0" "linked workers s" using process_run_bounds [OF run start_ok [OF start] l(1)] by auto
  have ok: "consume_ok workers x" "coStopped x" if "prConsume s = Some x" for x using b(2) stop that by (auto simp: linked_def)
  have "phase_weight (coPhase x) \<le> 5 * workers + 6 \<and> (coPhase x \<noteq> Left \<longrightarrow> (\<exists>x'. consume_step J Ps workers x x'))
      \<and> (\<forall>x'. consume_step J Ps workers x x' \<longrightarrow> phase_weight (coPhase x') < phase_weight (coPhase x))"
    if "prConsume s = Some x" for x
    using ok [OF that] consume_weight_bound consume_progress [OF _ _ can] consume_step_weight by blast
  moreover have "n \<le> 22" using b(1) l(2) by simp
  ultimately show ?thesis using main_progress [OF process_run_ok [OF run start_ok [OF start]] stop] by blast
qed

section \<open>A shutdown for the witnesses\<close>

text \<open>The instructions that do not wait, one after the other.\<close>

definition exec :: "instr list \<Rightarrow> 's process \<Rightarrow> 's process" where
  "exec is s = fold (\<lambda>i t. effect i (t\<lparr>prMain := tl (prMain t)\<rparr>)) is s"

lemma effect_main [simp]: "prMain (effect i s) = prMain s"
  by (cases i) (simp_all add: stop_signals_def)

lemma run_exec:
  assumes "process_run J Ps workers prefetch R s0 n s" and "prMain s = is @ js" and "AwaitStop \<notin> set is" "AwaitDone \<notin> set is"
  shows "process_run J Ps workers prefetch R s0 (n + length is) (exec is s) \<and> prMain (exec is s) = js"
  using assms
proof (induction "is" arbitrary: n s)
  case (Cons i "is")
  let ?t = "effect i (s\<lparr>prMain := is @ js\<rparr>)"
  have "main_step s ?t" using main_step.simple [of s i "is @ js"] Cons.prems by auto
  then have "process_run J Ps workers prefetch R s0 (n + 1) ?t" using Cons.prems(1) by (rule process_run.main [rotated])
  from Cons.IH [OF this] Cons.prems show ?case by (simp add: exec_def)
qed (simp add: exec_def)

definition ex_process :: "nat process" where
  "ex_process = projr (start_servers [''worker''] True True ex_client 0)"

lemma ex_started: "start_servers [''worker''] True True ex_client 0 = Inr ex_process"
  by (simp add: ex_process_def start_servers_def Let_def)

text \<open>A worker is stopped by a signal; its consumers and loops return in time.\<close>

definition ex_waiting :: "nat process" where
  "ex_waiting = exec [MarkDraining, StopSignals, StopLoops, StartGrace, ShutdownApi]
     ((stop_signals ex_process)\<lparr>prMain := tl (run_tail False)\<rparr>)"

definition ex_returned :: "nat process" where
  "ex_returned = ex_waiting\<lparr>prConsume := map_option (\<lambda>c. c\<lparr>coPhase := Left\<rparr>) (prConsume ex_waiting),
     prLoops := [(''watch'', True), (''stats'', True), (''connect'', True)], prApiDone := True\<rparr>"

definition ex_stopped :: "nat process" where
  "ex_stopped = exec (drop 7 (run_tail False)) (ex_returned\<lparr>prMain := drop 7 (run_tail False)\<rparr>)"

lemmas ex_process_simps = ex_process_def start_servers_def Let_def launched_def stop_signals_def halt_consume_def
  run_tail_def deferred_def exec_def

abbreviation ex_world_run :: "nat process \<Rightarrow> nat \<Rightarrow> nat process \<Rightarrow> bool" where
  "ex_world_run \<equiv> process_run ex_codec {ex_processor} 1 1 (\<lambda>_ _. False)"

lemma ex_run_waiting: "ex_world_run ex_process 6 ex_waiting \<and> prMain ex_waiting = drop 6 (run_tail False)"
proof -
  let ?s = "stop_signals ex_process"
  have "ex_world_run ex_process 0 ?s" using process_run.env [OF process_run.start env_step.signal] .
  moreover have "main_step ?s (?s\<lparr>prMain := tl (run_tail False)\<rparr>)" by (rule main_step.signalled) (simp_all add: ex_process_simps)
  ultimately have "ex_world_run ex_process (0 + 1) (?s\<lparr>prMain := tl (run_tail False)\<rparr>)" by (rule process_run.main)
  from run_exec [OF this, of "[MarkDraining, StopSignals, StopLoops, StartGrace, ShutdownApi]" "drop 6 (run_tail False)"]
  show ?thesis unfolding ex_waiting_def by (simp add: run_tail_def numeral_eq_Suc)
qed

lemma ex_run_returned: "ex_world_run ex_process 6 ex_returned"
proof -
  let ?a = "ex_waiting\<lparr>prConsume := map_option (\<lambda>c. c\<lparr>coPhase := Left\<rparr>) (prConsume ex_waiting)\<rparr>"
  have "env_step ex_codec {ex_processor} 1 1 (\<lambda>_ _. False) ex_waiting ?a"
  proof -
    obtain c where c: "prConsume ex_waiting = Some c" "coPhase c = Testing" "coStopped c"
      by (simp add: ex_waiting_def ex_process_simps)
    from env_step.consume [OF c(1) consume_step.leave [OF c(2,3)]] c(1) show ?thesis by simp
  qed
  note 1 = process_run.env [OF conjunct1 [OF ex_run_waiting] this]
  have stopped: "prLoopsStopped ?a" "prApiShutdown ?a" "prApi ?a = None" "prLoops ?a = [(''watch'', False), (''stats'', False), (''connect'', False)]"
    by (simp_all add: ex_waiting_def ex_process_simps)
  have returns: "ex_world_run ex_process 6 (?a\<lparr>prLoops := ls\<rparr>) \<Longrightarrow> i < length ls \<Longrightarrow> ls' = ls[i := (fst (ls ! i), True)] \<Longrightarrow>
      ex_world_run ex_process 6 (?a\<lparr>prLoops := ls'\<rparr>)" for ls ls' i
    using process_run.env [OF _ env_step.loop_returns [of "?a\<lparr>prLoops := ls\<rparr>" i]] stopped(1) by simp
  have "ex_world_run ex_process 6 (?a\<lparr>prLoops := [(''watch'', False), (''stats'', False), (''connect'', False)]\<rparr>)"
    unfolding stopped(4) [symmetric] using 1 by simp
  from returns [OF this, of 0 "[(''watch'', True), (''stats'', False), (''connect'', False)]"]
  have "ex_world_run ex_process 6 (?a\<lparr>prLoops := [(''watch'', True), (''stats'', False), (''connect'', False)]\<rparr>)" by simp
  from returns [OF this, of 1 "[(''watch'', True), (''stats'', True), (''connect'', False)]"]
  have "ex_world_run ex_process 6 (?a\<lparr>prLoops := [(''watch'', True), (''stats'', True), (''connect'', False)]\<rparr>)" by simp
  from returns [OF this, of 2 "[(''watch'', True), (''stats'', True), (''connect'', True)]"]
  have "ex_world_run ex_process 6 (?a\<lparr>prLoops := [(''watch'', True), (''stats'', True), (''connect'', True)]\<rparr>)" by simp
  from process_run.env [OF this env_step.no_api] stopped(2,3) show ?thesis by (simp add: ex_returned_def)
qed

lemma ex_run_stopped: "ex_world_run ex_process 18 ex_stopped \<and> prMain ex_stopped = []"
proof -
  have main: "prMain ex_returned = AwaitDone # drop 7 (run_tail False)"
    using ex_run_waiting by (simp add: ex_returned_def run_tail_def)
  have "all_done ex_returned" by (simp add: all_done_def ex_returned_def ex_waiting_def ex_process_simps)
  from process_run.main [OF ex_run_returned main_step.done_first [OF main this]]
  have "ex_world_run ex_process (6 + 1) (ex_returned\<lparr>prMain := drop 7 (run_tail False)\<rparr>)" .
  from run_exec [OF this, of "drop 7 (run_tail False)" "[]"] show ?thesis
    unfolding ex_stopped_def by (simp add: run_tail_def deferred_def)
qed

theorem shutdown_respects_work_witness:
  "ex_world_run ex_process 18 ex_stopped \<and> prMain ex_stopped = [] \<and> prAborted ex_stopped \<and> prReleased ex_stopped = resources
   \<and> (quiet ex_stopped \<or> prGrace ex_stopped = GraceOver)"
proof -
  have "prAborted ex_stopped" "prReleased ex_stopped = resources"
    by (simp_all add: ex_stopped_def ex_returned_def ex_waiting_def ex_process_simps resources_def)
  with shutdown_respects_work [OF ex_started conjunct1 [OF ex_run_stopped]] ex_run_stopped show ?thesis by blast
qed

theorem shutdown_ends_witness:
  "ex_world_run ex_process 6 ex_waiting \<and> prGrace ex_waiting = GraceOn
   \<and> (\<exists>x x'. prConsume ex_waiting = Some x \<and> consume_step ex_codec {ex_processor} 1 x x' \<and> phase_weight (coPhase x') < phase_weight (coPhase x))"
proof -
  have "prStop ex_waiting" "prGrace ex_waiting = GraceOn" by (simp_all add: ex_waiting_def ex_process_simps)
  moreover obtain x where "prConsume ex_waiting = Some x" "coPhase x \<noteq> Left" by (simp add: ex_waiting_def ex_process_simps)
  ultimately show ?thesis
    using shutdown_ends [OF ex_started conjunct1 [OF ex_run_waiting], of ex_processor] ex_run_waiting by blast
qed

end
