(* ===== verification/Watch.thy ===== *)
theory Watch
  imports Manager
begin

text \<open>
  The watcher of \<^verbatim>\<open>internal/config/manager.go\<close>: which directories it watches and the loop of \<^verbatim>\<open>Watch\<close>,
  one definition per case of its \<^verbatim>\<open>select\<close>. The library \<^verbatim>\<open>fsnotify\<close> is the environment: whether a watcher
  and a watch can be created, and when events arrive.
\<close>

section \<open>Directories\<close>

text \<open>\<^verbatim>\<open>path.Clean\<close> on the elements of a path, kept in reverse: \<open>..\<close> takes the last one back if it can.\<close>

fun clean_elements :: "bool \<Rightarrow> string list \<Rightarrow> string list \<Rightarrow> string list" where
  "clean_elements rooted [] out = rev out"
| "clean_elements rooted (e # es) out =
     (if e = [] \<or> e = ''.'' then clean_elements rooted es out
      else if e = ''..'' then
        (case out of
           prev # rest \<Rightarrow> if prev = ''..'' then clean_elements rooted es (e # out) else clean_elements rooted es rest
         | [] \<Rightarrow> if rooted then clean_elements rooted es out else clean_elements rooted es [e])
      else clean_elements rooted es (e # out))"

fun join_slash :: "string list \<Rightarrow> string" where
  "join_slash [] = []"
| "join_slash [e] = e"
| "join_slash (e # es) = e @ ''/'' @ join_slash es"

definition Clean :: "string \<Rightarrow> string" where
  "Clean p =
     (if p = [] then ''.''
      else let rooted = (hd p = CHR ''/''); body = join_slash (clean_elements rooted (Split p (CHR ''/'')) []) in
        if rooted then ''/'' @ body else if body = [] then ''.'' else body)"

definition Dir :: "string \<Rightarrow> string" where
  "Dir p = Clean (rev (dropWhile (\<lambda>c. c \<noteq> CHR ''/'') (rev p)))"

definition secret_dirs :: "(string \<times> SecretSource) list \<Rightarrow> string list" where
  "secret_dirs secrets = map (\<lambda>(_, s). Dir (ssFile s)) (filter (\<lambda>(_, s). ssFile s \<noteq> []) secrets)"

section \<open>The loop\<close>

text \<open>
  \<open>waDirs\<close> is the map \<^verbatim>\<open>dirs\<close>, \<open>waWatched\<close> what was registered with the library, \<open>waEvents\<close> and \<open>waErrors\<close>
  whether the two channels are still read, \<open>waTimer\<close> when the debounce timer fires.
\<close>

record watch_state =
  waManager :: Manager
  waWatcher :: bool
  waDirs :: "string list"
  waWatched :: "string list"
  waEvents :: bool
  waErrors :: bool
  waTimer :: "gotime option"

definition count_failure :: "Manager \<Rightarrow> Manager" where
  "count_failure m = m\<lparr>mFailures := uint64_inc (mFailures m)\<rparr>"

text \<open>The preparation: directories whose registration fails stay in \<^verbatim>\<open>dirs\<close>, with a warning.\<close>

definition watch_start :: "bool \<Rightarrow> (string \<Rightarrow> bool) \<Rightarrow> string \<Rightarrow> Process \<Rightarrow> Manager \<Rightarrow> watch_state" where
  "watch_start created add path p m =
     (let dirs = remdups (Dir path # secret_dirs (pSecrets p)) in
      \<lparr>waManager = (if created then m else count_failure m), waWatcher = created, waDirs = dirs,
       waWatched = (if created then filter add dirs else []), waEvents = created, waErrors = created, waTimer = None\<rparr>)"

record reload_env =
  rlHost :: host
  rlDecode :: "Process \<Rightarrow> string \<Rightarrow> (Process \<times> string) option"
  rlDigest :: "(string \<times> string) list \<Rightarrow> byte list option"
  rlAdd :: "string \<Rightarrow> bool"

text \<open>A directory that is new is registered, and remembered if that succeeds.\<close>

definition add_dir :: "(string \<Rightarrow> bool) \<Rightarrow> string \<Rightarrow> watch_state \<Rightarrow> watch_state" where
  "add_dir add d s =
     (if waWatcher s \<and> d \<notin> set (waDirs s) \<and> add d then s\<lparr>waDirs := d # waDirs s, waWatched := d # waWatched s\<rparr> else s)"

definition watch_reload :: "unicode \<Rightarrow> string \<Rightarrow> reload_env \<Rightarrow> watch_state \<Rightarrow> watch_state" where
  "watch_reload U path v s =
     (let s1 = s\<lparr>waManager := reloadFiles U (rlDigest v) (rlDecode v) (rlHost v) path (waManager s)\<rparr> in
      case LoadProcess (rlDecode v) (rlHost v) path of
        Inl _ \<Rightarrow> s1
      | Inr p \<Rightarrow>
          (case LoadSecrets U (rlDigest v) (rlHost v) (pSecrets p) (waManager s) of
             (Inl _, _) \<Rightarrow> s1
           | (Inr _, _) \<Rightarrow> fold (add_dir (rlAdd v)) (secret_dirs (pSecrets p)) s1))"

record tick_env =
  tvControl :: control_db
  tvFails :: bool
  tvHistory :: history_env

datatype watch_event =
    FileEvent bool
  | WatchError bool
  | Debounce reload_env
  | Fallback reload_env
  | DbTick tick_env

text \<open>
  One turn of the loop at the instant \<open>now\<close>, \<^const>\<open>None\<close> if the case cannot be chosen. A file event carries
  whether the channel is still open.
\<close>

definition watch_turn :: "toolkit \<Rightarrow> string \<Rightarrow> gotime \<Rightarrow> watch_event \<Rightarrow> watch_state \<Rightarrow> watch_state option" where
  "watch_turn K path now ev s =
     (case ev of
        FileEvent ok \<Rightarrow>
          if \<not> waEvents s then None
          else if \<not> ok then Some (s\<lparr>waEvents := False\<rparr>)
          else Some (s\<lparr>waTimer := Some (now + 300 * millisecond)\<rparr>)
      | WatchError ok \<Rightarrow>
          if \<not> waErrors s then None
          else if \<not> ok then Some (s\<lparr>waErrors := False\<rparr>)
          else Some (s\<lparr>waManager := count_failure (waManager s)\<rparr>)
      | Debounce v \<Rightarrow>
          (case waTimer s of
             None \<Rightarrow> None
           | Some t \<Rightarrow> if now < t then None else Some (watch_reload (tkUnicode K) path v (s\<lparr>waTimer := None\<rparr>)))
      | Fallback v \<Rightarrow> Some (watch_reload (tkUnicode K) path v s)
      | DbTick v \<Rightarrow> Some (s\<lparr>waManager := dbTick K (tvControl v) (tvFails v) (tvHistory v) (waManager s)\<rparr>))"

fun watch_run :: "toolkit \<Rightarrow> string \<Rightarrow> (gotime \<times> watch_event) list \<Rightarrow> watch_state \<Rightarrow> watch_state option" where
  "watch_run K path [] s = Some s"
| "watch_run K path ((now, ev) # evs) s =
     (case watch_turn K path now ev s of None \<Rightarrow> None | Some s' \<Rightarrow> watch_run K path evs s')"

section \<open>What the watcher does to the manager\<close>

text \<open>Stored documents do not change, and the digest of the secrets is one function.\<close>

definition event_ok :: "(nat \<Rightarrow> string option) \<Rightarrow> ((string \<times> string) list \<Rightarrow> byte list option) \<Rightarrow> watch_event \<Rightarrow> bool" where
  "event_ok docs digest ev \<longleftrightarrow>
     (case ev of
        Debounce v \<Rightarrow> rlDigest v = digest
      | Fallback v \<Rightarrow> rlDigest v = digest
      | DbTick v \<Rightarrow> cdDocument (tvControl v) \<subseteq>\<^sub>m docs
      | _ \<Rightarrow> True)"

lemma add_dir_keeps [simp]: "waManager (add_dir add d s) = waManager s" "waTimer (add_dir add d s) = waTimer s"
  "set (waDirs s) \<subseteq> set (waDirs (add_dir add d s))"
  by (auto simp: add_dir_def)

lemma add_dirs_keep: "waManager (fold (add_dir add) ds s) = waManager s \<and> waTimer (fold (add_dir add) ds s) = waTimer s
  \<and> set (waDirs s) \<subseteq> set (waDirs (fold (add_dir add) ds s))"
proof (induction ds arbitrary: s)
  case (Cons d ds)
  from Cons [of "add_dir add d s"] show ?case using subset_trans [OF add_dir_keeps(3) [of s add d]] by simp
qed simp

lemma watch_reload_manager [simp]:
  "waManager (watch_reload U path v s) = reloadFiles U (rlDigest v) (rlDecode v) (rlHost v) path (waManager s)"
  "waTimer (watch_reload U path v s) = waTimer s"
  using add_dirs_keep by (fastforce simp: watch_reload_def Let_def split: sum.splits prod.splits)+

lemma watch_reload_dirs: "set (waDirs s) \<subseteq> set (waDirs (watch_reload U path v s))"
  using add_dirs_keep by (fastforce simp: watch_reload_def Let_def split: sum.splits prod.splits)

lemma watch_turn_manager:
  assumes "watch_turn K path now ev s = Some s'" and "event_ok docs digest ev"
  shows "(manager_step K docs digest)\<^sup>*\<^sup>* (waManager s) (waManager s')" and "set (waDirs s) \<subseteq> set (waDirs s')"
proof -
  have "waManager s' = waManager s \<or> manager_step K docs digest (waManager s) (waManager s')"
    using assms by (auto simp: watch_turn_def event_ok_def count_failure_def split: watch_event.splits if_splits option.splits
        intro: manager_step.tick manager_step.files manager_step.noted)
  then show "(manager_step K docs digest)\<^sup>*\<^sup>* (waManager s) (waManager s')" by auto
  show "set (waDirs s) \<subseteq> set (waDirs s')"
  proof -
    consider "waDirs s' = waDirs s" | v x where "s' = watch_reload (tkUnicode K) path v x" "waDirs x = waDirs s"
      using assms(1) by (auto simp: watch_turn_def split: watch_event.splits if_splits option.splits)
    then show ?thesis by cases (use watch_reload_dirs in auto, metis subsetD watch_reload_dirs)
  qed
qed

text \<open>The last file event that no debounced reload has followed yet.\<close>

fun pending_event :: "(gotime \<times> watch_event) list \<Rightarrow> gotime option \<Rightarrow> gotime option" where
  "pending_event [] a = a"
| "pending_event ((t, ev) # evs) a =
     pending_event evs (case ev of FileEvent True \<Rightarrow> Some t | Debounce _ \<Rightarrow> None | _ \<Rightarrow> a)"

definition debounce_at :: "gotime option \<Rightarrow> gotime option" where
  "debounce_at a = map_option (\<lambda>t. t + 300 * millisecond) a"

lemma watch_turn_timer:
  assumes "watch_turn K path now ev s = Some s'" and "waTimer s = debounce_at a"
  shows "waTimer s' = debounce_at (case ev of FileEvent True \<Rightarrow> Some now | Debounce _ \<Rightarrow> None | _ \<Rightarrow> a)"
  using assms by (auto simp: watch_turn_def debounce_at_def split: watch_event.splits if_splits option.splits bool.splits)

lemma watch_run_facts:
  assumes "watch_run K path evs s = Some s'" and "list_all (\<lambda>(_, ev). event_ok docs digest ev) evs" and "waTimer s = debounce_at a"
  shows "(manager_step K docs digest)\<^sup>*\<^sup>* (waManager s) (waManager s') \<and> set (waDirs s) \<subseteq> set (waDirs s')
    \<and> waTimer s' = debounce_at (pending_event evs a)"
  using assms
proof (induction evs arbitrary: s a)
  case (Cons x evs)
  obtain now ev where x: "x = (now, ev)" by fastforce
  with Cons.prems obtain s1 where s1: "watch_turn K path now ev s = Some s1" "watch_run K path evs s1 = Some s'"
    by (auto split: option.splits)
  from Cons.prems(2) x have ok: "event_ok docs digest ev" "list_all (\<lambda>(_, ev). event_ok docs digest ev) evs" by auto
  note turn = watch_turn_manager [OF s1(1) ok(1)] watch_turn_timer [OF s1(1) Cons.prems(3)]
  from Cons.IH [OF s1(2) ok(2) turn(3)] turn(1,2) show ?case by (auto simp: x)
qed simp

lemma watch_run_append:
  "watch_run K path (xs @ ys) s = (case watch_run K path xs s of None \<Rightarrow> None | Some s' \<Rightarrow> watch_run K path ys s')"
  by (induction K path xs s rule: watch_run.induct) (auto split: option.splits)

text \<open>
  The watcher turns whatever happens to files, directories and the control database into reloads of
  the manager and nothing else, so the manager's guarantees hold under it; the directory of the process
  file stays on its list; a file event is never forgotten, since the timer runs, 300 ms after the latest
  event, until a reload has followed it; and a debounced reload comes only when there was an event since
  the last one and the files have been quiet for 300 ms.
\<close>

theorem watch_debounced:
  assumes run: "watch_run K path evs (watch_start created add path p m) = Some s"
    and ok: "list_all (\<lambda>(_, ev). event_ok docs digest ev) evs"
  shows "(manager_step K docs digest)\<^sup>*\<^sup>* m (waManager s) \<and> Dir path \<in> set (waDirs s)
    \<and> waTimer s = debounce_at (pending_event evs None)
    \<and> (\<forall>before now v after. evs = before @ (now, Debounce v) # after \<longrightarrow>
         (\<exists>t. pending_event before None = Some t \<and> t + 300 * millisecond \<le> now))"
proof -
  let ?s0 = "watch_start created add path p m"
  have t0: "waTimer ?s0 = debounce_at None" by (simp add: watch_start_def debounce_at_def Let_def)
  note all = watch_run_facts [OF run ok t0]
  have m0: "(manager_step K docs digest)\<^sup>*\<^sup>* m (waManager ?s0)"
    using manager_step.noted by (auto simp: watch_start_def count_failure_def Let_def)
  have "Dir path \<in> set (waDirs ?s0)" by (simp add: watch_start_def Let_def)
  moreover have "\<exists>t. pending_event before None = Some t \<and> t + 300 * millisecond \<le> now"
    if e: "evs = before @ (now, Debounce v) # after" for before now v after
  proof -
    from run e obtain s1 where s1: "watch_run K path before ?s0 = Some s1" "watch_turn K path now (Debounce v) s1 \<noteq> None"
      by (auto simp: watch_run_append split: option.splits)
    have "list_all (\<lambda>(_, ev). event_ok docs digest ev) before" using ok e by simp
    from watch_run_facts [OF s1(1) this t0] s1(2) show ?thesis
      by (auto simp: watch_turn_def debounce_at_def split: option.splits if_splits)
  qed
  moreover have "(manager_step K docs digest)\<^sup>*\<^sup>* m (waManager s)" using m0 all by (meson rtranclp_trans)
  ultimately show ?thesis using all by (intro conjI allI impI) auto
qed

text \<open>Two events in a burst, one reload.\<close>

definition ex_reload :: reload_env where
  "ex_reload = \<lparr>rlHost = \<lparr>hReadFile = (\<lambda>_. None), hGetenv = (\<lambda>_. [])\<rparr>, rlDecode = (\<lambda>p _. None), rlDigest = (\<lambda>_. None), rlAdd = (\<lambda>_. True)\<rparr>"

definition ex_burst :: "(gotime \<times> watch_event) list" where
  "ex_burst = [(0, FileEvent True), (200 * millisecond, FileEvent True), (500 * millisecond, Debounce ex_reload), (second, WatchError True)]"

lemma ex_burst_run: "\<exists>s. watch_run ex_tool ''/etc/n/n.json'' ex_burst (watch_start True (\<lambda>_. True) ''/etc/n/n.json'' default_Process NewManager) = Some s"
  by (simp add: ex_burst_def watch_turn_def watch_start_def Let_def go_simps watch_reload_def LoadProcess_def ex_reload_def)

theorem watch_debounced_witness:
  "\<exists>s. watch_run ex_tool ''/etc/n/n.json'' ex_burst (watch_start True (\<lambda>_. True) ''/etc/n/n.json'' default_Process NewManager) = Some s
     \<and> ''/etc/n'' \<in> set (waDirs s) \<and> waTimer s = None \<and> pending_event (take 2 ex_burst) None = Some (200 * millisecond)"
proof -
  from ex_burst_run obtain s where s: "watch_run ex_tool ''/etc/n/n.json'' ex_burst
      (watch_start True (\<lambda>_. True) ''/etc/n/n.json'' default_Process NewManager) = Some s" by blast
  have "list_all (\<lambda>(_, ev). event_ok (\<lambda>_. None) (\<lambda>_. None) ev) ex_burst"
    by (simp add: ex_burst_def event_ok_def ex_reload_def)
  from watch_debounced [OF s this] have "Dir ''/etc/n/n.json'' \<in> set (waDirs s)" "waTimer s = debounce_at (pending_event ex_burst None)"
    by simp_all
  moreover have "Dir ''/etc/n/n.json'' = ''/etc/n''" by code_simp
  ultimately show ?thesis using s by (simp add: ex_burst_def debounce_at_def)
qed

end
