(* ===== verification/Duration.thy ===== *)
theory Duration
  imports Payload Complex_Main
begin

text \<open>
  The JSON form of durations in configuration documents (\<^verbatim>\<open>Duration\<close> in \<^verbatim>\<open>internal/config/model.go\<close>):
  the text of \<^verbatim>\<open>time.Duration.String\<close>, and \<^verbatim>\<open>time.ParseDuration\<close> with its 64-bit arithmetic and its one
  floating-point expression.
\<close>

section \<open>Printing\<close>

text \<open>
  \<^verbatim>\<open>fmtFrac\<close> writes backwards into a buffer: the digits of \<open>v\<close> below the point, without trailing zeros,
  before the \<open>buf\<close> already written, and returns what is left of \<open>v\<close>.
\<close>

fun fmtFrac :: "nat \<Rightarrow> bool \<Rightarrow> nat \<Rightarrow> string \<Rightarrow> string \<times> nat" where
  "fmtFrac 0 print v buf = (if print then CHR ''.'' # buf else buf, v)"
| "fmtFrac (Suc prec) print v buf =
     (let digit = v mod 10; print' = (print \<or> digit \<noteq> 0) in
      fmtFrac prec print' (v div 10) (if print' then char_of (48 + digit) # buf else buf))"

definition micro :: string where
  "micro = [CHR 0xC2, CHR 0xB5]"

text \<open>A number with a fraction of \<open>prec\<close> digits, and its unit.\<close>

definition with_unit :: "nat \<Rightarrow> nat \<Rightarrow> string \<Rightarrow> string" where
  "with_unit prec u unit_text = (case fmtFrac prec False u unit_text of (t, v) \<Rightarrow> nat_digits v @ t)"

definition hms :: "nat \<Rightarrow> string" where
  "hms u =
     (case fmtFrac 9 False u ''s'' of (t, v) \<Rightarrow>
        let secs = nat_digits (v mod 60) @ t; m = v div 60 in
        if m > 0 then
          let mins = nat_digits (m mod 60) @ ''m'' @ secs; h = m div 60 in
          if h > 0 then nat_digits h @ ''h'' @ mins else mins
        else secs)"

definition Duration_String :: "duration \<Rightarrow> string" where
  "Duration_String d =
     (let u = nat \<bar>d\<bar>;
          body = (if u < 1000000000 then
                    (if u = 0 then ''0s''
                     else if u < 1000 then with_unit 0 u ''ns''
                     else if u < 1000000 then with_unit 3 u (micro @ ''s'')
                     else with_unit 6 u ''ms'')
                  else hms u)
      in if d < 0 then ''-'' @ body else body)"

section \<open>Floating point\<close>

fun bits :: "nat \<Rightarrow> nat" where
  "bits n = (if n = 0 then 0 else 1 + bits (n div 2))"

declare bits.simps [simp del]

definition pow2 :: "int \<Rightarrow> rat" where
  "pow2 k = (if 0 \<le> k then 2 ^ nat k else 1 / 2 ^ nat (- k))"

definition round_even :: "rat \<Rightarrow> int" where
  "round_even y =
     (let k = \<lfloor>y\<rfloor>; r = y - of_int k in if r < 1 / 2 \<or> (r = 1 / 2 \<and> even k) then k else k + 1)"

text \<open>
  The \<^verbatim>\<open>float64\<close> nearest to a positive number, ties to even: 53 significant bits. The exponents that occur
  are far from the limits, except for the scale of a fraction with more than 300 digits, where the product
  is below 1 either way.
\<close>

definition f64 :: "rat \<Rightarrow> rat" where
  "f64 x =
     (case quotient_of x of (p, q) \<Rightarrow>
        if p \<le> 0 then 0
        else let e0 = int (bits (nat p)) - int (bits (nat q));
                 e = (if pow2 e0 \<le> x then e0 else e0 - 1) - 52
             in of_int (round_even (x / pow2 e)) * pow2 e)"

section \<open>Parsing\<close>

definition digit_nat :: "char \<Rightarrow> nat" where
  "digit_nat c = of_char c - 48"

definition two63 :: nat where
  "two63 = 2 ^ 63"

text \<open>\<^verbatim>\<open>leadingInt\<close>, \<^const>\<open>None\<close> on overflow.\<close>

fun leadingInt :: "string \<Rightarrow> nat \<Rightarrow> (nat \<times> string) option" where
  "leadingInt [] x = Some (x, [])"
| "leadingInt (c # cs) x =
     (if \<not> is_digit c then Some (x, c # cs)
      else if x > two63 div 10 then None
      else let x' = x * 10 + digit_nat c in if x' > two63 then None else leadingInt cs x')"

text \<open>\<^verbatim>\<open>leadingFraction\<close>: further digits are skipped once the number is too big.\<close>

fun leadingFraction :: "string \<Rightarrow> nat \<Rightarrow> rat \<Rightarrow> bool \<Rightarrow> nat \<times> rat \<times> string" where
  "leadingFraction [] x scale over = (x, scale, [])"
| "leadingFraction (c # cs) x scale over =
     (if \<not> is_digit c then (x, scale, c # cs)
      else if over \<or> x > (two63 - 1) div 10 then leadingFraction cs x scale True
      else let y = x * 10 + digit_nat c in
        if y > two63 then leadingFraction cs x scale True
        else leadingFraction cs y (f64 (scale * 10)) False)"

definition unitMap :: "string \<Rightarrow> nat option" where
  "unitMap u =
     (if u = ''ns'' then Some 1
      else if u = ''us'' \<or> u = micro @ ''s'' \<or> u = [CHR 0xCE, CHR 0xBC] @ ''s'' then Some 1000
      else if u = ''ms'' then Some 1000000
      else if u = ''s'' then Some 1000000000
      else if u = ''m'' then Some 60000000000
      else if u = ''h'' then Some 3600000000000
      else None)"

text \<open>The body of the loop: one number with its unit.\<close>

definition parse_term :: "string \<Rightarrow> (nat \<times> string) option" where
  "parse_term s =
     (if s = [] \<or> \<not> (hd s = CHR ''.'' \<or> is_digit (hd s)) then None
      else case leadingInt s 0 of
        None \<Rightarrow> None
      | Some (v, s1) \<Rightarrow>
          let pre = (length s1 \<noteq> length s) in
          (case (if s1 \<noteq> [] \<and> hd s1 = CHR ''.'' then leadingFraction (tl s1) 0 1 False else (0, 1, s1)) of
             (f, scale, s2) \<Rightarrow>
               let post = (s1 \<noteq> [] \<and> hd s1 = CHR ''.'' \<and> length s2 \<noteq> length (tl s1));
                   u = takeWhile (\<lambda>c. c \<noteq> CHR ''.'' \<and> \<not> is_digit c) s2;
                   rest = dropWhile (\<lambda>c. c \<noteq> CHR ''.'' \<and> \<not> is_digit c) s2 in
               if \<not> pre \<and> \<not> post then None
               else if u = [] then None
               else case unitMap u of
                 None \<Rightarrow> None
               | Some k \<Rightarrow>
                   if v > two63 div k then None
                   else if f > 0 then
                     let w = v * k + nat \<lfloor>f64 (f64 (of_nat f) * f64 (f64 (of_nat k) / scale))\<rfloor> in
                     if w > two63 then None else Some (w, rest)
                   else Some (v * k, rest)))"

lemma leadingInt_length: "leadingInt s x = Some (y, r) \<Longrightarrow> length r \<le> length s"
  by (induction s x rule: leadingInt.induct) (auto simp: Let_def split: if_splits)

lemma leadingFraction_length: "leadingFraction s x scale over = (y, z, r) \<Longrightarrow> length r \<le> length s"
  by (induction s x scale over rule: leadingFraction.induct) (auto simp: Let_def split: if_splits)

lemma dropWhile_shorter: "takeWhile P s \<noteq> [] \<Longrightarrow> length (dropWhile P s) < length s"
  by (cases s) (auto simp: le_imp_less_Suc length_dropWhile_le split: if_splits)

lemma parse_term_length:
  assumes "parse_term s = Some (v, r)"
  shows "length r < length s"
proof -
  from assms obtain s1 s2 x f sc where 1: "leadingInt s 0 = Some (x, s1)"
    and 2: "s2 = s1 \<or> s1 \<noteq> [] \<and> leadingFraction (tl s1) 0 1 False = (f, sc, s2)"
    and r: "r = dropWhile (\<lambda>c. c \<noteq> CHR ''.'' \<and> \<not> is_digit c) s2" "takeWhile (\<lambda>c. c \<noteq> CHR ''.'' \<and> \<not> is_digit c) s2 \<noteq> []"
    unfolding parse_term_def Let_def by (auto split: if_splits option.splits prod.splits)
  have "length r < length s2" using dropWhile_shorter [OF r(2)] r(1) by simp
  moreover have "length s2 \<le> length s1" using 2 leadingFraction_length by fastforce
  ultimately show ?thesis using leadingInt_length [OF 1] by simp
qed

text \<open>The loop over the terms; the sum is a 64-bit number.\<close>

function parse_terms :: "string \<Rightarrow> nat \<Rightarrow> nat option" where
  "parse_terms s d =
     (if s = [] then Some d
      else case parse_term s of
        None \<Rightarrow> None
      | Some (v, rest) \<Rightarrow>
          let d' = (d + v) mod 2 ^ 64 in if d' > two63 then None else parse_terms rest d')"
  by auto
termination
  by (relation "measure (\<lambda>(s, d). length s)") (auto simp: parse_term_length)

declare parse_terms.simps [simp del]

definition ParseDuration :: "string \<Rightarrow> duration option" where
  "ParseDuration s0 =
     (let neg = HasPrefix s0 ''-''; s = (if HasPrefix s0 ''-'' \<or> HasPrefix s0 ''+'' then tl s0 else s0) in
      if s = ''0'' then Some 0
      else if s = [] then None
      else case parse_terms s 0 of
        None \<Rightarrow> None
      | Some d \<Rightarrow> if neg then Some (- int d) else if d > two63 - 1 then None else Some (int d))"

section \<open>The methods of the configuration type\<close>

definition Duration_MarshalJSON :: "duration \<Rightarrow> json" where
  "Duration_MarshalJSON d = JStr (Duration_String d)"

text \<open>Decoding JSON \<^verbatim>\<open>null\<close> into a Go string leaves it empty.\<close>

definition Duration_UnmarshalJSON :: "json \<Rightarrow> duration option" where
  "Duration_UnmarshalJSON j = (case j of JStr s \<Rightarrow> ParseDuration s | JNull \<Rightarrow> ParseDuration [] | _ \<Rightarrow> None)"

section \<open>Small integers are exact\<close>

lemma bits_bounds: "n > 0 \<Longrightarrow> 2 ^ (bits n - 1) \<le> n \<and> n < 2 ^ bits n \<and> bits n > 0"
proof (induction n rule: bits.induct)
  case (1 n)
  show ?case
  proof (cases "n div 2 = 0")
    case True
    then have "n = 1" using 1(2) by simp
    moreover have "bits 1 = 1" by (simp add: bits.simps)
    ultimately show ?thesis by simp
  next
    case False
    with 1 have ih: "2 ^ (bits (n div 2) - 1) \<le> n div 2" "n div 2 < 2 ^ bits (n div 2)" "bits (n div 2) > 0" by auto
    have b: "bits n = Suc (bits (n div 2))" using 1(2) by (simp add: bits.simps [of n])
    have "2 ^ bits (n div 2) = 2 * (2 :: nat) ^ (bits (n div 2) - 1)" using ih(3) by (simp add: power_eq_if)
    then have "2 ^ bits (n div 2) \<le> n" using ih(1) by linarith
    moreover have "n < 2 * 2 ^ bits (n div 2)" using ih(2) by linarith
    ultimately show ?thesis by (simp add: b)
  qed
qed

lemma round_even_int [simp]: "round_even (of_int k) = k"
  by (simp add: round_even_def)

lemma f64_exact:
  assumes "n < 2 ^ 53"
  shows "f64 (of_nat n) = of_nat n"
proof (cases "n = 0")
  case True
  then show ?thesis by (simp add: f64_def)
next
  case False
  then have b: "2 ^ (bits n - 1) \<le> n" "bits n > 0" using bits_bounds by auto
  have le: "bits n \<le> 53"
  proof (rule ccontr)
    assume "\<not> bits n \<le> 53"
    then have "(2 :: nat) ^ 53 \<le> 2 ^ (bits n - 1)" by (intro power_increasing) auto
    with b(1) assms show False by simp
  qed
  have q: "quotient_of (of_nat n) = (int n, 1)" using quotient_of_int [of "int n"] by simp
  have one: "bits (nat 1) = 1" "bits (Suc 0) = 1" by (simp_all add: bits.simps)
  have "(of_nat (2 ^ (bits n - 1)) :: rat) \<le> of_nat n" using b(1) by (simp only: of_nat_le_iff)
  then have p: "pow2 (int (bits n) - 1) \<le> of_nat n" using b(2) by (simp add: pow2_def nat_diff_distrib)
  define k where "k = nat (53 - int (bits n))"
  have e: "pow2 (int (bits n) - 53) = 1 / 2 ^ k"
    using le by (cases "bits n = 53") (simp_all add: pow2_def k_def)
  have "(of_nat n :: rat) * 2 ^ k = of_int (int n * 2 ^ k)" by simp
  then have "round_even (of_nat n * 2 ^ k) = int n * 2 ^ k" by (simp only: round_even_int)
  with False show ?thesis unfolding f64_def q by (simp add: Let_def one p e del: of_nat_power)
qed

section \<open>Reading numbers back\<close>

lemma digit_char: "n < 10 \<Longrightarrow> is_digit (char_of (48 + n))" "n < 10 \<Longrightarrow> digit_nat (char_of (48 + n)) = n"
  by (simp_all add: is_digit_def in_range_def digit_nat_def)

lemma not_digits: "\<not> is_digit CHR ''.''" "\<not> is_digit CHR ''-''" "\<not> is_digit CHR ''+''"
  by (simp_all add: is_digit_def in_range_def)

lemma leadingInt_append:
  assumes "list_all is_digit ds" and "leadingInt ds x = Some (y, [])"
  shows "leadingInt (ds @ rest) x = leadingInt rest y"
  using assms by (induction ds x rule: leadingInt.induct) (auto simp: Let_def split: if_splits)

lemma nat_digits_digits: "list_all is_digit (nat_digits n)" "nat_digits n \<noteq> []"
proof (induction n rule: nat_digits.induct)
  case (1 n)
  { case 1 show ?case using "1.IH"(1) by (subst nat_digits.simps) (auto simp: digit_char) }
  { case 2 show ?case by (subst nat_digits.simps) auto }
qed

lemma leadingInt_digits: "n \<le> two63 \<Longrightarrow> leadingInt (nat_digits n) 0 = Some (n, [])"
proof (induction n rule: nat_digits.induct)
  case (1 n)
  show ?case
  proof (cases "n < 10")
    case True
    then show ?thesis using 1(2) by (subst nat_digits.simps) (simp add: digit_char)
  next
    case False
    have "leadingInt (nat_digits (n div 10)) 0 = Some (n div 10, [])" using 1(1) [OF False] 1(2) by simp
    from leadingInt_append [OF nat_digits_digits(1) this]
    have "leadingInt (nat_digits n) 0 = leadingInt [char_of (48 + n mod 10)] (n div 10)"
      using False by (subst nat_digits.simps) simp
    moreover have "n div 10 \<le> two63 div 10" using 1(2) by (rule div_le_mono)
    ultimately show ?thesis using 1(2) by (simp add: digit_char Let_def not_less)
  qed
qed

lemma leadingInt_number:
  assumes "n \<le> two63" and "rest = [] \<or> \<not> is_digit (hd rest)"
  shows "leadingInt (nat_digits n @ rest) 0 = Some (n, rest)"
  using leadingInt_append [OF nat_digits_digits(1) leadingInt_digits [OF assms(1)], of rest] assms(2) by (cases rest) auto

text \<open>The digits of a fraction, padded with zeros on the left.\<close>

fun pad :: "nat \<Rightarrow> nat \<Rightarrow> string" where
  "pad 0 v = []"
| "pad (Suc n) v = pad n (v div 10) @ [char_of (48 + v mod 10)]"

lemma fmtFrac_print: "fmtFrac n True v buf = (CHR ''.'' # pad n v @ buf, v div 10 ^ n)"
  by (induction n arbitrary: v buf) (simp_all add: Let_def div_mult2_eq)

lemma fmtFrac_strip:
  "if v mod 10 ^ n = 0 then fmtFrac n False v buf = (buf, v div 10 ^ n)
   else \<exists>k. 0 < k \<and> k \<le> n \<and> 10 ^ (n - k) dvd v \<and> fmtFrac n False v buf = (CHR ''.'' # pad k (v div 10 ^ (n - k)) @ buf, v div 10 ^ n)"
proof (induction n arbitrary: v)
  case (Suc n)
  show ?case
  proof (cases "v mod 10 = 0")
    case True
    then obtain w where w: "v = 10 * w" by (auto simp: mod_eq_0_iff_dvd elim: dvdE)
    have m: "v mod 10 ^ Suc n = 10 * (w mod 10 ^ n)" unfolding w power_Suc by (rule mult_mod_right [symmetric])
    show ?thesis
    proof (cases "w mod 10 ^ n = 0")
      case True
      with Suc [of w] show ?thesis by (simp add: w m)
    next
      case False
      with Suc [of w] obtain k where k: "0 < k" "k \<le> n" "10 ^ (n - k) dvd w"
        "fmtFrac n False w buf = (CHR ''.'' # pad k (w div 10 ^ (n - k)) @ buf, w div 10 ^ n)" by auto
      have "(10 :: nat) ^ (Suc n - k) = 10 * 10 ^ (n - k)" using k(2) by (simp add: Suc_diff_le)
      then have "10 ^ (Suc n - k) dvd v" "v div 10 ^ (Suc n - k) = w div 10 ^ (n - k)" using k(3) by (simp_all add: w)
      with k False m show ?thesis by (auto simp: w intro!: exI [of _ k])
    qed
  next
    case False
    then have "v mod 10 ^ Suc n \<noteq> 0" by (metis mod_0 mod_mod_cancel dvd_triv_left power_Suc)
    with False show ?thesis by (auto simp: Let_def fmtFrac_print div_mult2_eq intro!: exI [of _ "Suc n"])
  qed
qed simp

lemma pad_digits: "list_all is_digit (pad n v)" "length (pad n v) = n"
  by (induction n arbitrary: v) (simp_all add: digit_char)

lemma leadingFraction_pad:
  "k \<le> 9 \<Longrightarrow> leadingFraction (pad k w @ rest) 0 1 False = leadingFraction rest (w mod 10 ^ k) (of_nat (10 ^ k)) False"
proof (induction k arbitrary: w rest)
  case (Suc k)
  let ?x = "w div 10 mod 10 ^ k"
  have k: "(10 :: nat) ^ k \<le> 10 ^ 8" using Suc(2) by (intro power_increasing) auto
  moreover have "?x < 10 ^ k" by simp
  ultimately have x: "?x < 10 ^ 8" by linarith
  have y: "?x * 10 + w mod 10 = w mod 10 ^ Suc k" by (simp add: mod_mult2_eq)
  have "(10 :: nat) ^ k * 10 < 2 ^ 53" using k by simp
  from f64_exact [OF this] have sc: "f64 (of_nat (10 ^ k) * 10) = (of_nat (10 ^ Suc k) :: rat)" by (simp add: mult.commute)
  have "\<not> ?x > (two63 - 1) div 10" "\<not> ?x * 10 + w mod 10 > two63" using x by (simp_all add: two63_def)
  then have "leadingFraction (char_of (48 + w mod 10) # rest) ?x (of_nat (10 ^ k)) False
      = leadingFraction rest (w mod 10 ^ Suc k) (of_nat (10 ^ Suc k)) False"
    by (simp add: digit_char sc y Let_def del: of_nat_power power_Suc)
  with Suc show ?case by simp
qed simp

lemma leadingFraction_stop: "rest = [] \<or> \<not> is_digit (hd rest) \<Longrightarrow> leadingFraction rest x sc False = (x, sc, rest)"
  by (cases rest) auto

text \<open>The product of the fraction with its unit comes out exactly.\<close>

lemma fraction_exact:
  assumes "k \<le> prec" and "prec \<le> 9" and "f < 10 ^ k"
  shows "nat \<lfloor>f64 (f64 (of_nat f) * f64 (f64 (of_nat (10 ^ prec)) / of_nat (10 ^ k)))\<rfloor> = f * 10 ^ (prec - k)"
proof -
  have split: "(10 :: nat) ^ prec = 10 ^ (prec - k) * 10 ^ k" using assms(1) by (simp add: power_add [symmetric])
  have q: "(of_nat (10 ^ prec) :: rat) / of_nat (10 ^ k) = of_nat (10 ^ (prec - k))" by (simp add: split)
  have fp: "f * 10 ^ (prec - k) < 10 ^ prec" unfolding split using assms(3) by simp
  have "(10 :: nat) ^ k \<le> 1000000000" "(10 :: nat) ^ (prec - k) \<le> 1000000000" "(10 :: nat) ^ prec \<le> 1000000000"
    using power_increasing [of k 9 "10 :: nat"] power_increasing [of "prec - k" 9 "10 :: nat"] power_increasing [of prec 9 "10 :: nat"] assms
    by simp_all
  then have "f < 2 ^ 53" "10 ^ prec < (2 :: nat) ^ 53" "10 ^ (prec - k) < (2 :: nat) ^ 53" "f * 10 ^ (prec - k) < 2 ^ 53"
    using fp assms(3) by simp_all
  note exact = this [THEN f64_exact]
  have "f64 (f64 (of_nat f) * f64 (f64 (of_nat (10 ^ prec)) / of_nat (10 ^ k))) = of_nat (f * 10 ^ (prec - k))"
    using exact(4) by (simp only: exact(1-3) q of_nat_mult)
  then show ?thesis by (simp only: floor_of_nat nat_int)
qed

section \<open>Reading a term back\<close>

definition starts_number :: "string \<Rightarrow> bool" where
  "starts_number s \<longleftrightarrow> s = [] \<or> is_digit (hd s)"

lemma unit_split:
  assumes "list_all (\<lambda>c. c \<noteq> CHR ''.'' \<and> \<not> is_digit c) u" and "starts_number rest"
  shows "takeWhile (\<lambda>c. c \<noteq> CHR ''.'' \<and> \<not> is_digit c) (u @ rest) = u" "dropWhile (\<lambda>c. c \<noteq> CHR ''.'' \<and> \<not> is_digit c) (u @ rest) = rest"
  using assms by (auto simp: starts_number_def list_all_iff takeWhile_append dropWhile_append takeWhile_eq_Nil_iff dropWhile_eq_self_iff)

text \<open>A whole number with its unit, and a number with a fraction.\<close>

lemma parse_whole:
  assumes "n \<le> two63 div k" "unitMap u = Some k" "k > 0" "u \<noteq> []"
    and "list_all (\<lambda>c. c \<noteq> CHR ''.'' \<and> \<not> is_digit c) u" and "starts_number rest"
  shows "parse_term (nat_digits n @ u @ rest) = Some (n * k, rest)"
proof -
  have hd: "is_digit (hd (nat_digits n @ u @ rest))" "nat_digits n \<noteq> []"
    using nat_digits_digits [of n] by (cases "nat_digits n"; auto)+
  have "n \<le> two63" using assms(1) by (meson div_le_dividend order_trans)
  moreover have u: "\<not> is_digit (hd (u @ rest))" "hd (u @ rest) \<noteq> CHR ''.''" using assms(4,5) by (cases u; auto)+
  ultimately have "leadingInt (nat_digits n @ u @ rest) 0 = Some (n, u @ rest)" by (intro leadingInt_number) auto
  with hd u assms(1-4) unit_split [OF assms(5,6)] show ?thesis by (simp add: parse_term_def Let_def)
qed

lemma parse_fraction:
  assumes "n \<le> two63 div 10 ^ prec" "prec \<le> 9" "k \<le> prec" "0 < k" "unitMap u = Some (10 ^ prec)" "u \<noteq> []"
    and "list_all (\<lambda>c. c \<noteq> CHR ''.'' \<and> \<not> is_digit c) u" and "starts_number rest"
    and "w mod 10 ^ k > 0" and "n * 10 ^ prec + w mod 10 ^ k * 10 ^ (prec - k) \<le> two63"
  shows "parse_term (nat_digits n @ CHR ''.'' # pad k w @ u @ rest) = Some (n * 10 ^ prec + w mod 10 ^ k * 10 ^ (prec - k), rest)"
proof -
  let ?s = "nat_digits n @ CHR ''.'' # pad k w @ u @ rest"
  have hd: "is_digit (hd ?s)" "nat_digits n \<noteq> []" using nat_digits_digits [of n] by (cases "nat_digits n"; auto)+
  have "n \<le> two63" using assms(1) by (meson div_le_dividend order_trans)
  then have int: "leadingInt ?s 0 = Some (n, CHR ''.'' # pad k w @ u @ rest)" by (intro leadingInt_number) (auto simp: not_digits)
  have "\<not> is_digit (hd (u @ rest))" using assms(6,7) by (cases u) auto
  then have frac: "leadingFraction (pad k w @ u @ rest) 0 1 False = (w mod 10 ^ k, of_nat (10 ^ k), u @ rest)"
    using leadingFraction_pad [of k w "u @ rest"] leadingFraction_stop [of "u @ rest"] assms(2,3) by simp
  have ex: "nat \<lfloor>f64 (f64 (of_nat (w mod 10 ^ k)) * f64 (f64 (of_nat (10 ^ prec)) / of_nat (10 ^ k)))\<rfloor>
      = w mod 10 ^ k * 10 ^ (prec - k)"
    using assms(2,3) by (intro fraction_exact) auto
  show ?thesis unfolding parse_term_def
    using hd int frac ex assms(1,4-6,9,10) unit_split [OF assms(7,8)] by (simp add: Let_def pad_digits(2) del: of_nat_power)
qed

definition unit_chars :: "string \<Rightarrow> bool" where
  "unit_chars u \<longleftrightarrow> u \<noteq> [] \<and> list_all (\<lambda>c. c \<noteq> CHR ''.'' \<and> \<not> is_digit c) u"

lemma units_ok: "unit_chars ''ns''" "unit_chars (micro @ ''s'')" "unit_chars ''ms''" "unit_chars ''s''" "unit_chars ''m''" "unit_chars ''h''"
  by (simp_all add: unit_chars_def micro_def is_digit_def in_range_def)

lemma units_map: "unitMap ''ns'' = Some (10 ^ 0)" "unitMap (micro @ ''s'') = Some (10 ^ 3)" "unitMap ''ms'' = Some (10 ^ 6)"
  "unitMap ''s'' = Some (10 ^ 9)" "unitMap ''m'' = Some 60000000000" "unitMap ''h'' = Some 3600000000000"
  by (simp_all add: unitMap_def micro_def)

lemma with_unit_parse:
  assumes "prec \<le> 9" and "unitMap u = Some (10 ^ prec)" and "unit_chars u" and "v \<le> two63" and "starts_number rest"
  shows "parse_term (with_unit prec v u @ rest) = Some (v, rest)"
proof (cases "v mod 10 ^ prec = 0")
  case True
  then have "fmtFrac prec False v u = (u, v div 10 ^ prec)" using fmtFrac_strip [where n = prec] by simp
  moreover have "v div 10 ^ prec * 10 ^ prec = v" using True by (simp add: mod_eq_0_iff_dvd)
  ultimately show ?thesis
    using parse_whole [of "v div 10 ^ prec" "10 ^ prec" u rest] assms div_le_mono [OF assms(4)]
    by (simp add: with_unit_def unit_chars_def)
next
  case False
  then obtain k where k: "0 < k" "k \<le> prec" "10 ^ (prec - k) dvd v"
    "fmtFrac prec False v u = (CHR ''.'' # pad k (v div 10 ^ (prec - k)) @ u, v div 10 ^ prec)"
    using fmtFrac_strip [of v prec u] by auto
  let ?w = "v div 10 ^ (prec - k)"
  have "(10 :: nat) ^ prec = 10 ^ (prec - k) * 10 ^ k" using k(2) by (simp add: power_add [symmetric])
  then have "v mod 10 ^ prec = 10 ^ (prec - k) * (?w mod 10 ^ k)"
    using k(3) mult_mod_right [of "10 ^ (prec - k)" ?w "10 ^ k"] by simp
  then have w: "?w mod 10 ^ k * 10 ^ (prec - k) = v mod 10 ^ prec" by simp
  have "?w mod 10 ^ k > 0" using w False by (metis bot_nat_0.not_eq_extremum mult_0)
  with parse_fraction [of "v div 10 ^ prec" prec k u rest ?w] assms k w div_le_mono [OF assms(4)] div_mult_mod_eq [of v "10 ^ prec"]
  show ?thesis by (simp add: with_unit_def unit_chars_def)
qed

lemma fmtFrac_low: "v mod 10 ^ n = v' mod 10 ^ n \<Longrightarrow> fst (fmtFrac n pr v buf) = fst (fmtFrac n pr v' buf)"
proof (induction n arbitrary: v v' pr buf)
  case (Suc n)
  have eq: "10 * (v div 10 mod 10 ^ n) + v mod 10 = 10 * (v' div 10 mod 10 ^ n) + v' mod 10"
    using Suc(2) unfolding power_Suc mod_mult2_eq .
  then have "(10 * (v div 10 mod 10 ^ n) + v mod 10) mod 10 = (10 * (v' div 10 mod 10 ^ n) + v' mod 10) mod 10" by (rule arg_cong)
  then have low: "v mod 10 = v' mod 10" by simp
  with eq have "v div 10 mod 10 ^ n = v' div 10 mod 10 ^ n" by simp
  from Suc.IH [OF this] show ?case by (simp add: Let_def low)
qed simp

lemma fmtFrac_high: "snd (fmtFrac n pr v buf) = v div 10 ^ n"
  by (induction n arbitrary: pr v buf) (simp_all add: Let_def div_mult2_eq)

lemma hms_eq:
  "hms u =
     (let v = u div 10 ^ 9; secs = with_unit 9 (v mod 60 * 10 ^ 9 + u mod 10 ^ 9) ''s''; m = v div 60 in
      if m > 0 then
        let mins = nat_digits (m mod 60) @ ''m'' @ secs; h = m div 60 in
        if h > 0 then nat_digits h @ ''h'' @ mins else mins
      else secs)"
proof -
  have f: "fst (fmtFrac 9 False (u div 10 ^ 9 mod 60 * 10 ^ 9 + u mod 10 ^ 9) ''s'') = fst (fmtFrac 9 False u ''s'')"
    by (rule fmtFrac_low) simp
  have "nat_digits (u div 10 ^ 9 mod 60) @ fst (fmtFrac 9 False u ''s'') = with_unit 9 (u div 10 ^ 9 mod 60 * 10 ^ 9 + u mod 10 ^ 9) ''s''"
    unfolding with_unit_def f [symmetric] by (simp add: case_prod_beta fmtFrac_high)
  then show ?thesis unfolding hms_def case_prod_beta fmtFrac_high Let_def by (simp only:)
qed

lemma parse_terms_step:
  assumes "parse_term s = Some (v, rest)" and "d + v \<le> two63"
  shows "parse_terms s d = parse_terms rest (d + v)"
proof -
  have "s \<noteq> []" using assms(1) by (auto simp: parse_term_def)
  moreover have "(d + v) mod 2 ^ 64 = d + v" using assms(2) by (simp add: two63_def)
  ultimately show ?thesis using assms by (simp add: parse_terms.simps [of s] Let_def)
qed

lemma starts_digits [simp]: "starts_number (nat_digits n @ s)" "starts_number []" "starts_number (with_unit prec v u)"
proof -
  show d: "starts_number (nat_digits n @ s)" for n s using nat_digits_digits [of n] by (cases "nat_digits n") (auto simp: starts_number_def)
  show "starts_number []" by (simp add: starts_number_def)
  show "starts_number (with_unit prec v u)" using d by (simp add: with_unit_def split: prod.split)
qed

section \<open>The round trip\<close>

lemma parse_with_unit:
  assumes "prec \<le> 9" and "unitMap u = Some (10 ^ prec)" and "unit_chars u" and "d + v \<le> two63"
  shows "parse_terms (with_unit prec v u) d = Some (d + v)"
  using parse_terms_step [OF with_unit_parse [OF assms(1-3), of v "[]", simplified] assms(4)] assms(4)
  by (simp add: parse_terms.simps [of "[]"])

lemma parse_clock:
  assumes "unitMap u = Some k" and "k > 0" and "unit_chars u" and "d + n * k \<le> two63" and "starts_number rest"
  shows "parse_terms (nat_digits n @ u @ rest) d = parse_terms rest (d + n * k)"
proof -
  have "n \<le> two63 div k" using assms(2,4) by (simp add: less_eq_div_iff_mult_less_eq)
  from parse_terms_step [OF parse_whole [OF this assms(1,2) _ _ assms(5)] assms(4)] assms(3) show ?thesis
    by (simp add: unit_chars_def)
qed

lemma parse_hms:
  assumes "u \<le> two63"
  shows "parse_terms (hms u) 0 = Some u"
proof -
  define v where "v = u div 10 ^ 9"
  define m where "m = v div 60"
  define low where "low = v mod 60 * 10 ^ 9 + u mod 10 ^ 9"
  define secs where "secs = with_unit 9 low ''s''"
  have v: "u = v * 10 ^ 9 + u mod 10 ^ 9" by (simp only: v_def div_mult_mod_eq)
  define r where "r = v mod 60"
  have m: "v = m * 60 + r" by (simp only: m_def r_def div_mult_mod_eq)
  have h: "m * 60000000000 = (m div 60 * 60 + m mod 60) * 60000000000" by simp
  have u: "u = m * 60000000000 + low" using v unfolding low_def r_def [symmetric] by (simp add: m)
  have "(m div 60 * 60 + m mod 60) * 60000000000 = m div 60 * 3600000000000 + m mod 60 * 60000000000"
    by (simp only: distrib_right mult.assoc)
  with h have "m * 60000000000 = m div 60 * 3600000000000 + m mod 60 * 60000000000" by (rule trans)
  then have u2: "u = m div 60 * 3600000000000 + m mod 60 * 60000000000 + low" using u by simp
  have secs_ok: "parse_terms secs d = Some (d + low)" if "d + low \<le> two63" for d
    unfolding secs_def using that by (intro parse_with_unit units_map units_ok) simp
  have start: "starts_number secs" "starts_number (nat_digits (m mod 60) @ ''m'' @ secs)" by (simp_all add: secs_def)
  have mins_ok: "parse_terms (nat_digits (m mod 60) @ ''m'' @ secs) d = Some (d + m mod 60 * 60000000000 + low)"
    if "d + m mod 60 * 60000000000 + low \<le> two63" for d
    using that parse_clock [OF units_map(5) _ units_ok(5) _ start(1), of d "m mod 60"] secs_ok by simp
  have "hms u = (if m > 0 then if m div 60 > 0 then nat_digits (m div 60) @ ''h'' @ nat_digits (m mod 60) @ ''m'' @ secs
      else nat_digits (m mod 60) @ ''m'' @ secs else secs)"
    unfolding hms_eq Let_def v_def m_def secs_def low_def by simp
  moreover have "parse_terms (nat_digits (m div 60) @ ''h'' @ nat_digits (m mod 60) @ ''m'' @ secs) 0 = Some u"
    using parse_clock [OF units_map(6) _ units_ok(6) _ start(2), of 0 "m div 60"] mins_ok [of "m div 60 * 3600000000000"] assms u2 by simp
  moreover have "parse_terms (nat_digits (m mod 60) @ ''m'' @ secs) 0 = Some u" if "m div 60 = 0"
    using mins_ok [of 0] assms u2 that by simp
  moreover have "parse_terms secs 0 = Some u" if "m = 0" using secs_ok [of 0] assms u that by simp
  ultimately show ?thesis by simp
qed

text \<open>The text of the absolute value.\<close>

definition magnitude :: "nat \<Rightarrow> string" where
  "magnitude u =
     (if u < 1000000000 then
        (if u = 0 then ''0s''
         else if u < 1000 then with_unit 0 u ''ns''
         else if u < 1000000 then with_unit 3 u (micro @ ''s'')
         else with_unit 6 u ''ms'')
      else hms u)"

lemma parse_magnitude:
  assumes "u \<le> two63"
  shows "parse_terms (magnitude u) 0 = Some u" and "starts_number (magnitude u)"
proof -
  have digits_zero: "nat_digits 0 = ''0''" by code_simp
  have zero: "''0s'' = with_unit 0 0 ''s''" by (simp add: with_unit_def digits_zero)
  have "parse_terms (with_unit 0 0 ''s'') 0 = Some 0"
    using parse_clock [OF units_map(4) _ units_ok(4), of 0 0 "[]"] by (simp add: with_unit_def parse_terms.simps [of "[]"])
  moreover have "parse_terms (with_unit 0 u ''ns'') 0 = Some (0 + u)" "parse_terms (with_unit 3 u (micro @ ''s'')) 0 = Some (0 + u)"
    "parse_terms (with_unit 6 u ''ms'') 0 = Some (0 + u)"
    using assms by (intro parse_with_unit units_map units_ok; simp)+
  ultimately show "parse_terms (magnitude u) 0 = Some u" using parse_hms [OF assms] zero by (simp add: magnitude_def)
  have "starts_number (hms u)" unfolding hms_eq Let_def by simp
  then show "starts_number (magnitude u)" using zero by (simp add: magnitude_def)
qed

text \<open>
  C40: durations survive their JSON form. Every 64-bit duration, negative ones and the smallest one
  included, is printed as text that is read back as the same number of nanoseconds, through the
  fractions of the units below a second, the floating-point product of the parser and its overflow checks.
\<close>

theorem duration_roundtrip:
  assumes "min_int64 \<le> d" and "d \<le> max_int64"
  shows "Duration_UnmarshalJSON (Duration_MarshalJSON d) = Some d"
proof -
  have u: "nat \<bar>d\<bar> \<le> two63" using assms by (auto simp: two63_def min_int64_def max_int64_def)
  note p = parse_magnitude [OF u]
  have "parse_term ''0'' = None" by (simp add: parse_term_def is_digit_def in_range_def digit_nat_def two63_def Let_def)
  then have "parse_terms ''0'' 0 = None" by (simp add: parse_terms.simps [of "''0''"])
  then have zero: "magnitude (nat \<bar>d\<bar>) \<noteq> ''0''" using p(1) by auto
  have ne: "magnitude (nat \<bar>d\<bar>) \<noteq> []" by (simp add: magnitude_def with_unit_def hms_def nat_digits_digits Let_def split: prod.split)
  then have c: "is_digit (hd (magnitude (nat \<bar>d\<bar>)))" using p(2) by (simp add: starts_number_def)
  then have sign: "\<not> HasPrefix (magnitude (nat \<bar>d\<bar>)) ''-''" "\<not> HasPrefix (magnitude (nat \<bar>d\<bar>)) ''+''"
    using ne not_digits by (cases "magnitude (nat \<bar>d\<bar>)"; auto simp: HasPrefix_def)+
  have printed: "Duration_String d = (if d < 0 then CHR ''-'' # magnitude (nat \<bar>d\<bar>) else magnitude (nat \<bar>d\<bar>))"
    by (simp add: Duration_String_def magnitude_def Let_def)
  show ?thesis
  proof (cases "d < 0")
    case True
    then show ?thesis using p(1) zero ne
      by (simp add: Duration_UnmarshalJSON_def Duration_MarshalJSON_def printed ParseDuration_def HasPrefix_def Let_def)
  next
    case False
    then have "nat \<bar>d\<bar> \<le> two63 - 1" using assms(2) by (simp add: two63_def max_int64_def)
    with False show ?thesis using p(1) zero ne sign
      by (simp add: Duration_UnmarshalJSON_def Duration_MarshalJSON_def printed ParseDuration_def Let_def)
  qed
qed

text \<open>The retry delay of 90 minutes and a half, as documents write it.\<close>

theorem duration_roundtrip_witness:
  "Duration_UnmarshalJSON (Duration_MarshalJSON 5430000000000) = Some 5430000000000
   \<and> Duration_UnmarshalJSON (Duration_MarshalJSON min_int64) = Some min_int64"
  using duration_roundtrip [of 5430000000000] duration_roundtrip [of min_int64] by (simp add: min_int64_def max_int64_def)

end
