(* ===== verification/Support.thy ===== *)
theory Support
  imports Worker Recovery Health
begin

text \<open>
  The small parts around the core: the identifier of a request in its context
  (\<^verbatim>\<open>internal/domain/context.go\<close>), the database pools (\<^verbatim>\<open>internal/repository/database.go\<close>), the options of
  the Redis client, the writes of the broker connection (\<^verbatim>\<open>internal/mq/rabbitmq/connection.go\<close>), the health
  probe (\<^verbatim>\<open>cmd/healthcheck\<close>) and the recovery loop around its step.
\<close>

section \<open>Request identifiers\<close>

text \<open>A context is the chain of its values, the innermost first.\<close>

datatype ctx_key = RequestIDKey | OtherKey string

datatype 'v ctx_value = StringValue string | OtherValue 'v

type_synonym 'v ctx = "(ctx_key \<times> 'v ctx_value) list"

definition WithRequestID :: "'v ctx \<Rightarrow> string \<Rightarrow> 'v ctx" where
  "WithRequestID ctx i = (RequestIDKey, StringValue i) # ctx"

definition RequestID :: "'v ctx \<Rightarrow> string" where
  "RequestID ctx = (case map_of ctx RequestIDKey of Some (StringValue s) \<Rightarrow> s | _ \<Rightarrow> [])"

text \<open>The first statement of \<^verbatim>\<open>Process\<close>: a job that comes without an identifier gets one.\<close>

definition traced :: "'v ctx \<Rightarrow> ID \<Rightarrow> 'v ctx" where
  "traced ctx fresh = (if RequestID ctx = [] then WithRequestID ctx (ID_String fresh) else ctx)"

definition in_context :: "'v ctx \<Rightarrow> ID \<Rightarrow> job_env \<Rightarrow> job_env" where
  "in_context ctx fresh j = j\<lparr>jvReqid := RequestID (traced ctx fresh)\<rparr>"

lemma RequestID_With [simp]: "RequestID (WithRequestID ctx i) = i"
  by (simp add: RequestID_def WithRequestID_def)

lemma RequestID_other [simp]: "RequestID ((OtherKey k, v) # ctx) = RequestID ctx"
  by (simp add: RequestID_def)

lemma traced_keeps: "i \<noteq> [] \<Longrightarrow> RequestID (traced (WithRequestID ctx i) fresh) = i"
  by (simp add: traced_def)

lemma traced_nonempty: "length fresh = 16 \<Longrightarrow> RequestID (traced ctx fresh) \<noteq> []"
  by (simp add: traced_def) (auto simp: ID_String_def Let_def)

text \<open>
  What reaches the target carries the identifier of the request it was made for, unless the target's
  secret goes into the very same header.
\<close>

lemma prepare_traced:
  assumes "prepare K L buildable reqid n t current secret = Inr req"
    and "auType (tgAuth current) = ''static_header'' \<Longrightarrow> CanonicalHeaderKey (auHeader (tgAuth current)) \<noteq> ''X-Request-Id''"
  shows "map_of (hqHeaders req) ''X-Request-Id'' = Some reqid"
proof -
  have "CanonicalHeaderKey ''User-Agent'' = ''User-Agent''" "CanonicalHeaderKey ''X-Request-ID'' = ''X-Request-Id''" by code_simp+
  with assms show ?thesis
    by (auto simp: prepare_def Let_def header_set_get split: if_split_asm option.split_asm prod.split_asm)
qed

section \<open>Identifiers in JSON\<close>

text \<open>Decoding JSON \<^verbatim>\<open>null\<close> into a Go string leaves it empty, which is no identifier.\<close>

definition ID_MarshalJSON :: "ID \<Rightarrow> json" where
  "ID_MarshalJSON u = JStr (ID_String u)"

definition ID_UnmarshalJSON :: "json \<Rightarrow> error + ID" where
  "ID_UnmarshalJSON j = (case j of JStr s \<Rightarrow> ParseID s | JNull \<Rightarrow> ParseID [] | _ \<Rightarrow> Inl json_error)"

lemma ID_json_roundtrip: "length u = 16 \<Longrightarrow> ID_UnmarshalJSON (ID_MarshalJSON u) = Inr u"
  by (simp add: ID_UnmarshalJSON_def ID_MarshalJSON_def ParseID_ID_String)

section \<open>Database pools\<close>

text \<open>The driver's settings that the code sets; \<open>myParams\<close> may be the nil map.\<close>

record mysql_config =
  myParseTime :: bool
  myLoc :: string
  myTimeout :: duration
  myReadTimeout :: duration
  myWriteTimeout :: duration
  myParams :: "(string \<times> string) list option"

text \<open>The driver: \<^verbatim>\<open>ParseDSN\<close>, \<^verbatim>\<open>FormatDSN\<close>, and the settings a connector made from a data source name uses.\<close>

record 'm mysql =
  drParse :: "string \<Rightarrow> error + 'm mysql_config_scheme"
  drFormat :: "'m mysql_config_scheme \<Rightarrow> string"
  drConnector :: "string \<Rightarrow> error + 'm mysql_config_scheme"

text \<open>\<^verbatim>\<open>sql.DB\<close>: \<open>plIdle\<close> is its field \<^verbatim>\<open>maxIdleCount\<close>, where 0 stands for two and a negative number for none.\<close>

record 'm pool =
  plConfig :: "'m mysql_config_scheme"
  plOpen :: int
  plIdle :: int
  plLifetime :: duration
  plIdleTime :: duration

definition idle_limit :: "'m pool \<Rightarrow> int" where
  "idle_limit p = (if plIdle p = 0 then 2 else if plIdle p < 0 then 0 else plIdle p)"

definition SetMaxIdleConns :: "int \<Rightarrow> 'm pool \<Rightarrow> 'm pool" where
  "SetMaxIdleConns n p =
     (let p1 = p\<lparr>plIdle := (if n > 0 then n else -1)\<rparr>
      in if plOpen p1 > 0 \<and> idle_limit p1 > plOpen p1 then p1\<lparr>plIdle := plOpen p1\<rparr> else p1)"

definition SetMaxOpenConns :: "int \<Rightarrow> 'm pool \<Rightarrow> 'm pool" where
  "SetMaxOpenConns n p =
     (let p1 = p\<lparr>plOpen := (if n < 0 then 0 else n)\<rparr>
      in if plOpen p1 > 0 \<and> idle_limit p1 > plOpen p1 then SetMaxIdleConns n p1 else p1)"

definition SetConnMaxLifetime :: "duration \<Rightarrow> 'm pool \<Rightarrow> 'm pool" where
  "SetConnMaxLifetime t p = p\<lparr>plLifetime := (if t < 0 then 0 else t)\<rparr>"

definition SetConnMaxIdleTime :: "duration \<Rightarrow> 'm pool \<Rightarrow> 'm pool" where
  "SetConnMaxIdleTime t p = p\<lparr>plIdleTime := (if t < 0 then 0 else t)\<rparr>"

definition pool_settings :: "'m mysql_config_scheme \<Rightarrow> 'm mysql_config_scheme" where
  "pool_settings c = c\<lparr>myParseTime := True, myLoc := ''UTC'', myTimeout := 5 * second, myReadTimeout := 10 * second,
     myWriteTimeout := 10 * second,
     myParams := Some (map_put ''time_zone'' (CHR 0x27 # ''+00:00'' @ [CHR 0x27]) (case myParams c of None \<Rightarrow> [] | Some m \<Rightarrow> m))\<rparr>"

text \<open>Go's division of integers rounds towards zero.\<close>

definition halved :: "int \<Rightarrow> int" where
  "halved n = (if n < 0 then - (- n div 2) else n div 2)"

definition Open :: "'m mysql \<Rightarrow> string \<Rightarrow> int \<Rightarrow> error + 'm pool" where
  "Open M dsn maxOpen =
     (case drParse M dsn of
        Inl x \<Rightarrow> Inl x
      | Inr c \<Rightarrow>
          (case drConnector M (drFormat M (pool_settings c)) of
             Inl x \<Rightarrow> Inl x
           | Inr c' \<Rightarrow>
               Inr (SetConnMaxIdleTime minute (SetConnMaxLifetime (5 * minute) (SetMaxIdleConns (halved maxOpen)
                 (SetMaxOpenConns maxOpen \<lparr>plConfig = c', plOpen = 0, plIdle = 0, plLifetime = 0, plIdleTime = 0\<rparr>))))))"

text \<open>What the driver documents of the two: a connector made from a formatted configuration uses that configuration.\<close>

definition formats :: "'m mysql \<Rightarrow> bool" where
  "formats M \<longleftrightarrow> (\<forall>c c'. drConnector M (drFormat M c) = Inr c' \<longrightarrow> c' = c)"

lemma Open_limits:
  assumes "Open M dsn maxOpen = Inr p" and "2 \<le> maxOpen"
  shows "plOpen p = maxOpen \<and> idle_limit p = maxOpen div 2 \<and> 1 \<le> idle_limit p \<and> idle_limit p \<le> plOpen p
    \<and> plLifetime p = 5 * minute \<and> plIdleTime p = minute"
proof -
  from assms(1) obtain c' where "p = SetConnMaxIdleTime minute (SetConnMaxLifetime (5 * minute) (SetMaxIdleConns (halved maxOpen)
      (SetMaxOpenConns maxOpen \<lparr>plConfig = c', plOpen = 0, plIdle = 0, plLifetime = 0, plIdleTime = 0\<rparr>)))"
    by (auto simp: Open_def split: sum.splits)
  moreover have "SetMaxOpenConns maxOpen \<lparr>plConfig = c', plOpen = 0, plIdle = 0, plLifetime = 0, plIdleTime = 0\<rparr>
      = \<lparr>plConfig = c', plOpen = maxOpen, plIdle = 0, plLifetime = 0, plIdleTime = 0\<rparr>"
    using assms(2) by (simp add: SetMaxOpenConns_def idle_limit_def)
  moreover have "0 < halved maxOpen" "halved maxOpen = maxOpen div 2" "halved maxOpen \<le> maxOpen"
    using assms(2) by (simp_all add: halved_def pos_imp_zdiv_pos_iff)
  ultimately show ?thesis
    by (simp add: SetMaxIdleConns_def SetConnMaxLifetime_def SetConnMaxIdleTime_def idle_limit_def Let_def go_simps)
qed

lemma pool_keeps:
  "plConfig (SetMaxIdleConns n p) = plConfig p" "plConfig (SetMaxOpenConns n p) = plConfig p"
  "plConfig (SetConnMaxLifetime t p) = plConfig p" "plConfig (SetConnMaxIdleTime t p) = plConfig p"
  by (simp_all add: SetMaxIdleConns_def SetMaxOpenConns_def SetConnMaxLifetime_def SetConnMaxIdleTime_def Let_def)

text \<open>
  Every connection of a pool reads and writes times in UTC, as the store assumes; no wait on the network is
  unbounded; what else the data source name asks for is kept.
\<close>

lemma Open_utc:
  assumes "Open M dsn maxOpen = Inr p" and "formats M" and "drParse M dsn = Inr c"
  shows "myParseTime (plConfig p) \<and> myLoc (plConfig p) = ''UTC'' \<and> 0 < myTimeout (plConfig p) \<and> 0 < myReadTimeout (plConfig p)
    \<and> 0 < myWriteTimeout (plConfig p)
    \<and> map_of (the (myParams (plConfig p))) ''time_zone'' = Some (CHR 0x27 # ''+00:00'' @ [CHR 0x27])
    \<and> (\<forall>k v. k \<noteq> ''time_zone'' \<and> map_of (the (myParams c)) k = Some v \<and> myParams c \<noteq> None \<longrightarrow> map_of (the (myParams (plConfig p))) k = Some v)
    \<and> mysql_config.more (plConfig p) = mysql_config.more c"
proof -
  from assms have "plConfig p = pool_settings c"
    by (auto simp: Open_def formats_def pool_keeps split: sum.splits)
  then show ?thesis by (auto simp: pool_settings_def go_simps split: option.splits)
qed

section \<open>The Redis client\<close>

record redis_options =
  roDialTimeout :: duration
  roReadTimeout :: duration
  roWriteTimeout :: duration
  roMaxRetries :: int
  roContextTimeout :: bool

definition redis_setup :: "'o redis_options_scheme \<Rightarrow> 'o redis_options_scheme" where
  "redis_setup o' = o'\<lparr>roDialTimeout := second, roReadTimeout := 500 * millisecond, roWriteTimeout := 500 * millisecond,
     roMaxRetries := -1, roContextTimeout := True\<rparr>"

section \<open>Writes of the broker connection\<close>

text \<open>A connection of the standard library: the two calls on its state.\<close>

record 'c net_conn =
  ncDeadline :: "gotime \<Rightarrow> 'c \<Rightarrow> error option \<times> 'c"
  ncWrite :: "string \<Rightarrow> 'c \<Rightarrow> (nat \<times> error option) \<times> 'c"

definition boundedConn_Write :: "'c net_conn \<Rightarrow> gotime \<Rightarrow> string \<Rightarrow> 'c \<Rightarrow> (nat \<times> error option) \<times> 'c" where
  "boundedConn_Write N now b c =
     (case ncDeadline N (now + 5 * second) c of
        (Some x, c1) \<Rightarrow> ((0, Some x), c1)
      | (None, c1) \<Rightarrow> ncWrite N b c1)"

text \<open>Nothing is written but under a deadline at most five seconds away: whatever the deadline call guarantees when it succeeds holds when the bytes go out.\<close>

lemma boundedConn_guarded:
  assumes "\<And>c c'. ncDeadline N (now + 5 * second) c = (None, c') \<Longrightarrow> P c'" and "\<And>c. P c \<Longrightarrow> Q (ncWrite N b c)"
    and "boundedConn_Write N now b c = ((k, x), c')"
  shows "k = 0 \<and> x \<noteq> None \<or> Q ((k, x), c')"
proof (cases "ncDeadline N (now + 5 * second) c")
  case (Pair y c1)
  show ?thesis
  proof (cases y)
    case None
    with Pair assms(1,3) have "ncWrite N b c1 = ((k, x), c')" "P c1" by (simp_all add: boundedConn_Write_def)
    with assms(2) [of c1] show ?thesis by simp
  qed (use Pair assms(3) in \<open>auto simp: boundedConn_Write_def\<close>)
qed

section \<open>The health probe\<close>

definition healthcheck :: "(string \<Rightarrow> error + int) \<Rightarrow> string list \<Rightarrow> nat" where
  "healthcheck get args =
     (let url = (if length args = 2 then args ! 1 else ''http://127.0.0.1:8081/health/ready'')
      in case get url of Inl _ \<Rightarrow> 1 | Inr status \<Rightarrow> if status \<noteq> 200 then 1 else 0)"

text \<open>The answer of the health server as it is written, and the probe against the running server.\<close>

definition health_write :: "int \<times> health_body \<Rightarrow> int \<times> (string \<times> string) list \<times> health_body" where
  "health_write a = (fst a, [(''Content-Type'', ''application/json''), (''Cache-Control'', ''no-store'')], snd a)"

definition probed :: "health_env \<Rightarrow> Health \<Rightarrow> string \<Rightarrow> error + int" where
  "probed e h url =
     (if url = ''http://127.0.0.1:8081/health/ready''
      then (case health_handler e ''GET'' [''health'', ''ready''] h of None \<Rightarrow> Inr 404 | Some a \<Rightarrow> Inr (fst (health_write a)))
      else Inl (fails ''elsewhere''))"

lemma healthcheck_ready: "healthcheck (probed e h) [prog] = 0 \<longleftrightarrow> fst (dependencies e h)"
  by (simp add: healthcheck_def probed_def health_handler_def health_write_def split: prod.splits)

section \<open>The recovery loop\<close>

text \<open>
  One turn: what the step meets, whether the loop's context is done when the step returns, and whether the
  select then takes the done context. The result says whether the loop has returned and how many errors it reported.
\<close>

record recovery_turn =
  utStep :: recovery_env
  utDone :: bool
  utLeave :: bool

fun recovery_run :: "recovery_deps \<Rightarrow> recovery_turn list \<Rightarrow> loop_state \<Rightarrow> bool \<times> nat \<times> loop_state" where
  "recovery_run D [] st = (False, 0, st)"
| "recovery_run D (t # ts) st =
     (case recovery_step D (utStep t) st of
        (res, st1) \<Rightarrow>
          let reported = (if res \<noteq> None \<and> \<not> utDone t then 1 else 0)
          in if utLeave t then (True, reported, st1)
             else (case recovery_run D ts st1 of (left, k, st2) \<Rightarrow> (left, reported + k, st2)))"

lemma recovery_run_path:
  assumes "recovery_run D ts st = (left, k, st')" and "list_all (\<lambda>t. loop_others_ok (rdCodec D) N (utStep t)) ts"
  shows "db_path (rdCodec D) (length ts * (202 * N + 103)) (rDb st) (rDb st')"
  using assms
proof (induction ts arbitrary: st left k)
  case (Cons t ts)
  obtain res st1 where s: "recovery_step D (utStep t) st = (res, st1)" by (rule prod.exhaust)
  from recovery_step_path [OF _ s] Cons.prems(2) have p: "db_path (rdCodec D) (202 * N + 103) (rDb st) (rDb st1)" by auto
  show ?case
  proof (cases "utLeave t")
    case True
    with Cons.prems(1) s have "st' = st1" by (simp add: Let_def)
    with db_path_mono [OF p] show ?thesis by simp
  next
    case False
    with Cons.prems(1) s obtain left' k' where "recovery_run D ts st1 = (left', k', st')"
      by (auto simp: Let_def split: prod.splits)
    with Cons have "db_path (rdCodec D) (length ts * (202 * N + 103)) (rDb st1) (rDb st')" by auto
    from db_path_trans [OF p this] show ?thesis by (simp add: add.commute)
  qed
qed simp

text \<open>An error does not end the loop: it goes on until its context is done.\<close>

lemma recovery_run_survives: "\<not> list_ex utLeave ts \<Longrightarrow> fst (recovery_run D ts st) = False"
  by (induction ts arbitrary: st) (auto simp: Let_def prod.case_eq_if)

end
