(* ===== verification/Mock.thy ===== *)
theory Mock
  imports Deliver
begin

text \<open>
  The test target \<^verbatim>\<open>cmd/mock-target\<close>: the handlers over the two tables they share, and what a sender can
  rely on. A request is the one the target adapter sends.
\<close>

section \<open>State\<close>

text \<open>\<open>obBodyRequest\<close> is \<^verbatim>\<open>body["request_id"]\<close>, \<^const>\<open>None\<close> for \<^verbatim>\<open>nil\<close>.\<close>

record 'v observation =
  obReceived :: gotime
  obNotification :: string
  obKey :: string
  obBodyRequest :: "'v option"
  obPath :: string
  obAttempt :: int

record 'v mock =
  mkCounts :: "(string \<times> int) list"
  mkRecords :: "(string \<times> 'v observation list) list"

definition mock_start :: "'v mock" where
  "mock_start = \<lparr>mkCounts = [], mkRecords = []\<rparr>"

text \<open>
  What one request meets: the clock, whether the connection can be taken over (\<^const>\<open>None\<close>: it is of a kind
  that never can) and whether the sender gives up during a pause.
\<close>

record mock_env =
  kvNow :: gotime
  kvHijack :: "bool option"
  kvGone :: bool

datatype 'v mock_answer =
    Alive
  | Observed "'v observation list"
  | Dropped
  | Abandoned
  | Blank
  | Answer int "(string \<times> string) list" int int string

section \<open>Handlers\<close>

text \<open>\<^verbatim>\<open>strconv.Atoi\<close> with its error ignored: 0 for a syntax error, the nearest value for one of range.\<close>

definition Atoi :: "string \<Rightarrow> int" where
  "Atoi s =
     (let ds = (if HasPrefix s ''-'' \<or> HasPrefix s ''+'' then drop 1 s else s)
      in if ds = [] \<or> \<not> list_all is_digit ds then 0
         else max min_int64 (min max_int64 (if HasPrefix s ''-'' then - decimal ds else decimal ds)))"

definition header_get :: "http_request \<Rightarrow> string \<Rightarrow> string" where
  "header_get r k = go_get [] (hqHeaders r) (CanonicalHeaderKey k)"

definition mock_key :: "http_request \<Rightarrow> string" where
  "mock_key r = (if header_get r ''Idempotency-Key'' = [] then header_get r ''X-Notification-ID'' else header_get r ''Idempotency-Key'')"

text \<open>The section under the mutex. \<open>dec\<close> is what the decoder of the standard library leaves in the map for a body.\<close>

definition observe :: "(string \<Rightarrow> (string \<times> 'v) list) \<Rightarrow> mock_env \<Rightarrow> http_request \<Rightarrow> 'v mock \<Rightarrow> int \<times> 'v mock" where
  "observe dec e r m =
     (let key = mock_key r;
          m1 = (if length (mkCounts m) > 100000 then mock_start else m);
          count = wrap64 (go_get 0 (mkCounts m1) key + 1);
          entry = \<lparr>obReceived = kvNow e, obNotification = header_get r ''X-Notification-ID'', obKey = key,
                   obBodyRequest = map_of (dec (hqBody r)) ''request_id'', obPath = hqPath r, obAttempt = count\<rparr>
      in (count, m1\<lparr>mkCounts := map_put key count (mkCounts m1),
                    mkRecords := map_put key (go_get [] (mkRecords m1) key @ [entry]) (mkRecords m1)\<rparr>))"

text \<open>The switch over the path: status, business code and the header \<^verbatim>\<open>Retry-After\<close>.\<close>

definition verdict :: "string \<Rightarrow> (string \<times> string) list \<Rightarrow> int \<Rightarrow> int \<times> int \<times> (string \<times> string) list" where
  "verdict path q count =
     (let failing = count \<le> Atoi (go_get [] q ''failures'') in
      if path = ''/a'' then (if failing then 500 else 200, 0, [])
      else if path = ''/b'' then
        (200, if go_get [] q ''terminal'' = ''true'' then 2000 else if failing then 1001 else 0, [])
      else if path = ''/c'' then (200, 0, [])
      else if path = ''/d'' then
        (if failing
         then (429, 0, [(''Retry-After'', if go_get [] q ''retry_after'' = [] then ''5'' else go_get [] q ''retry_after'')])
         else (200, 0, []))
      else (404, 0, []))"

definition pause :: "(string \<times> string) list \<Rightarrow> duration" where
  "pause q = (let seconds = Atoi (go_get [] q ''sleep'') in if seconds > 0 then min seconds 60 * second else 0)"

definition mock_root ::
  "(string \<Rightarrow> (string \<times> 'v) list) \<Rightarrow> mock_env \<Rightarrow> http_request \<Rightarrow> 'v mock \<Rightarrow> 'v mock_answer \<times> 'v mock" where
  "mock_root dec e r m =
     (case observe dec e r m of
        (count, m') \<Rightarrow>
          ((if go_get [] (hqQuery r) ''reset'' = ''true'' then (if kvHijack e = Some True then Dropped else Blank)
            else if pause (hqQuery r) > 0 \<and> kvGone e then Abandoned
            else case verdict (hqPath r) (hqQuery r) count of
              (status, code, hs) \<Rightarrow> Answer status ((''Content-Type'', ''application/json'') # hs) code count (mock_key r)), m'))"

text \<open>The routes. A path below \<^verbatim>\<open>/_admin/requests/\<close> names a key when it has one more segment.\<close>

definition admin_key :: "string \<Rightarrow> string option" where
  "admin_key path =
     (let k = drop (length ''/_admin/requests/'') path
      in if HasPrefix path ''/_admin/requests/'' \<and> k \<noteq> [] \<and> CHR ''/'' \<notin> set k then Some k else None)"

definition mock_handler ::
  "(string \<Rightarrow> (string \<times> 'v) list) \<Rightarrow> mock_env \<Rightarrow> http_request \<Rightarrow> 'v mock \<Rightarrow> 'v mock_answer \<times> 'v mock" where
  "mock_handler dec e r m =
     (if hqMethod r \<in> set [''GET'', ''HEAD''] \<and> hqPath r = ''/health/live'' then (Alive, m)
      else if hqMethod r \<in> set [''GET'', ''HEAD''] \<and> admin_key (hqPath r) \<noteq> None
      then (Observed (go_get [] (mkRecords m) (the (admin_key (hqPath r)))), m)
      else mock_root dec e r m)"

fun mock_serve ::
  "(string \<Rightarrow> (string \<times> 'v) list) \<Rightarrow> (mock_env \<times> http_request) list \<Rightarrow> 'v mock \<Rightarrow> 'v mock_answer list \<times> 'v mock" where
  "mock_serve dec [] m = ([], m)"
| "mock_serve dec ((e, r) # rs) m =
     (case mock_handler dec e r m of (a, m1) \<Rightarrow> (case mock_serve dec rs m1 of (as, m2) \<Rightarrow> (a # as, m2)))"

section \<open>What it promises\<close>

text \<open>The two tables agree: a key's observations are numbered from 1 to its count.\<close>

definition mock_ok :: "int \<Rightarrow> 'v mock \<Rightarrow> bool" where
  "mock_ok n m \<longleftrightarrow> length (mkCounts m) \<le> 100001 \<and>
     (\<forall>k. 0 \<le> go_get 0 (mkCounts m) k \<and> go_get 0 (mkCounts m) k \<le> n
       \<and> map obAttempt (go_get [] (mkRecords m) k) = [1 .. go_get 0 (mkCounts m) k])"

lemma go_get_put: "go_get z (map_put k v m) k' = (if k' = k then v else go_get z m k')"
  by (simp add: go_get_def)

lemma length_map_put: "length (map_put k v m) = length m + (if k \<in> fst ` set m then 0 else 1)"
  by (induction m) (force split: if_splits)+

lemma mock_ok_start: "0 \<le> n \<Longrightarrow> mock_ok n mock_start"
  by (simp add: mock_ok_def mock_start_def go_get_def)

lemma observe_ok:
  assumes "mock_ok n m" and "0 \<le> n" and "n < max_int64" and "observe dec e r m = (count, m')"
  shows "mock_ok (n + 1) m' \<and> 1 \<le> count \<and> count \<le> n + 1"
proof -
  define m1 where "m1 = (if length (mkCounts m) > 100000 then mock_start else m)"
  define c where "c = go_get 0 (mkCounts m1) (mock_key r)"
  have ok: "mock_ok n m1" "length (mkCounts m1) \<le> 100000"
    using assms(1) mock_ok_start [OF assms(2)] unfolding m1_def by (auto simp: mock_start_def)
  then have c: "0 \<le> c" "c \<le> n" "map obAttempt (go_get [] (mkRecords m1) (mock_key r)) = [1 .. c]"
    unfolding c_def mock_ok_def by auto
  with assms(3) have w: "wrap64 (c + 1) = c + 1" by (intro wrap64_id) (auto simp: min_int64_def)
  from assms(4) have count: "count = c + 1" and m': "mkCounts m' = map_put (mock_key r) (c + 1) (mkCounts m1)"
    and rs: "map obAttempt (go_get [] (mkRecords m') k) =
      (if k = mock_key r then [1 .. c] @ [c + 1] else map obAttempt (go_get [] (mkRecords m1) k))" for k
    unfolding observe_def Let_def m1_def [symmetric] c_def [symmetric] w by (auto simp: go_get_put c(3))
  have "mock_ok (n + 1) m'"
    using ok c unfolding mock_ok_def rs m' by (auto simp: go_get_put length_map_put upto_rec2 order_trans [of _ n])
  with c count show ?thesis by simp
qed

lemma mock_handler_ok:
  assumes "mock_ok n m" and "0 \<le> n" and "n < max_int64" and "mock_handler dec e r m = (a, m')"
  shows "mock_ok (n + 1) m'"
proof -
  have "mock_ok (n + 1) m" using assms(1) unfolding mock_ok_def by (auto intro: order_trans [of _ n])
  with observe_ok [OF assms(1,2,3)] assms(4) show ?thesis
    by (auto simp: mock_handler_def mock_root_def split: if_splits prod.splits)
qed

text \<open>A key fails as often as it was told to, however the requests of other keys fall in between.\<close>

definition rooted :: "http_request \<Rightarrow> bool" where
  "rooted r \<longleftrightarrow> \<not> (hqMethod r \<in> set [''GET'', ''HEAD''] \<and> (hqPath r = ''/health/live'' \<or> admin_key (hqPath r) \<noteq> None))"

definition seen_key :: "string \<Rightarrow> (mock_env \<times> http_request) list \<Rightarrow> nat" where
  "seen_key k rs = length (filter (\<lambda>(e, r). rooted r \<and> mock_key r = k) rs)"

lemma handler_counts:
  assumes "mock_handler dec e r m = (a, m')" and "length (mkCounts m) \<le> 100000" and "go_get 0 (mkCounts m) (mock_key r) < max_int64"
    and "0 \<le> go_get 0 (mkCounts m) (mock_key r)"
  shows "go_get 0 (mkCounts m') k = go_get 0 (mkCounts m) k + int (seen_key k [(e, r)]) \<and> length (mkCounts m') \<le> length (mkCounts m) + 1"
proof -
  have "wrap64 (go_get 0 (mkCounts m) (mock_key r) + 1) = go_get 0 (mkCounts m) (mock_key r) + 1"
    using assms(3,4) by (intro wrap64_id) (auto simp: min_int64_def)
  with assms(1,2) show ?thesis
    by (auto simp: mock_handler_def mock_root_def observe_def Let_def seen_key_def rooted_def go_get_put length_map_put split: if_splits)
qed

lemma serve_counts:
  assumes "mock_serve dec rs m = (as, m')" and "length (mkCounts m) + length rs \<le> 100001" and "mock_ok n m" and "0 \<le> n"
    and "n + int (length rs) \<le> max_int64"
  shows "go_get 0 (mkCounts m') k = go_get 0 (mkCounts m) k + int (seen_key k rs) \<and> mock_ok (n + int (length rs)) m'
    \<and> length (mkCounts m') \<le> length (mkCounts m) + length rs"
  using assms
proof (induction rs arbitrary: m as m' n)
  case Nil
  then show ?case by (simp add: seen_key_def)
next
  case (Cons er rs)
  obtain e r where er: "er = (e, r)" by (rule prod.exhaust)
  obtain a m1 where h: "mock_handler dec e r m = (a, m1)" by (rule prod.exhaust)
  obtain as1 m2 where s: "mock_serve dec rs m1 = (as1, m2)" by (rule prod.exhaust)
  from h s Cons.prems(1) er have m': "m' = m2" by simp
  have "0 \<le> go_get 0 (mkCounts m) (mock_key r)" "go_get 0 (mkCounts m) (mock_key r) < max_int64"
    using Cons.prems(3,5) unfolding mock_ok_def by (auto dest: spec [of _ "mock_key r"])
  note c = handler_counts [OF h _ this(2) this(1)]
  have ok: "mock_ok (n + 1) m1" by (rule mock_handler_ok [OF Cons.prems(3,4) _ h]) (use Cons.prems(5) in simp)
  have split: "seen_key k (er # rs) = seen_key k [(e, r)] + seen_key k rs" for k by (simp add: seen_key_def er)
  have len: "length (mkCounts m1) + length rs \<le> 100001" using c [of k] Cons.prems(2) by simp
  from Cons.IH [OF s len ok] c [of k] Cons.prems(2,4,5) show ?case by (simp add: m' split algebra_simps)
qed

theorem mock_recovers:
  assumes "mock_serve dec rs mock_start = (as, m)" and "length rs \<le> 100000" and "rooted r" and "hqPath r = ''/a''"
    and "go_get [] (hqQuery r) ''reset'' \<noteq> ''true''" and "pause (hqQuery r) = 0"
  shows "\<exists>status hs. fst (mock_handler dec e r m) = Answer status hs 0 (int (seen_key (mock_key r) rs) + 1) (mock_key r)
    \<and> status_action status = (if int (seen_key (mock_key r) rs) < Atoi (go_get [] (hqQuery r) ''failures'') then ''retry'' else ''success'')"
proof -
  note c = serve_counts [OF assms(1) _ mock_ok_start [of 0], of "mock_key r"]
  have "go_get 0 (mkCounts m) (mock_key r) = int (seen_key (mock_key r) rs)" "length (mkCounts m) \<le> 100000"
    using c assms(2) by (simp_all add: mock_start_def go_get_def max_int64_def)
  moreover have "seen_key (mock_key r) rs \<le> 100000" using assms(2) unfolding seen_key_def by (meson length_filter_le order_trans)
  then have "wrap64 (int (seen_key (mock_key r) rs) + 1) = int (seen_key (mock_key r) rs) + 1"
    by (intro wrap64_id) (simp_all add: min_int64_def max_int64_def)
  ultimately show ?thesis using assms(3-6)
    by (auto simp: mock_handler_def mock_root_def observe_def Let_def rooted_def verdict_def status_action_def split: if_splits)
qed

end
