(* ===== verification/Progress.thy ===== *)
theory Progress
  imports Worker
begin

text \<open>
  That the worker gets its work done: a delivery that meets no fault and no other actor on its notification
  records exactly what the target's answer, the hook and the retry policy make of it.
\<close>

section \<open>Statements that find their row\<close>

lemma filter_this: "distinct xs \<Longrightarrow> x \<in> set xs \<Longrightarrow> filter (\<lambda>y. y = x) xs = [x]"
  by (induction xs) (auto simp: filter_empty_conv)

lemma sql_update_hit:
  assumes "distinct (map tk_id rows)" and "r \<in> set rows" and "P r" and "\<And>x. P x \<Longrightarrow> tk_id x = tk_id r"
    and "ok (f r)" and "f r \<noteq> r"
  shows "sql_update ok P f rows = Some (put (tk_id r) (\<lambda>_. f r) rows, 1)"
proof -
  have only: "P x \<longleftrightarrow> x = r" if "x \<in> set rows" for x
    using distinct_map_eqD [OF assms(1) that assms(2)] assms(3,4) by blast
  have "filter (\<lambda>x. P x \<and> f x \<noteq> x) rows = filter (\<lambda>x. x = r) rows"
    by (rule filter_cong [OF refl]) (use only assms(6) in blast)
  also have "\<dots> = [r]" by (rule filter_this [OF _ assms(2)]) (use assms(1) in \<open>simp add: distinct_map\<close>)
  finally have one: "length (filter (\<lambda>x. P x \<and> f x \<noteq> x) rows) = 1" by simp
  have key: "P x \<longleftrightarrow> tk_id x = tk_id r" if "x \<in> set rows" for x
    using only [OF that] distinct_map_eqD [OF assms(1) that assms(2)] by blast
  have "map (\<lambda>x. if P x then f x else x) rows = put (tk_id r) (\<lambda>_. f r) rows"
    unfolding put_def by (rule map_cong [OF refl]) (use key only in auto)
  moreover have "\<not> list_ex (\<lambda>x. P x \<and> \<not> ok (f x)) rows" using only assms(5) by (auto simp: list_ex_iff)
  ultimately show ?thesis using one by (simp add: sql_update_def)
qed

definition faultless :: "io \<Rightarrow> bool" where
  "faultless e \<longleftrightarrow> (\<forall>k. \<not> io_fails e k)"

lemma faultless_simps [simp]: "faultless e \<Longrightarrow> \<not> io_fails e k" "faultless e \<Longrightarrow> commit e k d r d' = (Inr r, d')"
  by (simp_all add: faultless_def commit_def)

lemma update_one_hit:
  assumes "faultless e" and "ids_distinct d" and "r \<in> set (tasks d)" and "P r" and "\<And>x. P x \<Longrightarrow> tk_id x = tk_id r"
    and "task_ok (f r)" and "f r \<noteq> r"
  shows "update_one e P f d = Inr (put (tk_id r) (\<lambda>_. f r) (tasks d))"
  using sql_update_hit [of "tasks d" r P task_ok f, OF _ assms(3-7)] assms(1,2) by (simp add: update_one_def ids_distinct_def)

text \<open>A claim of a waiting row that is due succeeds.\<close>

definition claimed_db :: "io \<Rightarrow> task \<Rightarrow> Notification \<Rightarrow> db \<Rightarrow> db" where
  "claimed_db e r n d = d\<lparr>tasks := put (tk_id r) (\<lambda>_. claim_set e r) (tasks d), attempts := attempts d @ [started_attempt e (tk_id r) n]\<rparr>"

lemma Claim_succeeds:
  assumes "faultless e" and wf: "wf_db d" and r: "r \<in> set (tasks d)" "claim_where e u g r"
    and "tk_attempts r + 1 < 2 ^ 32" "tk_gen r < 2 ^ 64" and q: "unmarshal_Request J (tk_request r) = Some q"
  shows "Claim J e u g d = (Inr (Notification_of (claim_set e r) q), claimed_db e r (Notification_of (claim_set e r) q) d)"
proof -
  have ids: "ids_distinct d" using wf by (simp add: ok_defs ids_distinct_def)
  have id: "tk_id r = u" using r(2) by (simp add: claim_where_def)
  have "tk_cycle r \<le> tk_attempts r" using wf r(1) by (simp add: ok_defs row_ok_def)
  then have "update_one e (claim_where e u g) (claim_set e) d = Inr (put u (\<lambda>_. claim_set e r) (tasks d))"
    using assms(1,5,6) ids r id
    by (subst update_one_hit [of e d r]) (auto simp: claim_where_def claim_set_def task_ok_def dest: arg_cong [of _ _ tk_status])
  moreover have "find (\<lambda>x. tk_id x = u) (put u (\<lambda>_. claim_set e r) (tasks d)) = Some (claim_set e r)"
    by (rule find_put [OF r(1) id]) (simp add: claim_set_def id)
  moreover have "\<not> list_ex (\<lambda>a. at_task a = u \<and> int (at_no a) = int (tk_attempts r + 1)) (attempts d)"
  proof -
    have "at_no ` {a \<in> set (attempts d). at_task a = tk_id r} = {1..tk_attempts r}" using wf r(1) by (simp add: ok_defs)
    then have "at_no a \<noteq> tk_attempts r + 1" if "a \<in> set (attempts d)" "at_task a = u" for a
      using that id by (auto dest!: arg_cong [of _ _ "\<lambda>S. at_no a \<in> S"])
    then show ?thesis unfolding list_ex_iff of_nat_eq_iff by blast
  qed
  ultimately show ?thesis
    using assms(1) q by (simp add: Claim_def scan_def claim_set_def Notification_of_def claimed_db_def id)
qed

text \<open>Settling what was claimed, under the lease.\<close>

lemma Finish_succeeds:
  assumes "faultless e" and "ids_distinct d" and r: "r \<in> set (tasks d)" "finish_where e n r"
    and "tk_attempts r < 2 ^ 32" "tk_cycle r < 2 ^ 32" "nGeneration n < 2 ^ 64 - 1"
    and codec: "marshal_headers J (dHeaders dec) = Some h" "\<And>ev. marshal_Event J ev \<noteq> None"
    and "io_ids e 0 \<notin> ob_event ` set (outbox d)"
  shows "\<exists>d'. Finish J e n dec nxt route d = (Inr (), d') \<and> tasks d' = put (tk_id r) (\<lambda>_. finish_set e n dec nxt r) (tasks d)
    \<and> attempts d' = map (\<lambda>a. if own_attempt n a then finish_attempt e dec h a else a) (attempts d)
    \<and> (finish_status dec = ''pending'' \<longrightarrow> (\<exists>w\<in>set (outbox d'). ob_task w = nID n \<and> ob_gen w = nGeneration n + 1
         \<and> ob_route w = route \<and> ob_status w = ''pending''))"
proof -
  have upd: "update_one e (finish_where e n) (finish_set e n dec nxt) d = Inr (put (tk_id r) (\<lambda>_. finish_set e n dec nxt r) (tasks d))"
  proof (rule update_one_hit [where P = "finish_where e n", OF assms(1,2) r])
    show "tk_id x = tk_id r" if "finish_where e n x" for x using that r(2) by (simp add: finish_where_def)
    show "finish_set e n dec nxt r \<noteq> r" using r(2) by (auto simp: finish_where_def finish_set_def dest: arg_cong [of _ _ tk_lease])
    show "task_ok (finish_set e n dec nxt r)"
      using assms(5-7) by (auto simp: finish_set_def task_ok_def finish_gen_def uint64_inc_small)
  qed
  show ?thesis
  proof (cases "finish_status dec = ''pending''")
    case True
    then have gen: "finish_gen n dec = nGeneration n + 1"
      using assms(7) by (auto simp: finish_status_def finish_gen_def uint64_inc_small split: if_splits)
    let ?d = "d\<lparr>tasks := put (tk_id r) (\<lambda>_. finish_set e n dec nxt r) (tasks d),
      attempts := map (\<lambda>a. if own_attempt n a then finish_attempt e dec h a else a) (attempts d)\<rparr>"
    from codec(2) obtain b where b: "marshal_Event J \<lparr>eSchema = 1, eID = io_ids e 0, eNotification = nID n,
        eGeneration = nGeneration n + 1, eType = ''dispatch'', eCreated = io_clock e 2\<rparr> = Some b" by auto
    have "\<not> list_ex (\<lambda>w. ob_event w = io_ids e 0) (outbox d)" using assms(10) by (force simp: list_ex_iff)
    with upd assms(1) codec(1) True gen b show ?thesis
      by (auto simp: Finish_def Let_def event_commit_def insertEvent_def list_ex_iff)
  next
    case False
    with upd assms(1) codec(1) show ?thesis by (simp add: Finish_def Let_def)
  qed
qed

section \<open>Through lock and gate\<close>

text \<open>The lock is not held by anyone else (or there is none), and the quota admits the delivery where it is asked.\<close>

definition admitted :: "deps \<Rightarrow> job_env \<Rightarrow> ID \<Rightarrow> Notification \<Rightarrow> Quota \<Rightarrow> wstate \<Rightarrow> bool" where
  "admitted D e u n quota st \<longleftrightarrow>
     (dpLock D \<longrightarrow> (case jvLock e of (fault, ms, fresh) \<Rightarrow> fst (Lock_Acquire fault ms fresh u (sLocks st)) \<noteq> Inr None))
     \<and> (dpGate D \<and> jvNow e 1 < nDeadline n \<longrightarrow>
          (case jvGate e of (fault, us, fresh) \<Rightarrow> \<exists>rel. fst (Acquire fault us fresh n quota (sQuota st)) = Inr (Some rel)))"

definition alone :: "job_env \<Rightarrow> bool" where
  "alone e \<longleftrightarrow> (\<forall>k st. jvMeanwhile e k st = st)"

lemma alone_simp [simp]: "alone e \<Longrightarrow> jvMeanwhile e k st = st"
  by (simp add: alone_def)

lemma under_lock_runs:
  assumes "alone e" and "admitted D e u n quota st" and "\<And>l. \<exists>st1. body (st\<lparr>sLocks := l\<rparr>) = (res, st1) \<and> Q st1"
    and "\<And>s l. Q s \<Longrightarrow> Q (s\<lparr>sLocks := l\<rparr>)"
  shows "\<exists>st'. under_lock D e u body st = (res, st') \<and> Q st'"
proof (cases "dpLock D")
  case False
  moreover have "st\<lparr>sLocks := sLocks st\<rparr> = st" by simp
  ultimately show ?thesis using assms(3) [of "sLocks st"] by (simp add: under_lock_def)
next
  case True
  obtain fault ms fresh where j: "jvLock e = (fault, ms, fresh)" by (rule prod_cases3)
  obtain a l where a: "Lock_Acquire fault ms fresh u (sLocks st) = (a, l)" by (rule prod.exhaust)
  from assms(3) [of l] obtain st1 where b: "body (st\<lparr>sLocks := l\<rparr>) = (res, st1)" "Q st1" by blast
  from assms(2) True j a have "a \<noteq> Inr None" by (simp add: admitted_def)
  with assms(1) True j a b assms(4) [OF b(2)] show ?thesis
    by (cases a) (auto simp: under_lock_def Let_def split: option.splits)
qed

lemma through_gate_runs:
  assumes "alone e" and "admitted D e u n (go_get zero_Quota (snQuotas latest) (tgQuota current)) (st\<lparr>sLocks := l\<rparr>)"
    and "\<And>qs. \<exists>st1. run_claimed D e u g t current None h (st\<lparr>sQuota := qs\<rparr>) = (res, st1) \<and> Q st1"
    and "\<And>s qs. Q s \<Longrightarrow> Q (s\<lparr>sQuota := qs\<rparr>)"
  shows "\<exists>st'. through_gate D e u g n t current None h latest st = (res, st') \<and> Q st'"
proof (cases "dpGate D \<and> jvNow e 1 < nDeadline n")
  case False
  moreover have "st\<lparr>sQuota := sQuota st\<rparr> = st" by simp
  ultimately show ?thesis using assms(1) assms(3) [of "sQuota st"] by (auto simp: through_gate_def Let_def)
next
  case True
  let ?quota = "go_get zero_Quota (snQuotas latest) (tgQuota current)"
  obtain fault us fresh where j: "jvGate e = (fault, us, fresh)" by (rule prod_cases3)
  from assms(2) True j obtain rel qs where a: "Acquire fault us fresh n ?quota (sQuota st) = (Inr (Some rel), qs)"
    by (auto simp: admitted_def prod_eq_iff)
  from assms(3) [of qs] obtain st1 where b: "run_claimed D e u g t current None h (st\<lparr>sQuota := qs\<rparr>) = (res, st1)" "Q st1" by blast
  from assms(1) True j a b assms(4) [OF b(2)] show ?thesis by (simp add: through_gate_def Let_def)
qed

text \<open>What a delivery decides depends on the manager and the transports alone.\<close>

lemma attempt_frame:
  assumes "attempt_delivery D e n t current pe h st = (d, secret, st')" and "sManager s = sManager st" "sTransports s = sTransports st"
  shows "\<exists>m. attempt_delivery D e n t current pe h s = (d, secret, s\<lparr>sTransports := m\<rparr>)"
proof -
  have "s\<lparr>sTransports := sTransports st\<rparr> = s" using assms(3) by simp
  with assms show ?thesis by (auto simp: attempt_delivery_def Let_def split: if_splits sum.splits prod.splits intro: exI [of _ "sTransports st"])
qed

section \<open>The whole delivery\<close>

text \<open>
  A waiting row that is due, a call that meets no fault and no other actor, and a store that keeps its
  counters in range and is asked to record the result before the lease is over.
\<close>

definition clear_job :: "job_env \<Rightarrow> task \<Rightarrow> db \<Rightarrow> bool" where
  "clear_job e r d \<longleftrightarrow> faultless (jvLoad e) \<and> faultless (jvClaim e) \<and> faultless (jvFinish e) \<and> alone e
     \<and> r \<in> set (tasks d) \<and> tk_status r = ''pending'' \<and> tk_next r \<le> jvNow e 0 \<and> tk_next r \<le> utc (jvClaim e) 0
     \<and> utc (jvFinish e) 0 < utc (jvClaim e) 0 + 60 * second
     \<and> tk_attempts r + 1 < 2 ^ 32 \<and> tk_gen r < 2 ^ 64 - 1 \<and> io_ids (jvFinish e) 0 \<notin> ob_event ` set (outbox d)"

text \<open>The decision is on record: in the row, in its attempt, in the counters, and with an event if the delivery is to be repeated.\<close>

definition booked :: "task \<Rightarrow> Decision \<Rightarrow> gotime \<Rightarrow> string \<Rightarrow> wstate \<Rightarrow> wstate \<Rightarrow> bool" where
  "booked r d nxt route st st' \<longleftrightarrow>
     (\<exists>r'. find (\<lambda>x. tk_id x = tk_id r) (tasks (sDb st')) = Some r' \<and> tk_status r' = finish_status d
        \<and> tk_gen r' = (if finish_status d = ''pending'' then tk_gen r + 1 else tk_gen r) \<and> tk_attempts r' = tk_attempts r + 1
        \<and> tk_lease r' = None \<and> tk_http r' = dHTTPStatus d \<and> tk_error r' = dReason d \<and> tk_request r' = tk_request r
        \<and> (\<not> IsZero nxt \<longrightarrow> tk_next r' = datetime6 nxt))
     \<and> (\<exists>a\<in>set (attempts (sDb st')). at_task a = tk_id r \<and> at_no a = tk_attempts r + 1 \<and> at_gen a = tk_gen r
          \<and> at_result a = dAction d \<and> at_http a = dHTTPStatus d \<and> at_finished a \<noteq> None)
     \<and> (finish_status d = ''pending'' \<longrightarrow> (\<exists>w\<in>set (outbox (sDb st')). ob_task w = tk_id r \<and> ob_gen w = tk_gen r + 1
          \<and> ob_route w = route \<and> ob_status w = ''pending''))
     \<and> sDelivered st' = (if finish_status d = ''delivered'' then uint64_inc (sDelivered st) else sDelivered st)
     \<and> sRetried st' = (if finish_status d = ''pending'' then uint64_inc (sRetried st) else sRetried st)
     \<and> sFailed st' = (if finish_status d = ''failed'' then uint64_inc (sFailed st) else sFailed st)"

lemma booked_frame:
  "booked r d nxt route st (s\<lparr>sLocks := l\<rparr>) \<longleftrightarrow> booked r d nxt route st s" "booked r d nxt route st (s\<lparr>sQuota := qs\<rparr>) \<longleftrightarrow> booked r d nxt route st s"
  "booked r d nxt route (st\<lparr>sManager := m, sLocks := l, sQuota := qs\<rparr>) s \<longleftrightarrow> booked r d nxt route st s"
  by (simp_all add: booked_def)

lemma run_claimed_settles:
  assumes wf: "wf_db (sDb st)" and clear: "clear_job e r (sDb st)" and q: "unmarshal_Request (dpCodec D) (tk_request r) = Some q"
    and codec: "\<And>hs. marshal_headers (dpCodec D) hs \<noteq> None" "\<And>ev. marshal_Event (dpCodec D) ev \<noteq> None"
    and n: "n = Notification_of (claim_set (jvClaim e) r) q"
    and att: "attempt_delivery D e n t current None h s0 = (d, secret, st2)" "sManager s0 = sManager st" "sTransports s0 = sTransports st"
    and plan: "plan_retry D e n t h (Redact (tkUnicode (dpTool D)) (dpLib D) d t secret) = ((nxt, route), d2)"
  shows "\<exists>st'. run_claimed D e (tk_id r) (tk_gen r) t current None h st = (None, st') \<and> booked r d2 nxt route st st'"
proof -
  let ?J = "dpCodec D" and ?r = "claim_set (jvClaim e) r" and ?db = "claimed_db (jvClaim e) r n (sDb st)"
  have c: "faultless (jvClaim e)" "faultless (jvFinish e)" "alone e" "r \<in> set (tasks (sDb st))"
    "claim_where (jvClaim e) (tk_id r) (tk_gen r) r" "tk_attempts r + 1 < 2 ^ 32" "tk_gen r < 2 ^ 64"
    "io_ids (jvFinish e) 0 \<notin> ob_event ` set (outbox ?db)"
    using clear by (simp_all add: clear_job_def claim_where_def claimed_db_def)
  have ids: "distinct (map tk_id (tasks (sDb st)))" and cycle: "tk_cycle r \<le> tk_attempts r"
    using wf c(4) by (auto simp: ok_defs row_ok_def)
  have claim: "Claim ?J (jvClaim e) (tk_id r) (tk_gen r) (sDb st) = (Inr n, ?db)"
    using Claim_succeeds [OF c(1) wf c(4,5,6,7) q] by (simp add: n)
  have tasks: "tasks ?db = put (tk_id r) (\<lambda>_. ?r) (tasks (sDb st))" by (simp add: claimed_db_def)
  have r': "?r \<in> set (tasks ?db)" unfolding tasks by (subst set_put [OF ids c(4)]) simp
  have fin_where: "finish_where (jvFinish e) n ?r"
    using clear by (simp add: finish_where_def n Notification_of_def claim_set_def clear_job_def)
  have nsel: "nID n = tk_id r" "nGeneration n = tk_gen r" "nAttempts n = int (tk_attempts r + 1)" "nLease n = io_ids (jvClaim e) 0"
    by (simp_all add: n Notification_of_def claim_set_def)
  obtain hd where hd: "marshal_headers ?J (dHeaders d2) = Some hd" using codec(1) by auto
  have "ids_distinct ?db" unfolding ids_distinct_def tasks by (simp add: claim_set_def ids)
  then obtain db' where fin: "Finish ?J (jvFinish e) n d2 nxt route ?db = (Inr (), db')"
    and db': "tasks db' = put (tk_id r) (\<lambda>_. finish_set (jvFinish e) n d2 nxt ?r) (tasks ?db)"
      "attempts db' = map (\<lambda>a. if own_attempt n a then finish_attempt (jvFinish e) d2 hd a else a) (attempts ?db)"
      "finish_status d2 = ''pending'' \<Longrightarrow> \<exists>w\<in>set (outbox db'). ob_task w = tk_id r \<and> ob_gen w = tk_gen r + 1 \<and> ob_route w = route \<and> ob_status w = ''pending''"
    using Finish_succeeds [OF c(2) _ r' fin_where _ _ _ hd codec(2) c(8), of nxt route] c(6) cycle clear
    by (auto simp: nsel clear_job_def claim_set_def)
  have row: "find (\<lambda>x. tk_id x = tk_id r) (tasks db') = Some (finish_set (jvFinish e) n d2 nxt ?r)"
    unfolding db'(1) by (rule find_put [OF r']) (simp_all add: finish_set_def claim_set_def)
  have "finish_attempt (jvFinish e) d2 hd (started_attempt (jvClaim e) (tk_id r) n) \<in> set (attempts db')"
    by (simp add: db'(2) claimed_db_def own_attempt_def started_attempt_def nsel)
  then have own: "\<exists>a\<in>set (attempts db'). at_task a = tk_id r \<and> at_no a = tk_attempts r + 1 \<and> at_gen a = tk_gen r
      \<and> at_result a = dAction d2 \<and> at_http a = dHTTPStatus d2 \<and> at_finished a \<noteq> None"
    by (rule bexI [rotated]) (simp add: finish_attempt_def started_attempt_def nsel nat_add_distrib)
  have gen: "finish_gen n d2 = (if finish_status d2 = ''pending'' then tk_gen r + 1 else tk_gen r)"
    using clear by (auto simp: finish_gen_def finish_status_def nsel clear_job_def uint64_inc_small)
  obtain m where m: "attempt_delivery D e n t current None h (st\<lparr>sDb := ?db\<rparr>) = (d, secret, st\<lparr>sDb := ?db, sTransports := m\<rparr>)"
    using attempt_frame [OF att(1), of "st\<lparr>sDb := ?db\<rparr>"] att(2,3) by auto
  let ?st = "count_result d2 (st\<lparr>sTransports := m, sDb := db'\<rparr>)"
  have "run_claimed D e (tk_id r) (tk_gen r) t current None h st = (None, ?st)"
    using c(3) claim m plan fin by (simp add: run_claimed_def settle_result_def Let_def)
  moreover have "booked r d2 nxt route st ?st"
    unfolding booked_def using row own gen db'(3)
    by (auto simp: count_result_def finish_set_def claim_set_def finish_status_def next_or_def)
  ultimately show ?thesis by blast
qed

lemma clear_load:
  assumes "wf_db d" and "clear_job e r d" and "unmarshal_Request J (tk_request r) = Some q"
  shows "Load J (jvLoad e) (tk_id r) d = Inr (Notification_of r q)"
proof -
  have r: "r \<in> set (tasks d)" and ids: "distinct (map tk_id (tasks d))" and ok: "faultless (jvLoad e)"
    using assms(1,2) by (auto simp: clear_job_def ok_defs)
  from r obtain x where x: "find (\<lambda>x. tk_id x = tk_id r) (tasks d) = Some x"
    by (cases "find (\<lambda>x. tk_id x = tk_id r) (tasks d)") (auto simp: find_None_iff)
  then have "x \<in> set (tasks d)" "tk_id x = tk_id r" by (auto simp: find_Some_iff)
  with distinct_map_eqD [OF ids _ r] x have "find (\<lambda>x. tk_id x = tk_id r) (tasks d) = Some r" by metis
  with ok assms(3) show ?thesis by (simp add: Load_def scan_def)
qed

text \<open>
  A worker that meets no fault records the decision it reaches, whatever that is: the row becomes delivered,
  failed, or waits again under the next generation with an event on the route the policy chose, the attempt
  is numbered and closed with the result, the counters agree, and the message is acknowledged.
\<close>

lemma Process_settles:
  assumes wf: "wf_db (sDb st)" and clear: "clear_job e r (sDb st)" and q: "unmarshal_Request (dpCodec D) (tk_request r) = Some q"
    and codec: "\<And>hs. marshal_headers (dpCodec D) hs \<noteq> None" "\<And>ev. marshal_Event (dpCodec D) ev \<noteq> None"
    and conf: "History (dpTool D) (jvControl e) (jvHistory e) (tk_config_rev r) (sManager st) = (Inr historical, m)"
      "map_of (snTargets historical) (tk_target r) = Some t" "mCurrent m = Some latest"
      "Allowed latest (tk_client r) (tk_target r) = (current, None)"
    and adm: "admitted D e (tk_id r) (Notification_of r q) (go_get zero_Quota (snQuotas latest) (tgQuota current)) st"
    and att: "attempt_delivery D e (Notification_of (claim_set (jvClaim e) r) q) t current None historical (st\<lparr>sManager := m\<rparr>) = (d, secret, st2)"
    and plan: "plan_retry D e (Notification_of (claim_set (jvClaim e) r) q) t historical (Redact (tkUnicode (dpTool D)) (dpLib D) d t secret) = ((nxt, route), d2)"
  shows "\<exists>st'. Worker.Process D e (tk_id r) (tk_gen r) st = (None, st') \<and> booked r d2 nxt route st st'"
proof -
  let ?n = "Notification_of r q" and ?st = "st\<lparr>sManager := m\<rparr>"
  have n: "nGeneration ?n = tk_gen r" "nStatus ?n = tk_status r" "nNext ?n = tk_next r" "nConfigRevision ?n = tk_config_rev r"
    "nTarget ?n = tk_target r" "nClient ?n = tk_client r" by (simp_all add: Notification_of_def)
  have al: "alone e" using clear by (simp add: clear_job_def)
  have run: "\<exists>st1. run_claimed D e (tk_id r) (tk_gen r) t current None historical (?st\<lparr>sLocks := l, sQuota := qs\<rparr>) = (None, st1)
      \<and> booked r d2 nxt route st st1" for l qs
    using run_claimed_settles [OF _ _ q codec refl att _ _ plan, of "?st\<lparr>sLocks := l, sQuota := qs\<rparr>"] wf clear
    by (simp add: booked_frame)
  have adm': "admitted D e (tk_id r) ?n (go_get zero_Quota (snQuotas latest) (tgQuota current)) ?st"
    using adm by (simp add: admitted_def)
  have gate: "\<exists>st1. through_gate D e (tk_id r) (tk_gen r) ?n t current None historical latest (?st\<lparr>sLocks := l\<rparr>) = (None, st1)
      \<and> booked r d2 nxt route st st1" for l
    by (rule through_gate_runs [where l = "sLocks st", OF al _ run]) (use adm in \<open>simp_all add: admitted_def booked_frame\<close>)
  have "\<exists>st'. under_lock D e (tk_id r) (through_gate D e (tk_id r) (tk_gen r) ?n t current None historical latest) ?st = (None, st')
      \<and> booked r d2 nxt route st st'"
    by (rule under_lock_runs [OF al adm']) (use gate in \<open>simp_all add: booked_frame\<close>)
  then show ?thesis
    using clear_load [OF wf clear q] clear al conf by (simp add: Process_def n Let_def) (auto simp: clear_job_def)
qed

lemma Redact_keeps: "dAction (Redact U L d t secret) = dAction d" "dHTTPStatus (Redact U L d t secret) = dHTTPStatus d"
  by (simp_all add: Redact_def Let_def)

text \<open>Without a hook for the target, the delivery proper is what its exchange gives.\<close>

lemma attempt_judged:
  assumes sec: "(if auType (tgAuth current) = ''static_header'' then Secret m (auSecretRef (tgAuth current)) else Inr []) = Inr secret"
    and "sManager st = m" and "jvNow e 3 < nDeadline n"
    and "Deliver (dpTool D) (dpLib D) (dpSha D) (dpKey D) (jvPick e) (jvBuildable e) (jvReqid e) (jvExchange e)
      (jvStarted e) (jvEnded e) n t current secret (sTransports st) = (d, m')"
    and "map_of (snTargets h) (nTarget n) = Some t" and "dpDecide D \<Longrightarrow> map_of (snPrograms h) (tgHook t) = None"
  shows "attempt_delivery D e n t current None h st = (d, secret, st\<lparr>sTransports := m'\<rparr>)"
proof -
  have "(if dpDecide D then Evaluate (dpLib D) (dpHookDecode D) (jvLate e) n h d else d) = d"
    using assms(5,6) by (simp add: Evaluate_def go_get_def)
  then show ?thesis unfolding attempt_delivery_def Let_def assms(2) sec using assms(3,4) by simp
qed

text \<open>
  C12: what the target accepted is delivered. In the same circumstances, with the deadline not passed, a
  request that can be prepared and a complete answer with a 2xx status within the target's limit, and no
  hook that judges otherwise, the notification ends as delivered, under its generation, after one more attempt.
\<close>

theorem Process_delivers:
  assumes wf: "wf_db (sDb st)" and clear: "clear_job e r (sDb st)" and q: "unmarshal_Request (dpCodec D) (tk_request r) = Some q"
    and codec: "\<And>hs. marshal_headers (dpCodec D) hs \<noteq> None" "\<And>ev. marshal_Event (dpCodec D) ev \<noteq> None"
    and conf: "History (dpTool D) (jvControl e) (jvHistory e) (tk_config_rev r) (sManager st) = (Inr historical, m)"
      "map_of (snTargets historical) (tk_target r) = Some t" "mCurrent m = Some latest"
      "Allowed latest (tk_client r) (tk_target r) = (current, None)"
    and adm: "admitted D e (tk_id r) (Notification_of r q) (go_get zero_Quota (snQuotas latest) (tgQuota current)) st"
    and sec: "(if auType (tgAuth current) = ''static_header'' then Secret m (auSecretRef (tgAuth current)) else Inr []) = Inr secret"
    and time: "jvNow e 3 < tk_deadline r"
    and req: "prepare (dpTool D) (dpLib D) (jvBuildable e) (jvReqid e) (Notification_of (claim_set (jvClaim e) r) q) t current secret = Inr req"
    and answer: "\<And>tr. jvExchange e tr req = Inr resp" "200 \<le> hrStatus resp" "hrStatus resp < 300" "hrBreaks resp = None"
      "int (length (hrBody resp)) \<le> epMaxResponse (tgEndpoint t)"
    and hook: "dpDecide D \<Longrightarrow> map_of (snPrograms historical) (tgHook t) = None"
  shows "\<exists>st'. Worker.Process D e (tk_id r) (tk_gen r) st = (None, st')
    \<and> (\<exists>r'. find (\<lambda>x. tk_id x = tk_id r) (tasks (sDb st')) = Some r' \<and> tk_status r' = ''delivered'' \<and> tk_gen r' = tk_gen r
         \<and> tk_attempts r' = tk_attempts r + 1 \<and> tk_http r' = hrStatus resp)
    \<and> sDelivered st' = uint64_inc (sDelivered st)"
proof -
  let ?n = "Notification_of (claim_set (jvClaim e) r) q"
  have n: "nDeadline ?n = tk_deadline r" "nTarget ?n = tk_target r" by (simp_all add: Notification_of_def claim_set_def)
  have "take (nat (epMaxResponse (tgEndpoint t) + 1)) (hrBody resp) = hrBody resp" using answer(5) by simp
  then have out: "\<exists>d1. outcome (dpSha D) t (Inr resp) d0 = d1 \<and> dAction d1 = ''success'' \<and> dHTTPStatus d1 = hrStatus resp" for d0
    using answer by (simp add: outcome_def Let_def status_action_def)
  have "\<exists>d1 m'. Deliver (dpTool D) (dpLib D) (dpSha D) (dpKey D) (jvPick e) (jvBuildable e) (jvReqid e) (jvExchange e)
      (jvStarted e) (jvEnded e) ?n t current secret (sTransports st) = (d1, m') \<and> dAction d1 = ''success'' \<and> dHTTPStatus d1 = hrStatus resp"
    using req out answer(1) by (simp add: Deliver_def Let_def split: prod.splits)
  then obtain d1 m' where d1: "Deliver (dpTool D) (dpLib D) (dpSha D) (dpKey D) (jvPick e) (jvBuildable e) (jvReqid e) (jvExchange e)
      (jvStarted e) (jvEnded e) ?n t current secret (sTransports st) = (d1, m')" "dAction d1 = ''success''" "dHTTPStatus d1 = hrStatus resp"
    by blast
  have att: "attempt_delivery D e ?n t current None historical (st\<lparr>sManager := m\<rparr>) = (d1, secret, st\<lparr>sManager := m, sTransports := m'\<rparr>)"
    by (rule attempt_judged [OF sec _ _ _ _ hook]) (use time d1(1) conf(2) n in simp_all)
  let ?d = "Redact (tkUnicode (dpTool D)) (dpLib D) d1 t secret"
  have plan: "plan_retry D e ?n t historical ?d = ((0, ''dispatch''), ?d)" using d1(2) by (simp add: plan_retry_def Redact_keeps)
  have "finish_status ?d = ''delivered''" "dHTTPStatus ?d = hrStatus resp" using d1(2,3) by (simp_all add: finish_status_def Redact_keeps)
  with Process_settles [OF wf clear q codec conf adm att plan] show ?thesis by (auto simp: booked_def)
qed

text \<open>
  C13: what the target could not take is tried again. In the same circumstances, if the exchange ends in a
  way that is worth a repetition (a network error, or a complete answer with status 408, 429 or 5xx) and
  the retry policy grants it, the notification waits for the granted time under the next generation, and
  the event that will trigger it is written in the same transaction.
\<close>

theorem Process_repeats:
  assumes wf: "wf_db (sDb st)" and clear: "clear_job e r (sDb st)" and q: "unmarshal_Request (dpCodec D) (tk_request r) = Some q"
    and codec: "\<And>hs. marshal_headers (dpCodec D) hs \<noteq> None" "\<And>ev. marshal_Event (dpCodec D) ev \<noteq> None"
    and conf: "History (dpTool D) (jvControl e) (jvHistory e) (tk_config_rev r) (sManager st) = (Inr historical, m)"
      "map_of (snTargets historical) (tk_target r) = Some t" "mCurrent m = Some latest"
      "Allowed latest (tk_client r) (tk_target r) = (current, None)"
    and adm: "admitted D e (tk_id r) (Notification_of r q) (go_get zero_Quota (snQuotas latest) (tgQuota current)) st"
    and n: "n = Notification_of (claim_set (jvClaim e) r) q"
    and sec: "(if auType (tgAuth current) = ''static_header'' then Secret m (auSecretRef (tgAuth current)) else Inr []) = Inr secret"
    and time: "jvNow e 3 < tk_deadline r"
    and del: "Deliver (dpTool D) (dpLib D) (dpSha D) (dpKey D) (jvPick e) (jvBuildable e) (jvReqid e) (jvExchange e)
      (jvStarted e) (jvEnded e) n t current secret (sTransports st) = (d, m')" "dAction d = ''retry''"
    and hook: "dpDecide D \<Longrightarrow> map_of (snPrograms historical) (tgHook t) = None"
    and grant: "dpSchedule D" "Schedule (tkUnicode (dpTool D)) (dpParseTime D) (jvNow e 4) n t
      (go_get zero_Retry (snRetries historical) (tgRetryPolicy t)) (Redact (tkUnicode (dpTool D)) (dpLib D) d t secret) = ((nxt, route), d2)"
      "dAction d2 = ''retry''" "\<not> IsZero nxt"
  shows "\<exists>st'. Worker.Process D e (tk_id r) (tk_gen r) st = (None, st')
    \<and> (\<exists>r'. find (\<lambda>x. tk_id x = tk_id r) (tasks (sDb st')) = Some r' \<and> tk_status r' = ''pending'' \<and> tk_gen r' = tk_gen r + 1
         \<and> tk_attempts r' = tk_attempts r + 1 \<and> tk_next r' = datetime6 nxt)
    \<and> (\<exists>w\<in>set (outbox (sDb st')). ob_task w = tk_id r \<and> ob_gen w = tk_gen r + 1 \<and> ob_route w = route \<and> ob_status w = ''pending'')
    \<and> sRetried st' = uint64_inc (sRetried st)"
proof -
  have ns: "nDeadline n = tk_deadline r" "nTarget n = tk_target r" by (simp_all add: n Notification_of_def claim_set_def)
  have att: "attempt_delivery D e n t current None historical (st\<lparr>sManager := m\<rparr>) = (d, secret, st\<lparr>sManager := m, sTransports := m'\<rparr>)"
    by (rule attempt_judged [OF sec _ _ _ _ hook]) (use time del(1) conf(2) ns in simp_all)
  have plan: "plan_retry D e n t historical (Redact (tkUnicode (dpTool D)) (dpLib D) d t secret) = ((nxt, route), d2)"
    using del(2) grant(1,2) by (simp add: plan_retry_def Redact_keeps)
  have "finish_status d2 = ''pending''" using grant(3) by (simp add: finish_status_def)
  with Process_settles [OF wf clear q codec conf adm att [unfolded n] plan [unfolded n]] grant(4) show ?thesis
    by (auto simp: booked_def)
qed

section \<open>Examples\<close>

definition ex_row :: task where
  "ex_row = task_of ex_pending ''r''"

definition ex_answering :: "int \<Rightarrow> job_env" where
  "ex_answering status = ex_jobs\<lparr>jvExchange := (\<lambda>tr req. Inr \<lparr>hrStatus = status, hrHeader = (\<lambda>_. []), hrBody = [], hrBreaks = None\<rparr>)\<rparr>"

lemma ex_row_sel: "tk_config_rev ex_row = 1" "tk_target ex_row = ''t''" "tk_client ex_row = ''c''" "tk_deadline ex_row = 100 * hour"
  "tk_id ex_row = nID ex_note" "tk_gen ex_row = 1" "tk_attempts ex_row = 0" "tk_status ex_row = ''pending''" "tk_next ex_row = second"
  "tasks ex_db1 = [ex_row]" "map ob_event (outbox ex_db1) = [replicate 16 1]"
  by (simp_all add: ex_row_def task_of_def ex_store_defs ex_note_def datetime6_def go_simps)

lemma ex_row_claimed: "Notification_of (claim_set (jvClaim (ex_answering k)) ex_row) ex_request = ex_claimed"
  by (simp add: ex_answering_def ex_jobs_def ex_claimed_def ex_row_def)

lemma ex_clear: "clear_job (ex_answering k) ex_row (sDb ex_wstate)"
proof -
  have "ob_event ` set (outbox ex_db1) = {replicate 16 1}" using ex_row_sel(11) by (metis list.set(1,2) set_map)
  then show ?thesis
    by (simp add: clear_job_def ex_answering_def ex_jobs_def faultless_def alone_def ex_wstate_def ex_row_sel ex_io_def utc_def
        datetime6_def go_simps)
qed

lemma ex_admitted:
  "admitted ex_deps (ex_answering k) (tk_id ex_row) n (go_get zero_Quota (snQuotas ex_live_snap) (tgQuota ex_open_target)) ex_wstate"
proof -
  have "go_get zero_Quota (snQuotas ex_live_snap) (tgQuota ex_open_target) = zero_Quota\<lparr>qFailMode := ''closed''\<rparr>" by code_simp
  moreover have "fst (Lock_Acquire None 0 (replicate 16 4) u (\<lambda>_. None)) \<noteq> Inr None" for u
    by (simp add: Lock_Acquire_def SetNX_def lock_at_def Let_def)
  moreover obtain rel qs where "Acquire None 0 (replicate 16 5) n (zero_Quota\<lparr>qFailMode := ''closed''\<rparr>) (New 2 2, ex_redis) = (Inr (Some rel), qs)"
    using ex_gate by blast
  ultimately show ?thesis by (simp add: admitted_def ex_answering_def ex_jobs_def ex_wstate_def)
qed

lemma ex_configured:
  "wf_db (sDb ex_wstate)" "unmarshal_Request (dpCodec ex_deps) (tk_request ex_row) = Some ex_request"
  "marshal_headers (dpCodec ex_deps) hs \<noteq> None" "marshal_Event (dpCodec ex_deps) ev \<noteq> None"
  "History (dpTool ex_deps) (jvControl (ex_answering k)) (jvHistory (ex_answering k)) (tk_config_rev ex_row) (sManager ex_wstate) = (Inr ex_live_snap, sManager ex_wstate)"
  "map_of (snTargets ex_live_snap) (tk_target ex_row) = Some ex_open_target" "mCurrent (sManager ex_wstate) = Some ex_live_snap"
  "Allowed ex_live_snap (tk_client ex_row) (tk_target ex_row) = (ex_open_target, None)"
  "(if auType (tgAuth ex_open_target) = ''static_header'' then Secret (sManager ex_wstate) (auSecretRef (tgAuth ex_open_target)) else Inr []) = Inr []"
  "jvNow (ex_answering k) 3 < tk_deadline ex_row" "dpDecide ex_deps \<Longrightarrow> map_of (snPrograms ex_live_snap) (tgHook ex_open_target) = None"
proof -
  have "Allowed ex_live_snap ''c'' ''t'' = (ex_open_target, None)" by code_simp
  then show "Allowed ex_live_snap (tk_client ex_row) (tk_target ex_row) = (ex_open_target, None)" by (simp add: ex_row_sel)
  show "wf_db (sDb ex_wstate)" using runs_good [OF ex_runs1] by (simp add: good_def ex_wstate_def)
qed (simp_all add: ex_deps_def ex_codec_def History_def history_lookup_def ex_wstate_def ex_live_snap_def ex_row_sel ex_open_target_def
    ex_tool_target_def ex_answering_def ex_jobs_def ex_snap_def go_simps)

lemma ex_prepared:
  "\<exists>req. prepare (dpTool ex_deps) (dpLib ex_deps) (jvBuildable (ex_answering k)) (jvReqid (ex_answering k)) ex_claimed ex_open_target ex_open_target [] = Inr req"
  by (simp add: prepare_def ex_path_ok ex_header_keys header_set_def ex_claimed_def Notification_of_def claim_set_def task_of_def
      ex_pending_def ex_note_def ex_request_def ex_open_target_def ex_tool_target_def ex_tool_def ex_url_def body_bytes_def
      zero_Target_def PathAllowed_def ex_deps_def ex_answering_def ex_jobs_def)

theorem Process_delivers_witness:
  "\<exists>st' r'. Worker.Process ex_deps (ex_answering 201) (tk_id ex_row) (tk_gen ex_row) ex_wstate = (None, st')
     \<and> find (\<lambda>x. tk_id x = tk_id ex_row) (tasks (sDb st')) = Some r' \<and> tk_status r' = ''delivered'' \<and> tk_http r' = 201"
proof -
  obtain req where req: "prepare (dpTool ex_deps) (dpLib ex_deps) (jvBuildable (ex_answering 201)) (jvReqid (ex_answering 201))
      (Notification_of (claim_set (jvClaim (ex_answering 201)) ex_row) ex_request) ex_open_target ex_open_target [] = Inr req"
    using ex_prepared ex_row_claimed by auto
  have "\<exists>st'. Worker.Process ex_deps (ex_answering 201) (tk_id ex_row) (tk_gen ex_row) ex_wstate = (None, st')
    \<and> (\<exists>r'. find (\<lambda>x. tk_id x = tk_id ex_row) (tasks (sDb st')) = Some r' \<and> tk_status r' = ''delivered'' \<and> tk_gen r' = tk_gen ex_row
         \<and> tk_attempts r' = tk_attempts ex_row + 1
         \<and> tk_http r' = hrStatus \<lparr>hrStatus = 201, hrHeader = (\<lambda>_. []), hrBody = [], hrBreaks = None\<rparr>)
    \<and> sDelivered st' = uint64_inc (sDelivered ex_wstate)"
    by (rule Process_delivers [OF ex_configured(1) ex_clear ex_configured(2-8) ex_admitted ex_configured(9,10) req _ _ _ _ _ ex_configured(11)])
      (simp_all add: ex_answering_def ex_open_target_def ex_tool_target_def)
  then show ?thesis by auto
qed

definition ex_unavailable :: Decision where
  "ex_unavailable = zero_Decision\<lparr>dAction := ''retry'', dReason := ''http_503'', dHTTPStatus := 503, dBodyHash := replicate 32 3,
     dStarted := 10 * second, dLatency := second\<rparr>"

lemma ex_refused:
  "\<exists>m'. Deliver (dpTool ex_deps) (dpLib ex_deps) (dpSha ex_deps) (dpKey ex_deps) (jvPick (ex_answering 503)) (jvBuildable (ex_answering 503))
     (jvReqid (ex_answering 503)) (jvExchange (ex_answering 503)) (jvStarted (ex_answering 503)) (jvEnded (ex_answering 503))
     ex_claimed ex_open_target ex_open_target [] (sTransports ex_wstate) = (ex_unavailable, m')"
proof -
  obtain req where req: "prepare (dpTool ex_deps) (dpLib ex_deps) (jvBuildable (ex_answering 503)) (jvReqid (ex_answering 503))
      ex_claimed ex_open_target ex_open_target [] = Inr req" using ex_prepared by blast
  have "Itoa 503 = ''503''" "time_sub (11 * second) (10 * second) = second" by code_simp+
  moreover have "epMaxResponse (tgEndpoint ex_open_target) = 1000" by (simp add: ex_open_target_def ex_tool_target_def)
  moreover have "jvExchange (ex_answering 503) = (\<lambda>tr req. Inr \<lparr>hrStatus = 503, hrHeader = (\<lambda>_. []), hrBody = [], hrBreaks = None\<rparr>)"
    "jvStarted (ex_answering 503) = 10 * second" "jvEnded (ex_answering 503) = 11 * second" "dpSha ex_deps = (\<lambda>_. replicate 32 3)"
    by (simp_all add: ex_answering_def ex_jobs_def ex_deps_def)
  ultimately show ?thesis
    using req by (simp add: Deliver_def Let_def outcome_def status_action_def ex_unavailable_def zero_Decision_def split: prod.splits)
qed

theorem Process_repeats_witness:
  "\<exists>st' r'. Worker.Process ex_deps (ex_answering 503) (tk_id ex_row) (tk_gen ex_row) ex_wstate = (None, st')
     \<and> find (\<lambda>x. tk_id x = tk_id ex_row) (tasks (sDb st')) = Some r' \<and> tk_status r' = ''pending'' \<and> tk_gen r' = 2
     \<and> tk_next r' = datetime6 (15 * second)"
proof -
  obtain m' where del: "Deliver (dpTool ex_deps) (dpLib ex_deps) (dpSha ex_deps) (dpKey ex_deps) (jvPick (ex_answering 503)) (jvBuildable (ex_answering 503))
     (jvReqid (ex_answering 503)) (jvExchange (ex_answering 503)) (jvStarted (ex_answering 503)) (jvEnded (ex_answering 503))
     ex_claimed ex_open_target ex_open_target [] (sTransports ex_wstate) = (ex_unavailable, m')" using ex_refused by blast
  have red: "Redact (tkUnicode (dpTool ex_deps)) (dpLib ex_deps) ex_unavailable ex_open_target [] = ex_unavailable"
    by (simp add: Redact_def ex_unavailable_def ex_json_lib_def zero_Decision_def Let_def ex_deps_def)
  have n: "nCycleAttempts ex_claimed = 1" "nDeadline ex_claimed = 100 * hour"
    by (simp_all add: ex_claimed_def Notification_of_def claim_set_def task_of_def ex_pending_def ex_note_def datetime6_def go_simps)
  have pol: "go_get zero_Retry (snRetries ex_live_snap) (tgRetryPolicy ex_open_target) =
      \<lparr>rtRevision = 1, rtDelays = [5 * second, 30 * second], rtMaxDuration = hour, rtRespectRetryAfter = True\<rparr>" by code_simp
  have sch: "Schedule (tkUnicode (dpTool ex_deps)) (dpParseTime ex_deps) (jvNow (ex_answering 503) 4) ex_claimed ex_open_target
      (go_get zero_Retry (snRetries ex_live_snap) (tgRetryPolicy ex_open_target)) ex_unavailable = ((15 * second, BucketRoute (5 * second)), ex_unavailable)"
    unfolding pol
    by (simp add: Schedule_def n ex_open_target_def ex_tool_target_def ex_unavailable_def zero_Decision_def retry_after_def
        ex_answering_def ex_jobs_def Buckets_def Let_def go_simps)
  have sch': "Schedule (tkUnicode (dpTool ex_deps)) (dpParseTime ex_deps) (jvNow (ex_answering 503) 4) ex_claimed ex_open_target
      (go_get zero_Retry (snRetries ex_live_snap) (tgRetryPolicy ex_open_target))
      (Redact (tkUnicode (dpTool ex_deps)) (dpLib ex_deps) ex_unavailable ex_open_target []) = ((15 * second, BucketRoute (5 * second)), ex_unavailable)"
    unfolding red by (rule sch)
  have "\<exists>st'. Worker.Process ex_deps (ex_answering 503) (tk_id ex_row) (tk_gen ex_row) ex_wstate = (None, st')
    \<and> (\<exists>r'. find (\<lambda>x. tk_id x = tk_id ex_row) (tasks (sDb st')) = Some r' \<and> tk_status r' = ''pending'' \<and> tk_gen r' = tk_gen ex_row + 1
         \<and> tk_attempts r' = tk_attempts ex_row + 1 \<and> tk_next r' = datetime6 (15 * second))
    \<and> (\<exists>w\<in>set (outbox (sDb st')). ob_task w = tk_id ex_row \<and> ob_gen w = tk_gen ex_row + 1 \<and> ob_route w = BucketRoute (5 * second) \<and> ob_status w = ''pending'')
    \<and> sRetried st' = uint64_inc (sRetried ex_wstate)"
    by (rule Process_repeats [OF ex_configured(1) ex_clear ex_configured(2-8) ex_admitted ex_row_claimed [symmetric] ex_configured(9,10)
        del _ ex_configured(11) _ sch'])
      (simp_all add: ex_unavailable_def ex_deps_def IsZero_def go_simps)
  then show ?thesis by (auto simp: ex_row_sel)
qed

end
