(* ===== verification/Node.thy ===== *)
theory Node
  imports ApiProps Recovery Dispatch Health Admin Shutdown Watch Duration Support Mock Progress
begin

text \<open>
  The process \<^verbatim>\<open>cmd/notifier\<close>: how it starts, how its parts are wired together, and that the parts,
  whichever of them run and in whatever order, keep the guarantees of the store.
\<close>

section \<open>State\<close>

text \<open>The state of the HTTP interface, and what the other goroutines of the process keep.\<close>

record node = world +
  ndLocks :: locks
  ndTransports :: "(string \<times> transport) list"
  ndDelivered :: nat
  ndFailed :: nat
  ndRetried :: nat
  ndMQ :: mq_client
  ndRecovered :: nat
  ndReconciled :: nat

definition worker_view :: "node \<Rightarrow> wstate" where
  "worker_view nd = \<lparr>sDb = wDb nd, sManager = wManager nd, sQuota = wQuota nd, sLocks = ndLocks nd,
     sTransports = ndTransports nd, sDelivered = ndDelivered nd, sFailed = ndFailed nd, sRetried = ndRetried nd\<rparr>"

definition worker_put :: "wstate \<Rightarrow> node \<Rightarrow> node" where
  "worker_put st nd = nd\<lparr>wDb := sDb st, wManager := sManager st, wQuota := sQuota st, ndLocks := sLocks st,
     ndTransports := sTransports st, ndDelivered := sDelivered st, ndFailed := sFailed st, ndRetried := sRetried st\<rparr>"

definition loop_view :: "node \<Rightarrow> loop_state" where
  "loop_view nd = \<lparr>rDb = wDb nd, rManager = wManager nd, rRecovered = ndRecovered nd, rReconciled = ndReconciled nd\<rparr>"

definition loop_put :: "loop_state \<Rightarrow> node \<Rightarrow> node" where
  "loop_put st nd = nd\<lparr>wDb := rDb st, wManager := rManager st, ndRecovered := rRecovered st, ndReconciled := rReconciled st\<rparr>"

section \<open>Starting\<close>

text \<open>
  What a start meets: the host, the decoder of the process file, the drivers, and which of the dependencies
  answer; and the clients of databases and Redis it makes.
\<close>

record boot_env =
  bvHost :: host
  bvDecode :: "Process \<Rightarrow> string \<Rightarrow> (Process \<times> string) option"
  bvMysql :: "unit mysql"
  bvRedisURL :: "string \<Rightarrow> redis_options option"
  bvDigest :: "(string \<times> string) list \<Rightarrow> byte list option"
  bvPing :: bool
  bvControl :: control_db
  bvRevision :: bool
  bvHistory :: history_env
  bvDb :: db
  bvRedis :: redis
  bvLocks :: locks

record connections =
  rsBusiness :: "unit pool"
  rsControl :: "unit pool"
  rsRedis :: redis_options

definition config_path :: "host \<Rightarrow> string" where
  "config_path h = (if hGetenv h ''NOTIFIER_CONFIG'' = [] then ''configs/notifier.example.json'' else hGetenv h ''NOTIFIER_CONFIG'')"

definition boot :: "toolkit \<Rightarrow> boot_env \<Rightarrow> error + Process \<times> connections \<times> node" where
  "boot K e =
     (case LoadProcess (bvDecode e) (bvHost e) (config_path (bvHost e)) of
        Inl x \<Rightarrow> Inl x
      | Inr p \<Rightarrow>
          case Open (bvMysql e) (pBusinessDSN p) (pDBMaxOpen p) of
            Inl _ \<Rightarrow> Inl (fails ''invalid business database configuration'')
          | Inr bdb \<Rightarrow>
          case Open (bvMysql e) (pControlDSN p) (max 4 (pDBMaxOpen p div 4)) of
            Inl _ \<Rightarrow> Inl (fails ''invalid control database configuration'')
          | Inr cdb \<Rightarrow>
          case bvRedisURL e (pRedisURL p) of
            None \<Rightarrow> Inl (fails ''invalid Redis URL'')
          | Some opts \<Rightarrow>
          case LoadSecrets (tkUnicode K) (bvDigest e) (bvHost e) (pSecrets p) NewManager of
            (Inl x, _) \<Rightarrow> Inl x
          | (Inr _, m) \<Rightarrow>
              if \<not> bvPing e then Inl (fails ''initial database/configuration load failed'')
              else (case Reload K (bvControl e) (bvRevision e) (bvHistory e) m of
                      (Inl _, _) \<Rightarrow> Inl (fails ''initial database/configuration load failed'')
                    | (Inr _, m') \<Rightarrow>
                        Inr (p, \<lparr>rsBusiness = bdb, rsControl = cdb, rsRedis = redis_setup opts\<rparr>,
                             \<lparr>wDb = bvDb e, wQuota = (New (pWorkers p) (pTargetConcurrency p), bvRedis e),
                              wManager = m', wAccepted = 0, ndLocks = bvLocks e, ndTransports = [], ndDelivered = 0,
                              ndFailed = 0, ndRetried = 0,
                              ndMQ = \<lparr>cConn = None, cObserved = None, cClosed = False, cPublishFailures = 0,
                                      cConsumeFailures = 0, cActive = 0\<rparr>,
                              ndRecovered = 0, ndReconciled = 0\<rparr>)))"

section \<open>Wiring\<close>

definition proxy :: "deps \<Rightarrow> job_env \<Rightarrow> ID \<Rightarrow> nat \<Rightarrow> node \<Rightarrow> error option \<times> node" where
  "proxy D j u g nd = (case Process D j u g (worker_view nd) of (res, st) \<Rightarrow> (res, worker_put st nd))"

text \<open>The service of one request: the worker's \<^verbatim>\<open>Process\<close> as proxy, the service's own \<^verbatim>\<open>Retry\<close>.\<close>

record retry_env =
  yvControl :: control_db
  yvHistory :: history_env
  yvGet :: io
  yvMeanwhile :: "db \<Rightarrow> db"
  yvRetry :: io
  yvQuota :: "(bool option \<times> int) option"

definition wired :: "deps \<Rightarrow> job_env \<Rightarrow> retry_env \<Rightarrow> node server \<Rightarrow> node server" where
  "wired D j y S = S\<lparr>axCodec := dpCodec D, axTool := dpTool D, axSha := dpSha D, axProxy := Some (proxy D j),
     axManualRetry := Some (Retry_Service (dpTool D) (dpCodec D) (yvControl y) (yvHistory y) (yvGet y) (yvMeanwhile y) (yvRetry y) (yvQuota y))\<rparr>"

definition connect_tick :: "mq_env \<Rightarrow> bool \<Rightarrow> mq_client \<Rightarrow> mq_client" where
  "connect_tick e shut c = (if \<not> Ready e c then snd (Ensure e shut c) else c)"

text \<open>
  One activity of the process from its beginning to its end, with at most \<open>N\<close> store calls of anyone else
  between two of its own steps; a role must be configured for an activity to exist.
\<close>

inductive node_step :: "deps \<Rightarrow> Process \<Rightarrow> nat \<Rightarrow> node \<Rightarrow> node \<Rightarrow> bool" for D p N where
  serve: "''api'' \<in> set (pRoles p) \<Longrightarrow> others_ok (dpCodec D) N j \<Longrightarrow>
    (\<And>k w. db_path (dpCodec D) N (wDb w) (wDb (evBetween e k w))) \<Longrightarrow>
    (\<And>k d. db_path (dpCodec D) N d (vMeanwhile (evAccept e k) d)) \<Longrightarrow> (\<And>d. db_path (dpCodec D) N d (yvMeanwhile y d)) \<Longrightarrow>
    Handler (wired D j y S) e r nd = (resp, nd') \<Longrightarrow> node_step D p N nd nd'"
| consume: "''worker'' \<in> set (pRoles p) \<Longrightarrow> others_ok (dpCodec D) N j \<Longrightarrow>
    consume_message (dpCodec D) (Process D j) body (ndMQ nd, worker_view nd) = (a, c, st) \<Longrightarrow>
    node_step D p N nd ((worker_put st nd)\<lparr>ndMQ := c\<rparr>)"
| dispatch: "''outbox'' \<in> set (pRoles p) \<Longrightarrow> (\<And>d. db_path (dpCodec D) N d (xvMeanwhile e d)) \<Longrightarrow>
    dispatch_once (dpCodec D) e (wDb nd, ndMQ nd) = (res, d, c) \<Longrightarrow> node_step D p N nd (nd\<lparr>wDb := d, ndMQ := c\<rparr>)"
| recover: "''recovery'' \<in> set (pRoles p) \<Longrightarrow> loop_others_ok (rdCodec R) N e \<Longrightarrow> rdCodec R = dpCodec D \<Longrightarrow>
    recovery_step R e (loop_view nd) = (res, st) \<Longrightarrow> node_step D p N nd (loop_put st nd)"
| connect: "''worker'' \<in> set (pRoles p) \<or> ''outbox'' \<in> set (pRoles p) \<Longrightarrow>
    node_step D p N nd (nd\<lparr>ndMQ := connect_tick e shut (ndMQ nd)\<rparr>)"
| watch: "node_step D p N nd (nd\<lparr>wManager := dbTick (dpTool D) c failed v (wManager nd)\<rparr>)"
| files: "node_step D p N nd (nd\<lparr>wManager := reloadFiles (tkUnicode (dpTool D)) digest dec h path (wManager nd)\<rparr>)"
| idle: "db_path (dpCodec D) N (wDb nd) d \<Longrightarrow> node_step D p N nd (nd\<lparr>wDb := d\<rparr>)"

section \<open>Statistics\<close>

text \<open>
  One turn of the statistics loop: the two queries may fail, then the numbers they would give are zero and a
  warning is reported; the counters and the revision in force are reported in any case.
\<close>

record stats_line =
  slWarned :: bool
  slBacklog :: backlog
  slCounters :: "(string \<times> nat) list"
  slRevision :: nat

definition stats_turn :: "bool \<Rightarrow> bool \<Rightarrow> gotime \<Rightarrow> node \<Rightarrow> stats_line" where
  "stats_turn first_fails second_fails now nd =
     (let b = Stats now (wDb nd) in
      \<lparr>slWarned = (first_fails \<or> second_fails),
       slBacklog = (if first_fails then \<lparr>bkPending = 0, bkInFlight = 0, bkAge = 0, bkOutbox = 0\<rparr>
                    else if second_fails then b\<lparr>bkOutbox := 0\<rparr> else b),
       slCounters =
         [(''accepted_total'', wAccepted nd), (''delivered_total'', ndDelivered nd), (''failed_total'', ndFailed nd),
          (''retry_scheduled_total'', ndRetried nd), (''mq_publish_failed_total'', cPublishFailures (ndMQ nd)),
          (''mq_consume_failed_total'', cConsumeFailures (ndMQ nd)), (''lease_recovered_total'', ndRecovered nd),
          (''quota_rejected_total'', lRejected (fst (wQuota nd))), (''config_reload_total'', mReloads (wManager nd)),
          (''config_reload_failed_total'', mFailures (wManager nd))],
       slRevision = (case mCurrent (wManager nd) of None \<Rightarrow> 0 | Some s \<Rightarrow> snRevision s)\<rparr>)"

text \<open>The reports of a run: one per tick, until the context is done.\<close>

fun stats_loop :: "(bool \<times> bool \<times> bool \<times> gotime) list \<Rightarrow> (nat \<Rightarrow> node) \<Rightarrow> stats_line list" where
  "stats_loop [] nds = []"
| "stats_loop ((stopped, f1, f2, now) # ts) nds =
     (if stopped then [] else stats_turn f1 f2 now (nds 0) # stats_loop ts (\<lambda>k. nds (k + 1)))"

section \<open>A start that succeeds\<close>

lemma LoadProcess_ok:
  assumes "LoadProcess dec h path = Inr p"
  shows "pRoles p \<noteq> [] \<and> distinct (pRoles p) \<and> set (pRoles p) \<subseteq> {''api'', ''worker'', ''outbox'', ''recovery''}
    \<and> 1 \<le> pWorkers p \<and> pWorkers p \<le> 1024 \<and> 1 \<le> pTargetConcurrency p \<and> 2 \<le> pDBMaxOpen p
    \<and> (''worker'' \<in> set (pRoles p) \<or> ''outbox'' \<in> set (pRoles p) \<longrightarrow> pAMQPURL p \<noteq> [])"
proof -
  have roles: "roles_ok seen rs \<Longrightarrow> distinct rs \<and> set rs \<subseteq> {''api'', ''worker'', ''outbox'', ''recovery''} \<and> set rs \<inter> set seen = {}" for seen rs
    by (induction seen rs rule: roles_ok.induct) auto
  from assms have "roles_ok [] (pRoles p)" "pRoles p \<noteq> []" "1 \<le> pWorkers p" "pWorkers p \<le> 1024" "1 \<le> pTargetConcurrency p" "2 \<le> pDBMaxOpen p"
    "''worker'' \<in> set (pRoles p) \<or> ''outbox'' \<in> set (pRoles p) \<longrightarrow> pAMQPURL p \<noteq> []"
    by (auto simp: LoadProcess_def Let_def split: option.splits sum.splits if_splits)
  with roles show ?thesis by blast
qed

lemma Reload_current:
  assumes ok: "manager_ok K docs m" "cdDocument c \<subseteq>\<^sub>m docs" and run: "Reload K c failed v m = (Inr u, m')" and none: "mCurrent m = None"
  shows "\<exists>s. mCurrent m' = Some s \<and> cdRevision c = Some (snRevision s)"
proof -
  from run none obtain rv s m1 where rv: "cdRevision c = Some rv" and h: "History K c v rv m = (Inr s, m1)" and "mCurrent m' = Some s"
    by (auto simp: Reload_def split: if_splits option.splits sum.splits prod.splits)
  moreover have "snRevision s = rv" using History_ok [OF ok h] built_revision by blast
  ultimately show ?thesis by simp
qed

text \<open>
  A process that starts serves a valid configuration. If the start succeeds, the roles are known and
  named once, the limits are in range, roles that need the broker have its address, and the manager
  has a snapshot in force that satisfies every reference and limit and has all its secrets; the local
  limiter has no permit in use and the limits of the process, and each database pool is bounded as configured,
  with room for an idle connection.
\<close>

theorem boot_serves_valid:
  assumes "boot K e = Inr (p, rs, nd)"
  shows "pRoles p \<noteq> [] \<and> distinct (pRoles p) \<and> set (pRoles p) \<subseteq> {''api'', ''worker'', ''outbox'', ''recovery''}
    \<and> (''worker'' \<in> set (pRoles p) \<or> ''outbox'' \<in> set (pRoles p) \<longrightarrow> pAMQPURL p \<noteq> [])
    \<and> manager_ok K (cdDocument (bvControl e)) (wManager nd)
    \<and> (\<exists>s. mCurrent (wManager nd) = Some s \<and> snapshot_ok K s \<and> cdRevision (bvControl e) = Some (snRevision s))
    \<and> lim_ok (fst (wQuota nd)) {#} \<and> lMaxGlobal (fst (wQuota nd)) = pWorkers p \<and> 1 \<le> pWorkers p
    \<and> plOpen (rsBusiness rs) = pDBMaxOpen p \<and> plOpen (rsControl rs) = max 4 (pDBMaxOpen p div 4)
    \<and> (\<forall>q. q = rsBusiness rs \<or> q = rsControl rs \<longrightarrow> 1 \<le> idle_limit q \<and> idle_limit q \<le> plOpen q)"
proof -
  from assms obtain hash m m' where p: "LoadProcess (bvDecode e) (bvHost e) (config_path (bvHost e)) = Inr p"
    and l: "LoadSecrets (tkUnicode K) (bvDigest e) (bvHost e) (pSecrets p) NewManager = (Inr hash, m)"
    and r: "Reload K (bvControl e) (bvRevision e) (bvHistory e) m = (Inr (), m')"
    and nd: "wManager nd = m'" "wQuota nd = (New (pWorkers p) (pTargetConcurrency p), bvRedis e)"
    and opened: "Open (bvMysql e) (pBusinessDSN p) (pDBMaxOpen p) = Inr (rsBusiness rs)"
      "Open (bvMysql e) (pControlDSN p) (max 4 (pDBMaxOpen p div 4)) = Inr (rsControl rs)"
    by (auto simp: boot_def split: sum.splits if_splits prod.splits option.splits)
  note pools = Open_limits [OF opened(1)] Open_limits [OF opened(2)]
  let ?docs = "cdDocument (bvControl e)"
  have new: "manager_ok K ?docs NewManager" by (simp add: manager_ok_def NewManager_def)
  note m = LoadSecrets_ok [OF new l]
  then have "manager_ok K ?docs m'" using Reload_ok [OF _ map_le_refl r] by blast
  moreover have "mCurrent m = None" using m by (simp add: NewManager_def)
  with Reload_current [OF conjunct1 [OF m] map_le_refl r] obtain s where
    "mCurrent m' = Some s" "cdRevision (bvControl e) = Some (snRevision s)" by auto
  moreover from this(1) \<open>manager_ok K ?docs m'\<close> have "snapshot_ok K s" using built_ok by (auto simp: manager_ok_def)
  moreover have "lim_ok (New (pWorkers p) (pTargetConcurrency p)) {#}" "lMaxGlobal (New (pWorkers p) (pTargetConcurrency p)) = pWorkers p"
    using LoadProcess_ok [OF p] by (simp_all add: lim_ok_New) (simp add: New_def)
  ultimately show ?thesis using LoadProcess_ok [OF p] nd pools by auto
qed

definition ex_mysql :: "unit mysql" where
  "ex_mysql = (let c = \<lparr>myParseTime = False, myLoc = ''Local'', myTimeout = 0, myReadTimeout = 0, myWriteTimeout = 0, myParams = None\<rparr>
     in \<lparr>drParse = (\<lambda>_. Inr c), drFormat = (\<lambda>_. []), drConnector = (\<lambda>_. Inr (pool_settings c))\<rparr>)"

lemma ex_Open: "Open ex_mysql dsn n \<noteq> Inl x"
  by (simp add: Open_def ex_mysql_def Let_def)

definition ex_boot :: boot_env where
  "ex_boot = \<lparr>bvHost = \<lparr>hReadFile = (\<lambda>_. Some ''{}''), hGetenv = (\<lambda>k. if k = ''NOTIFIER_ROLES'' then [] else ''x'')\<rparr>,
     bvDecode = (\<lambda>p _. Some (p, [])), bvMysql = ex_mysql,
     bvRedisURL = (\<lambda>_. Some \<lparr>roDialTimeout = 0, roReadTimeout = 0, roWriteTimeout = 0, roMaxRetries = 0, roContextTimeout = False\<rparr>), bvDigest = (\<lambda>_. Some [1]), bvPing = True,
     bvControl = \<lparr>cdRevision = Some 7, cdDocument = ex_docs\<rparr>, bvRevision = False,
     bvHistory = \<lparr>hvFails = False, hvEnv = True, hvNow = 0, hvPick = 0\<rparr>, bvDb = empty_db, bvRedis = ex_redis, bvLocks = (\<lambda>_. None)\<rparr>"

lemma ex_boot_ok: "\<exists>p rs nd. boot ex_tool ex_boot = Inr (p, rs, nd) \<and> wDb nd = empty_db \<and> pRoles p = [''api'', ''worker'', ''outbox'', ''recovery'']"
proof -
  let ?m = "NewManager\<lparr>mSecrets := Some [], mSecretHash := [1]\<rparr>"
  from ex_Build obtain s where s: "Build ex_tool True 0 7 ''{}'' = Inr s" "snTargets s = [(''t'', ex_tool_target)]" by blast
  have p: "\<exists>p. LoadProcess (bvDecode ex_boot) (bvHost ex_boot) (config_path (bvHost ex_boot)) = Inr p \<and> pSecrets p = []
      \<and> pRoles p = [''api'', ''worker'', ''outbox'', ''recovery'']"
    by (simp add: LoadProcess_def ex_boot_def Decode_def default_Process_def Let_def)
  have l: "LoadSecrets (tkUnicode ex_tool) (bvDigest ex_boot) (bvHost ex_boot) [] NewManager = (Inr [1], ?m)"
    by (simp add: LoadSecrets_def ex_boot_def NewManager_def) (simp add: numeral_eq_Suc)
  have "\<not> needs_secret ex_tool_target" by (simp add: needs_secret_def ex_tool_target_def)
  with s have "\<exists>m'. Reload ex_tool (bvControl ex_boot) (bvRevision ex_boot) (bvHistory ex_boot) ?m = (Inr (), m')"
    by (simp add: ex_boot_def Reload_def NewManager_def History_def history_lookup_def ex_docs_def each_def)
  moreover have "Open (bvMysql ex_boot) dsn n \<noteq> Inl x" "bvRedisURL ex_boot u \<noteq> None" for dsn n x u
    using ex_Open by (simp_all add: ex_boot_def)
  ultimately show ?thesis using p l by (auto simp: boot_def split: sum.splits option.splits) (auto simp: ex_boot_def)
qed

theorem boot_serves_valid_witness:
  "\<exists>p rs nd s. boot ex_tool ex_boot = Inr (p, rs, nd) \<and> mCurrent (wManager nd) = Some s \<and> snapshot_ok ex_tool s"
proof -
  from ex_boot_ok obtain p rs nd where b: "boot ex_tool ex_boot = Inr (p, rs, nd)" by blast
  from boot_serves_valid [OF b] b show ?thesis by blast
qed

section \<open>One tenant at a time\<close>

lemma view_db [simp]: "sDb (worker_view nd) = wDb nd" "wDb (worker_put st nd) = sDb st"
  "rDb (loop_view nd) = wDb nd" "wDb (loop_put lst nd) = rDb lst"
  by (simp_all add: worker_view_def worker_put_def loop_view_def loop_put_def)

lemma wired_sel [simp]: "axProxy (wired D j y S) = Some (proxy D j)" "axCodec (wired D j y S) = dpCodec D"
  "axManualRetry (wired D j y S) =
     Some (Retry_Service (dpTool D) (dpCodec D) (yvControl y) (yvHistory y) (yvGet y) (yvMeanwhile y) (yvRetry y) (yvQuota y))"
  "axJwt (wired D j y S) = axJwt S"
  by (simp_all add: wired_def)

lemma wired_retry_listed: "retry_listed (wired D j y S)"
  unfolding retry_listed_def wired_def by (auto dest: Retry_listed)

lemma proxy_db: "wDb (snd (proxy D j u g nd)) = sDb (snd (Process D j u g (worker_view nd)))"
  by (simp add: proxy_def split: prod.split)

lemma wired_confined:
  assumes "others_keep (\<lambda>d d'. foreign client d' = foreign client d) j"
    and "\<And>k w. foreign client (wDb (evBetween e k w)) = foreign client (wDb w)"
    and "\<And>k d. foreign client (vMeanwhile (evAccept e k) d) = foreign client d"
    and "\<And>d. foreign client (yvMeanwhile y d) = foreign client d"
  shows "confined client (wired D j y S) e"
proof -
  have "foreign client (wDb (snd (proxy D j u g nd))) = foreign client (wDb nd)" if "no_foreign client u (wDb nd)" for u g nd
    using tenant.Process_keeps [OF assms(1), of u "worker_view nd" D g] that unfolding proxy_db
    by (metis view_db(1) prod.collapse)
  moreover have "foreign client (wDb (snd (Retry_Service K J c v e1 (yvMeanwhile y) e2 quota client u snap nd))) = foreign client (wDb nd)"
    for K J c v e1 e2 quota u snap and nd :: node
    using Retry_keeps_foreign assms(4) by (metis prod.collapse)
  ultimately show ?thesis using assms(2,3) by (simp add: confined_def)
qed

section \<open>All parts together\<close>

lemma proxy_path:
  assumes "others_ok (dpCodec D) N j"
  shows "db_path (dpCodec D) (7 * N + 2) (wDb nd) (wDb (snd (proxy D j u g nd)))"
  using Process_path [OF assms, of u g "worker_view nd"] unfolding proxy_db by (metis view_db(1) prod.collapse)

lemma wired_paced:
  assumes "others_ok (dpCodec D) N j" and "\<And>k w. db_path (dpCodec D) N (wDb w) (wDb (evBetween e k w))"
    and "\<And>k d. db_path (dpCodec D) N d (vMeanwhile (evAccept e k) d)" and "\<And>d. db_path (dpCodec D) N d (yvMeanwhile y d)"
  shows "paced N (7 * N + 2) (wired D j y S) e"
proof -
  have "db_path (dpCodec D) (N + 1) (wDb nd) (wDb (snd (Retry_Service K (dpCodec D) c v e1 (yvMeanwhile y) e2 quota client u snap nd)))"
    for K c v e1 e2 quota client u snap and nd :: node
    by (rule Retry_path [OF prod.collapse [symmetric]]) (rule assms(4))
  then show ?thesis using assms(2,3) proxy_path [OF assms(1)] by (simp add: paced_def del: One_nat_def)
qed

lemma consume_path:
  assumes "others_ok (dpCodec D) N j" and "consume_message J (Process D j) body (c, st) = (a, c', st')"
  shows "db_path (dpCodec D) (7 * N + 2) (sDb st) (sDb st')"
  using assms(2) Process_path [OF assms(1)] by (auto simp: consume_message_def split: option.splits prod.splits)

lemma node_step_path: "node_step D p N nd nd' \<Longrightarrow> db_path (dpCodec D) (210 * (N + 1)) (wDb nd) (wDb nd')"
proof (induction rule: node_step.induct)
  case (serve j e y S r nd resp nd')
  have "db_path (dpCodec D) (7 * N + 2 + 202 * (N + 1)) (wDb nd) (wDb nd')"
    using Handler_path [OF wired_paced [OF serve(2-5)] serve(6)] by simp
  moreover have "209 * N \<le> 210 * N" by (rule mult_le_mono1) simp
  ultimately show ?case by (elim db_path_mono) simp
next
  case (consume j body nd a c st)
  from db_path_mono [OF consume_path [OF consume(2,3)]] show ?case by simp
next
  case (dispatch e nd res d c)
  from db_path_mono [OF dispatch_once_path [OF dispatch(2,3)]] show ?case by simp
next
  case (recover R e nd res st)
  from db_path_mono [OF recovery_step_path [OF recover(2,4)]] recover(3) show ?case by simp
next
  case (idle nd d)
  then show ?case by (auto intro: db_path_mono)
qed simp_all

end
