(* ===== verification/Spec2Isabelle.thy ===== *)
theory Spec2Isabelle
  imports Node
begin

text \<open>
  Verification of \<^verbatim>\<open>notifier\<close>, a service that accepts HTTP notifications from internal clients and
  delivers them to third-party targets with retries. All paths below are under \<^verbatim>\<open>src/\<close>.

  \<^bold>\<open>The program.\<close> A client submits a notification to the API (\<^verbatim>\<open>internal/api\<close>, \<^verbatim>\<open>internal/auth\<close>), which
  checks it against the configuration in force and stores it together with an outbox event in one
  transaction (\<^verbatim>\<open>internal/application\<close>, \<^verbatim>\<open>internal/repository/business\<close>). The dispatcher
  (\<^verbatim>\<open>internal/outbox\<close>) publishes events to RabbitMQ (\<^verbatim>\<open>internal/mq/rabbitmq\<close>), whose consumers hand
  them to the worker (\<^verbatim>\<open>internal/delivery\<close>): under an advisory Redis lock and quota permits
  (\<^verbatim>\<open>internal/lock\<close>, \<^verbatim>\<open>internal/quota\<close>) it claims the notification with a lease, sends the request
  (\<^verbatim>\<open>internal/target\<close>), lets a hook judge the answer (\<^verbatim>\<open>internal/hook\<close>), schedules a retry
  (\<^verbatim>\<open>internal/retry\<close>) and settles the lease. A recovery loop (\<^verbatim>\<open>internal/recovery\<close>) settles expired
  leases and re-triggers stuck tasks. The configuration (\<^verbatim>\<open>internal/config\<close>) is a document per revision
  in a control database, written by \<^verbatim>\<open>cmd/notify-admin\<close> and reloaded by every process;
  \<^verbatim>\<open>cmd/notifier\<close> starts and wires the parts, \<^verbatim>\<open>internal/observability\<close> reports their state.

  \<^bold>\<open>Theories.\<close>
  \<^item> \<open>Prelude\<close>, \<open>Encoding\<close>, \<open>HttpText\<close>, \<open>Json\<close>: Go's integers, times, strings, hex, base64, UTF-8, header names
    and JSON values as the program uses them.
  \<^item> \<open>Domain\<close> (\<^verbatim>\<open>domain/model.go\<close>), \<open>Config\<close> and \<open>Validate\<close> (\<^verbatim>\<open>config/model.go\<close>, \<^verbatim>\<open>validate.go\<close>), \<open>Manager\<close>
    (\<^verbatim>\<open>config/manager.go\<close>, \<^verbatim>\<open>process.go\<close>), \<open>Admin\<close> (\<^verbatim>\<open>cmd/notify-admin\<close>): identifiers, documents, what \<open>Build\<close>
    accepts, the manager as a step relation, and the command that moves the configuration forward. \<open>Watch\<close> is the loop
    that reloads (directories, debounce timer, tickers), \<open>Duration\<close> the JSON form of durations with Go's printer and
    parser, its 64-bit overflow checks and its floating-point product.
  \<^item> \<open>Store\<close> (\<^verbatim>\<open>repository/business\<close>): the four tables of \<^verbatim>\<open>migrations/001_business.sql\<close> as lists of records and
    every method of \<^verbatim>\<open>Store\<close> as one function on them. \<open>StoreSpec\<close> states the abstract steps the methods
    implement (\<open>db_step\<close>), \<open>Lifecycle\<close> the invariant \<open>wf_db\<close> and the relation \<open>runs\<close> of all call sequences,
    \<open>Guarantees\<close> and \<open>StoreProps\<close> what follows for callers. \<open>Interference\<close> turns this into paths (\<open>db_path\<close>)
    that the other parts compose, \<open>Tenancy\<close> shows what leaves the rows of other clients and all contents alone.
  \<^item> \<open>RetryPolicy\<close> (\<^verbatim>\<open>retry/policy.go\<close>), \<open>Limiter\<close>, \<open>Quota\<close> and \<open>Lock\<close> (\<^verbatim>\<open>quota.go\<close>, \<^verbatim>\<open>lock/redis.go\<close>, the Lua scripts as
    functions on Redis keys with expiry), \<open>Payload\<close>, \<open>NetPolicy\<close>, \<open>Deliver\<close> (\<^verbatim>\<open>target/http.go\<close>), \<open>Hook\<close>.
  \<^item> \<open>Application\<close>, \<open>Worker\<close>, \<open>Recovery\<close>, \<open>Rabbit\<close>, \<open>Dispatch\<close>, \<open>Auth\<close>, \<open>Api\<close>, \<open>ApiProps\<close>, \<open>Health\<close>: one theory per
    package. \<open>Acceptance\<close> shows how submissions race, \<open>Progress\<close> that the worker gets its work done, \<open>Contract\<close> states
    \<^verbatim>\<open>api/openapi.yaml\<close> over the answers.
  \<^item> \<open>Session\<close> (\<^verbatim>\<open>Consume\<close> and \<^verbatim>\<open>consumeSession\<close> of \<^verbatim>\<open>mq/rabbitmq/client.go\<close>): the consumer goroutines, their channel and
    the goroutine that waits for them, as a step relation beside the broker. \<open>Shutdown\<close> (second half of \<^verbatim>\<open>run\<close> in
    \<^verbatim>\<open>cmd/notifier\<close>): the servers, the stop sequence and the deferred calls, as a program beside the session, the loops
    and the API server. \<open>Node\<close> (\<^verbatim>\<open>cmd/notifier\<close>): start, wiring and the step relation of the whole process.
  \<^item> \<open>Support\<close>: request identifiers in contexts, database pools, Redis options, write deadlines, the health probe and
    the recovery loop. \<open>Mock\<close> (\<^verbatim>\<open>cmd/mock-target\<close>): the test target.

  \<^bold>\<open>How code becomes definitions.\<close> A struct is a record, a method a function of the same name from the state to
  the result and the new state, an error a value of \<open>error\<close>, a Go map an association list in the order
  one \<^verbatim>\<open>range\<close> visits it. Everything the environment decides is an argument: a record \<open>..._env\<close>
  holds the faults of the calls in order (\<open>io_fails\<close>), whether a commit reported as failed was applied,
  clock readings and fresh identifiers. A method of the store is one atomic transaction. Between two steps of
  any other operation the rest of the system may act: the functions \<open>jvMeanwhile\<close>, \<open>rvBefore...\<close>,
  \<open>xvMeanwhile\<close>, \<open>evBetween\<close>, \<open>vMeanwhile\<close>, \<open>yvMeanwhile\<close> are arbitrary state changes, assumed only to consist of store
  calls (\<open>others_ok\<close>, \<open>loop_others_ok\<close>, \<open>paced\<close>). Where the order of goroutines is the point (\<open>Session\<close>, \<open>Shutdown\<close>), they
  are inductive step relations instead, and a select with several ready cases may take any of them.

  \<^bold>\<open>What is shown.\<close> For the store: the invariant over all call sequences, refinement of a status automaton, one
  claim per generation, one settlement per lease, finality of delivery, an event for every waiting
  notification, immutable contents, rollback on errors. For the worker: silence on duplicates, truthful
  outcomes, permits given back, and that without faults a notification is delivered, or repeated as the
  policy says; for recovery and dispatch: stuck tasks are re-triggered and nothing is
  forgotten before the broker confirmed it; for consumers: every message is answered once and only after its
  result, and a session drains; for the process: work is cut off only after the grace period, and it does stop.
  For the boundary: who is authenticated, tenants kept apart,
  only permitted submissions accepted, replays harmless, races on one key decided once, complete paging, batches
  answered item by item, every answer as the contract types it,
  requests and connections within policy, secrets redacted. For configuration: only valid
  snapshots in force, never backwards, forward only by the command, taken over after it was applied. The
  theorems about the whole process are below.

  \<^bold>\<open>Bounds.\<close> A generation is a \<^verbatim>\<open>uint64\<close>; the theorems about runs assume fewer than \<open>2 ^ 57\<close> store calls, which
  with at most 100 generations raised per call (\<^verbatim>\<open>Reconcile\<close>) keeps every generation below \<open>2 ^ 64\<close>. A
  recovery step looks at up to 100 leases, a batch has up to 100 items; \<open>210 * (N + 1)\<close> calls cover any one activity
  of the process when the others make at most \<open>N\<close> calls between two of its steps. A stopped session makes at most five
  steps per consumer and two more, a stopped process at most 22 of its main goroutine. No definition needs fuel: loops
  are structural or have a measure.

  \<^bold>\<open>Parameters.\<close> Code outside the repository is an argument with what it documents as hypotheses: the JSON encoder
  and decoder (\<open>codec\<close>, \<open>json_lib\<close>), SHA-256, the URL, prefix and key parsers, the CEL compiler
  (\<open>toolkit\<close>), the HTTP client (\<open>exchange\<close>), the AMQP library (\<open>mq_env\<close>), the JWT library (\<open>jwt\<close>), the MySQL driver
  (\<open>mysql\<close>), Unicode tables (\<open>unicode\<close>).

  \<^bold>\<open>Not modelled.\<close> Logging, but for the numbers of the periodic report; sockets and the kernel's scheduling beyond
  the interleavings above; what a context's expiry does inside a library call, whose effect is that the call
  fails; the recovery of panics in the API, since no handler of the model panics; \<^verbatim>\<open>VersionKey\<close> and
  \<^verbatim>\<open>BodyHashString\<close>, which nothing calls; \<^verbatim>\<open>tests/e2e/provider\<close>, a fixture.

  \<^bold>\<open>Planned.\<close> One notification followed from its acceptance through dispatch and consumption to its delivery; the
  sessions of \<open>Session\<close> in place of single messages in the step relation of \<open>Node\<close>.
\<close>

section \<open>The process as a whole\<close>

text \<open>A node with one notification waiting, and a request to list notifications, for the witnesses.\<close>

definition ex_node :: node where
  "ex_node = \<lparr>wDb = ex_db1, wQuota = (New 2 2, ex_redis), wManager = NewManager\<lparr>mCurrent := Some ex_live_snap\<rparr>, wAccepted = 0,
     ndLocks = (\<lambda>_. None), ndTransports = [], ndDelivered = 0, ndFailed = 0, ndRetried = 0,
     ndMQ = \<lparr>cConn = None, cObserved = None, cClosed = False, cPublishFailures = 0, cConsumeFailures = 0, cActive = 0\<rparr>,
     ndRecovered = 0, ndReconciled = 0\<rparr>"

definition ex_shared :: node where
  "ex_shared = ex_node\<lparr>wDb := ex_db1\<lparr>tasks := tasks ex_db1 @ [(task_of ex_pending ''r'')\<lparr>tk_id := replicate 16 8, tk_client := ''b''\<rparr>]\<rparr>,
     wManager := NewManager\<lparr>mCurrent := Some ex_auth_snap\<rparr>\<rparr>"

definition ex_node_server :: "node server" where
  "ex_node_server = \<lparr>axTool = ex_auth_tool, axSha = ex_sha, axCodec = ex_codec, axJwt = ex_jwt,
     axAny = (\<lambda>_. InputEnds), axSubmission = (\<lambda>b. BadJSON), axItems = (\<lambda>b. BadJSON),
     axItem = (\<lambda>raw. None), axItemKey = (\<lambda>_. []), axProxy = None, axManualRetry = None\<rparr>"

definition ex_node_env :: "node api_env" where
  "ex_node_env = \<lparr>evNow = 0, evRequestID = replicate 16 4, evAccept = (\<lambda>_. ex_env), evGet = ex_io second 1,
     evAttempts = ex_io second 1, evList = ex_io second 1, evQuota = None, evBatchID = replicate 16 6,
     evBatch = ex_io second 1, evBetween = (\<lambda>_ w. w)\<rparr>"

definition ex_retry_env :: retry_env where
  "ex_retry_env = \<lparr>yvControl = \<lparr>cdRevision = None, cdDocument = (\<lambda>_. None)\<rparr>,
     yvHistory = \<lparr>hvFails = True, hvEnv = True, hvNow = 0, hvPick = 0\<rparr>, yvGet = ex_io second 1, yvMeanwhile = (\<lambda>d. d), yvRetry = ex_io second 1, yvQuota = None\<rparr>"

text \<open>
  C8: the parts together keep what the store guarantees. From any reachable database, any number of
  requests, deliveries, dispatches, recovery steps and configuration reloads, in any order, each
  interleaved with up to \<open>N\<close> store calls of other processes between any two of its steps, lead to a
  reachable database: the invariant holds, every waiting notification has its event, and nothing that
  was accepted before is lost or altered.
\<close>

theorem system_keeps_guarantees:
  assumes steps: "(node_step D p N ^^ n) nd nd'" and reach: "runs (dpCodec D) k (wDb nd, S)" "k + n * (210 * (N + 1)) < 2 ^ 57"
  shows "\<exists>k' S'. runs (dpCodec D) k' (wDb nd', S') \<and> k' \<le> k + n * (210 * (N + 1)) \<and> wf_db (wDb nd') \<and> cores_kept (wDb nd) (wDb nd')"
proof -
  have "db_path (dpCodec D) (n * (210 * (N + 1))) (wDb nd) (wDb nd')"
    using steps
  proof (induction n arbitrary: nd')
    case (Suc n)
    then obtain x where "(node_step D p N ^^ n) nd x" "node_step D p N x nd'" by auto
    from db_path_trans [OF Suc.IH [OF this(1)] node_step_path [OF this(2)]] show ?case by (rule db_path_mono) simp
  qed simp
  note path = this
  from db_path_runs [OF reach(1) path] obtain k' S' where r: "runs (dpCodec D) k' (wDb nd', S')" "k' \<le> k + n * (210 * (N + 1))" by blast
  then have "wf_db (wDb nd')" using runs_good [OF r(1)] reach(2) by (simp add: good_def)
  with r db_path_cores [OF reach(1) path reach(2)] show ?thesis by blast
qed

theorem system_keeps_guarantees_witness:
  "\<exists>nd'. node_step ex_deps default_Process 0 ex_node nd' \<and> phase (wDb nd') (nID ex_note) = Some (''delivered'', 1)
     \<and> wf_db (wDb nd') \<and> cores_kept (wDb ex_node) (wDb nd')"
proof -
  have view: "worker_view ex_node = ex_wstate" by (simp add: worker_view_def ex_node_def ex_wstate_def)
  from ex_Process obtain st where st: "Process ex_deps ex_jobs (nID ex_note) 1 ex_wstate = (None, st)"
    "phase (sDb st) (nID ex_note) = Some (''delivered'', 1)" by blast
  let ?nd = "(worker_put st ex_node)\<lparr>ndMQ := ndMQ ex_node\<rparr>"
  have "valid_message (dpCodec ex_deps) ''e'' = Some \<lparr>eSchema = 1, eID = replicate 16 1, eNotification = nID ex_note,
      eGeneration = 1, eType = ''dispatch'', eCreated = 0\<rparr>"
    by (simp add: valid_message_def ex_deps_def ex_codec_def zero_ID_def ex_note_def)
  with st(1) have "consume_message (dpCodec ex_deps) (Process ex_deps ex_jobs) ''e'' (ndMQ ex_node, worker_view ex_node)
      = (Ack, ndMQ ex_node, st)"
    by (simp add: consume_message_def view)
  then have step: "node_step ex_deps default_Process 0 ex_node ?nd"
    by (intro consume [OF _ ex_others(1)]) (simp_all add: default_Process_def)
  then have one: "(node_step ex_deps default_Process 0 ^^ 1) ex_node ?nd" by (simp only: relpowp_1)
  have r: "runs (dpCodec ex_deps) 1 (wDb ex_node, {})" using ex_runs1 by (simp add: ex_deps_def ex_node_def)
  have "wf_db (wDb ?nd) \<and> cores_kept (wDb ex_node) (wDb ?nd)"
    using system_keeps_guarantees [OF one r] by auto
  with step st(2) show ?thesis by (intro exI [of _ ?nd]) simp
qed

text \<open>
  C9: tenants are kept apart. A request without a valid token is answered 401 and changes nothing. A
  request of a client is shown only notifications of that client, and whatever it does, including a
  delivery at once in proxy mode, and whatever faults it meets, the notifications and delivery attempts
  of all other clients are left as they are, as long as nobody else touches them meanwhile.
\<close>

theorem tenants_apart:
  assumes run: "Handler (wired D j y S) e r nd = (resp, nd')"
    and who: "who = Authenticate (axJwt S) (evNow e) (go_get [] (rqHeader r) ''Authorization'') (mCurrent (wManager nd))"
    and others: "\<And>client. who = Inr client \<Longrightarrow> others_keep (\<lambda>d d'. foreign client d' = foreign client d) j"
      "\<And>client k w. who = Inr client \<Longrightarrow> foreign client (wDb (evBetween e k w)) = foreign client (wDb w)"
      "\<And>client k d. who = Inr client \<Longrightarrow> foreign client (vMeanwhile (evAccept e k) d) = foreign client d"
      "\<And>client d. who = Inr client \<Longrightarrow> foreign client (yvMeanwhile y d) = foreign client d"
  shows "case who of
      Inl _ \<Rightarrow> rsStatus resp = 401 \<and> nd' = nd \<and> notes_of (rsBody resp) = []
    | Inr client \<Rightarrow> (\<forall>n\<in>set (notes_of (rsBody resp)). nClient n = client) \<and> foreign client (wDb nd') = foreign client (wDb nd)"
proof (cases who)
  case (Inl x)
  from Inl who have "Authenticate (axJwt (wired D j y S)) (evNow e) (go_get [] (rqHeader r) ''Authorization'')
      (mCurrent (wManager nd)) = Inl x" by simp
  from Handler_unauthenticated [OF this] run Inl show ?thesis by auto
next
  case (Inr client)
  have "confined client (wired D j y S) e" by (rule wired_confined) (use others Inr in auto)
  moreover from Inr who have "Authenticate (axJwt (wired D j y S)) (evNow e) (go_get [] (rqHeader r) ''Authorization'')
      (mCurrent (wManager nd)) = Inr client" by simp
  ultimately show ?thesis using Handler_confined [OF _ run] Handler_discloses [OF run] Inr by auto
qed

theorem tenants_apart_witness:
  "\<exists>resp nd'. Handler (wired ex_deps ex_jobs ex_retry_env ex_node_server) ex_node_env
       (ex_request_http\<lparr>rqHeader := [(''Authorization'', ''Bearer h.p.s'')]\<rparr>) ex_shared = (resp, nd')
     \<and> list_all (\<lambda>n. nClient n = ''c'') (notes_of (rsBody resp)) \<and> map tk_id (fst (foreign ''c'' (wDb nd'))) = [replicate 16 8]"
proof -
  let ?S = "wired ex_deps ex_jobs ex_retry_env ex_node_server" and ?r = "ex_request_http\<lparr>rqHeader := [(''Authorization'', ''Bearer h.p.s'')]\<rparr>"
  obtain resp nd' where run: "Handler ?S ex_node_env ?r ex_shared = (resp, nd')" by (rule prod.exhaust)
  have who: "Inr ''c'' = Authenticate (axJwt ex_node_server) (evNow ex_node_env) (go_get [] (rqHeader ?r) ''Authorization'')
      (mCurrent (wManager ex_shared))"
    using ex_Authenticate by (simp add: ex_node_server_def ex_node_env_def go_get_def ex_shared_def)
  have "case Inr ''c'' of Inl (_ :: error) \<Rightarrow> rsStatus resp = 401 \<and> nd' = ex_shared \<and> notes_of (rsBody resp) = []
    | Inr client \<Rightarrow> (\<forall>n\<in>set (notes_of (rsBody resp)). nClient n = client) \<and> foreign client (wDb nd') = foreign client (wDb ex_shared)"
    by (rule tenants_apart [OF run who]) (simp_all add: others_keep_def ex_jobs_def ex_node_env_def ex_env_def ex_retry_env_def)
  moreover have "map tk_id (fst (foreign ''c'' (wDb ex_shared))) = [replicate 16 8]"
    by (simp add: foreign_def foreign_tasks_def ex_shared_def ex_store_defs go_simps)
  ultimately show ?thesis using run by (auto simp: list_all_iff)
qed


end
